(* ===== verification/Prelude.thy ===== *)
theory Prelude
  imports Main "HOL-Library.Word" "HOL-Library.Multiset" "HOL-Library.List_Lexorder"
    "HOL-Library.Char_ord"
begin

text \<open>
  The vocabulary shared by the component theories: names for the machine-integer
  types, the decimal and hexadecimal renderings of the C++ standard library, the
  searching and trimming idioms on \<^verbatim>\<open>std::string\<close>, ordered associative containers
  as sorted lists, and \<^verbatim>\<open>std::sort\<close> with its comparator contract stated as a
  locale.  Nothing here models a file of the repository; the theories that do
  import it.
\<close>

section \<open>Collections and type names\<close>

named_theorems valid_defs \<open>the definitions of the validity predicates of the model\<close>
named_theorems diag_simps \<open>how the operations extend the list of diagnostics\<close>

type_synonym u8 = "8 word"
type_synonym u16 = "16 word"
type_synonym u32 = "32 word"
type_synonym u64 = "64 word"

abbreviation u64_max :: nat where
  "u64_max \<equiv> 18446744073709551615"

abbreviation int_max :: nat where
  "int_max \<equiv> 2147483647"

section \<open>Decimal numerals: std::to_string and std::from_chars on integers\<close>

definition digit_char :: "nat \<Rightarrow> char" where
  "digit_char d = char_of (48 + d)"

definition is_digit :: "char \<Rightarrow> bool" where
  "is_digit c \<longleftrightarrow> 48 \<le> (of_char c :: nat) \<and> (of_char c :: nat) \<le> 57"

definition digit_value :: "char \<Rightarrow> nat" where
  "digit_value c = of_char c - 48"

fun show_nat :: "nat \<Rightarrow> string" where
  "show_nat n = (if n < 10 then [digit_char n]
     else show_nat (n div 10) @ [digit_char (n mod 10)])"

declare show_nat.simps [simp del]

lemma show_nat_eval:
  "n < 10 \<Longrightarrow> show_nat n = [digit_char n]"
  "\<not> n < 10 \<Longrightarrow> show_nat n = show_nat (n div 10) @ [digit_char (n mod 10)]"
  by (simp_all add: show_nat.simps [of n])

definition show_int :: "int \<Rightarrow> string" where
  "show_int i = (if i < 0 then CHR ''-'' # show_nat (nat (- i)) else show_nat (nat i))"

definition digits_value :: "string \<Rightarrow> nat" where
  "digits_value = foldl (\<lambda>a c. 10 * a + digit_value c) 0"

text \<open>
  \<^verbatim>\<open>std::from_chars\<close> on an unsigned 64-bit target, for the callers that require the
  whole text to be consumed: at least one digit, nothing but digits, no overflow.
\<close>

definition from_chars_u64 :: "string \<Rightarrow> nat option" where
  "from_chars_u64 s = (if s \<noteq> [] \<and> list_all is_digit s \<and> digits_value s \<le> u64_max
     then Some (digits_value s) else None)"

lemma of_char_digit_char: "d < 10 \<Longrightarrow> (of_char (digit_char d) :: nat) = 48 + d"
  by (simp add: digit_char_def)

lemma is_digit_digit_char [simp]: "d < 10 \<Longrightarrow> is_digit (digit_char d)"
  by (simp add: is_digit_def of_char_digit_char)

lemma digit_value_digit_char [simp]: "d < 10 \<Longrightarrow> digit_value (digit_char d) = d"
  by (simp add: digit_value_def of_char_digit_char)

lemma show_nat_digits [simp]: "list_all is_digit (show_nat n)"
proof (induction n rule: show_nat.induct)
  case (1 n)
  then show ?case by (subst show_nat.simps) auto
qed

lemma show_nat_nonempty [simp]: "show_nat n \<noteq> []"
  by (subst show_nat.simps) simp

lemma digits_value_show_nat [simp]: "digits_value (show_nat n) = n"
proof (induction n rule: show_nat.induct)
  case (1 n)
  show ?case
  proof (cases "n < 10")
    case True
    then show ?thesis by (subst show_nat.simps) (simp add: digits_value_def)
  next
    case False
    with 1 show ?thesis by (subst show_nat.simps) (simp add: digits_value_def)
  qed
qed

lemma show_nat_eq_iff [simp]: "show_nat m = show_nat n \<longleftrightarrow> m = n"
  by (metis digits_value_show_nat)

lemma from_chars_show_nat [simp]:
  "n \<le> u64_max \<Longrightarrow> from_chars_u64 (show_nat n) = Some n"
  by (simp add: from_chars_u64_def)

lemma from_chars_u64_bound: "from_chars_u64 s = Some n \<Longrightarrow> n \<le> u64_max"
  by (auto simp: from_chars_u64_def split: if_splits)

lemma minus_not_digit [simp]: "\<not> is_digit (CHR ''-'')"
  by (simp add: is_digit_def)

lemma hd_show_nat_digit [simp]: "is_digit (hd (show_nat n))"
  by (metis list.pred_set list.set_sel(1) show_nat_digits show_nat_nonempty)

lemma show_int_eq_iff [simp]: "show_int i = show_int j \<longleftrightarrow> i = j"
proof -
  have *: "show_nat m \<noteq> CHR ''-'' # s" for m s
    by (metis hd_show_nat_digit list.sel(1) minus_not_digit)
  show ?thesis
    by (auto simp: show_int_def * *[symmetric])
qed

lemma show_int_nonempty [simp]: "show_int i \<noteq> []"
  by (simp add: show_int_def)

lemma set_show_int: "c \<in> set (show_int i) \<Longrightarrow> is_digit c \<or> c = CHR ''-''"
  using show_nat_digits by (auto simp: show_int_def list_all_iff split: if_splits)

section \<open>Hexadecimal numerals of fixed width\<close>

definition hex_char :: "nat \<Rightarrow> char" where
  "hex_char d = (if d < 10 then char_of (48 + d) else char_of (87 + d))"

text \<open>\<^verbatim>\<open>std::hex << std::setfill('0') << std::setw(w)\<close> of a number below \<open>16 ^ w\<close>.\<close>

primrec show_hex :: "nat \<Rightarrow> nat \<Rightarrow> string" where
  "show_hex 0 n = []"
| "show_hex (Suc w) n = show_hex w (n div 16) @ [hex_char (n mod 16)]"

lemma length_show_hex [simp]: "length (show_hex w n) = w"
  by (induction w arbitrary: n) auto

lemma hex_char_inj: "a < 16 \<Longrightarrow> b < 16 \<Longrightarrow> hex_char a = hex_char b \<Longrightarrow> a = b"
proof -
  assume ab: "a < 16" "b < 16" and eq: "hex_char a = hex_char b"
  have v: "(of_char (hex_char d) :: nat) = (if d < 10 then 48 + d else 87 + d)" if "d < 16" for d
    using that by (cases "d < 10") (simp_all add: hex_char_def)
  have "(if a < 10 then 48 + a else 87 + a) = (if b < 10 then 48 + b else 87 + b)"
    using v[OF ab(1)] v[OF ab(2)] eq by simp
  then show "a = b" using ab by (simp split: if_splits)
qed

lemma show_hex_inj:
  "m < 16 ^ w \<Longrightarrow> n < 16 ^ w \<Longrightarrow> show_hex w m = show_hex w n \<Longrightarrow> m = n"
proof (induction w arbitrary: m n)
  case 0
  then show ?case by simp
next
  case (Suc w)
  from Suc.prems(3) have "show_hex w (m div 16) = show_hex w (n div 16)"
    and h: "hex_char (m mod 16) = hex_char (n mod 16)" by auto
  moreover have "m div 16 < 16 ^ w" "n div 16 < 16 ^ w"
    using Suc.prems(1,2) by (auto simp: less_mult_imp_div_less)
  ultimately have "m div 16 = n div 16" by (metis Suc.IH)
  moreover have "m mod 16 = n mod 16" using h by (intro hex_char_inj) auto
  ultimately show ?case by (metis div_mult_mod_eq)
qed

section \<open>Trimming and splitting std::string\<close>

text \<open>
  Both trimming functions of the program (\<^verbatim>\<open>find_first_not_of\<close> in the cache key,
  an index loop over \<^verbatim>\<open>std::isspace\<close> in the format arguments) keep the text between
  the first and the last character outside a set.
\<close>

definition trim_of :: "(char \<Rightarrow> bool) \<Rightarrow> string \<Rightarrow> string" where
  "trim_of sp s = rev (dropWhile sp (rev (dropWhile sp s)))"

lemma dropWhile_rev_fix:
  "s = [] \<or> \<not> sp (last s) \<Longrightarrow> dropWhile sp (rev s) = rev s"
  by (cases s rule: rev_cases) auto

lemma last_dropWhile_neq: "dropWhile sp s \<noteq> [] \<Longrightarrow> last (dropWhile sp s) = last s"
  by (induction s) auto

lemma trim_of_ends:
  "trim_of sp s = [] \<or> (\<not> sp (hd (trim_of sp s)) \<and> \<not> sp (last (trim_of sp s)))"
proof -
  define t where "t = dropWhile sp s"
  define r where "r = dropWhile sp (rev t)"
  have r: "trim_of sp s = rev r" by (simp add: trim_of_def t_def r_def)
  show ?thesis
  proof (cases "r = []")
    case True
    then show ?thesis using r by simp
  next
    case False
    have "\<not> sp (hd r)" using False hd_dropWhile unfolding r_def by metis
    moreover have tne: "t \<noteq> []" using False by (auto simp: r_def)
    moreover have "last r = last (rev t)"
      using False unfolding r_def by (rule last_dropWhile_neq)
    then have "last r = hd t" by (simp add: last_rev)
    moreover have "\<not> sp (hd t)" using tne hd_dropWhile unfolding t_def by metis
    ultimately show ?thesis using r False by (simp add: hd_rev last_rev)
  qed
qed

lemma trim_of_fix:
  assumes "s = [] \<or> (\<not> sp (hd s) \<and> \<not> sp (last s))"
  shows "trim_of sp s = s"
proof -
  have "dropWhile sp s = s" using assms by (cases s) auto
  moreover have "dropWhile sp (rev s) = rev s" using assms by (intro dropWhile_rev_fix) auto
  ultimately show ?thesis by (simp add: trim_of_def)
qed

lemma trim_of_idem [simp]: "trim_of sp (trim_of sp s) = trim_of sp s"
  by (rule trim_of_fix) (rule trim_of_ends)

lemma set_trim_of: "set (trim_of sp s) \<subseteq> set s"
  unfolding trim_of_def by (metis dual_order.trans set_dropWhileD set_rev subsetI)

text \<open>
  The \<^verbatim>\<open>find\<close>/\<^verbatim>\<open>substr\<close> loops of the program visit the parts between separators,
  the empty ones included; \<open>split_at c s\<close> lists them.
\<close>

fun split_on :: "char \<Rightarrow> string \<Rightarrow> string list" where
  "split_on c [] = [[]]"
| "split_on c (x # xs) = (if x = c then [] # split_on c xs
     else (case split_on c xs of [] \<Rightarrow> [[x]] | p # ps \<Rightarrow> (x # p) # ps))"

fun join_with :: "string \<Rightarrow> string list \<Rightarrow> string" where
  "join_with sep [] = []"
| "join_with sep [p] = p"
| "join_with sep (p # q # ps) = p @ sep @ join_with sep (q # ps)"

lemma split_on_nonempty [simp]: "split_on c s \<noteq> []"
  by (induction c s rule: split_on.induct) (auto split: list.splits)

lemma split_on_no_sep: "p \<in> set (split_on c s) \<Longrightarrow> c \<notin> set p"
proof (induction s arbitrary: p)
  case Nil
  then show ?case by simp
next
  case (Cons x xs)
  then show ?case by (auto split: if_splits list.splits)
qed

lemma split_on_plain: "c \<notin> set p \<Longrightarrow> split_on c p = [p]"
  by (induction p) auto

lemma split_on_append: "c \<notin> set p \<Longrightarrow> split_on c (p @ c # s) = p # split_on c s"
  by (induction p) auto

lemma split_join:
  "ps \<noteq> [] \<Longrightarrow> (\<And>p. p \<in> set ps \<Longrightarrow> c \<notin> set p) \<Longrightarrow> split_on c (join_with [c] ps) = ps"
  by (induction "[c]" ps rule: join_with.induct) (auto simp: split_on_plain split_on_append)

lemma join_split: "join_with [c] (split_on c s) = s"
proof (induction s)
  case Nil
  then show ?case by simp
next
  case (Cons x xs)
  show ?case
  proof (cases "split_on c xs")
    case Nil
    then show ?thesis by simp
  next
    case (Cons p ps)
    with Cons.IH show ?thesis by (cases ps) auto
  qed
qed

end
