(* ===== verification/Binary_Float.thy ===== *)
theory Binary_Float
  imports Complex_Main Prelude "HOL-Library.Log_Nat"
begin

text \<open>
  IEEE 754 binary floating point, the arithmetic of the program's \<^verbatim>\<open>double\<close>,
  \<^verbatim>\<open>float\<close> and \<^verbatim>\<open>long double\<close>.  A value is a NaN, an infinity, a negative zero or a
  rational (the positive zero and every finite non-zero value); the operations compute
  the exact rational result and round it to nearest, ties to even, in a given format.
  All of it is executable.  The lemmas give what the components use: rounding is
  monotone, leaves representable values alone, is exact on integers up to the
  precision, and the comparisons are the rational ones on finite values.
\<close>

section \<open>Values and comparisons\<close>

datatype fl = F_NaN | F_PosInf | F_NegInf | F_NegZero | F_Fin rat

fun fval :: "fl \<Rightarrow> rat" where
  "fval (F_Fin q) = q"
| "fval _ = 0"

fun is_finite :: "fl \<Rightarrow> bool" where
  "is_finite (F_Fin q) = True"
| "is_finite F_NegZero = True"
| "is_finite _ = False"

abbreviation fzero :: fl where "fzero \<equiv> F_Fin 0"

fun flt :: "fl \<Rightarrow> fl \<Rightarrow> bool" where
  "flt F_NaN _ = False"
| "flt _ F_NaN = False"
| "flt F_PosInf _ = False"
| "flt F_NegInf y = (y \<noteq> F_NegInf)"
| "flt _ F_PosInf = True"
| "flt _ F_NegInf = False"
| "flt x y = (fval x < fval y)"

fun feq :: "fl \<Rightarrow> fl \<Rightarrow> bool" where
  "feq F_NaN _ = False"
| "feq _ F_NaN = False"
| "feq F_PosInf y = (y = F_PosInf)"
| "feq F_NegInf y = (y = F_NegInf)"
| "feq _ F_PosInf = False"
| "feq _ F_NegInf = False"
| "feq x y = (fval x = fval y)"

definition fle :: "fl \<Rightarrow> fl \<Rightarrow> bool" where
  "fle x y \<longleftrightarrow> flt x y \<or> feq x y"

definition fmin :: "fl \<Rightarrow> fl \<Rightarrow> fl" where
  \<comment> \<open>\<^verbatim>\<open>std::min(x, y)\<close>: the first argument unless the second is less\<close>
  "fmin x y = (if flt y x then y else x)"

definition fmax :: "fl \<Rightarrow> fl \<Rightarrow> fl" where
  \<comment> \<open>\<^verbatim>\<open>std::max(x, y)\<close>: the first argument unless it is less than the second\<close>
  "fmax x y = (if flt x y then y else x)"

lemma flt_fin [simp]: "is_finite x \<Longrightarrow> is_finite y \<Longrightarrow> flt x y \<longleftrightarrow> fval x < fval y"
  by (cases x; cases y) auto

lemma feq_fin [simp]: "is_finite x \<Longrightarrow> is_finite y \<Longrightarrow> feq x y \<longleftrightarrow> fval x = fval y"
  by (cases x; cases y) auto

lemma fle_fin [simp]: "is_finite x \<Longrightarrow> is_finite y \<Longrightarrow> fle x y \<longleftrightarrow> fval x \<le> fval y"
  by (auto simp: fle_def)

lemma flt_irrefl [simp]: "\<not> flt x x"
  by (cases x) auto

lemma flt_trans: "flt x y \<Longrightarrow> flt y z \<Longrightarrow> flt x z"
  by (cases x; cases y; cases z) auto

lemma fle_trans: "fle x y \<Longrightarrow> fle y z \<Longrightarrow> fle x z"
  by (cases x; cases y; cases z) (auto simp: fle_def)

lemma fle_flt_trans: "fle x y \<Longrightarrow> flt y z \<Longrightarrow> flt x z"
  by (cases x; cases y; cases z) (auto simp: fle_def)

lemma flt_fle_trans: "flt x y \<Longrightarrow> fle y z \<Longrightarrow> flt x z"
  by (cases x; cases y; cases z) (auto simp: fle_def)

lemma feq_sym: "feq x y \<longleftrightarrow> feq y x"
  by (cases x; cases y) auto

lemma feq_refl_iff [simp]: "feq x x \<longleftrightarrow> x \<noteq> F_NaN"
  by (cases x) auto

lemma fle_refl_iff [simp]: "fle x x \<longleftrightarrow> x \<noteq> F_NaN"
  by (simp add: fle_def)

lemma flt_imp_fle: "flt x y \<Longrightarrow> fle x y"
  by (simp add: fle_def)

lemma not_flt_fle: "x \<noteq> F_NaN \<Longrightarrow> y \<noteq> F_NaN \<Longrightarrow> \<not> flt x y \<longleftrightarrow> fle y x"
  by (cases x; cases y) (auto simp: fle_def)

lemma not_fle_flt: "x \<noteq> F_NaN \<Longrightarrow> y \<noteq> F_NaN \<Longrightarrow> \<not> fle x y \<longleftrightarrow> flt y x"
  by (cases x; cases y) (auto simp: fle_def)

lemma fle_not_NaN: "fle x y \<Longrightarrow> x \<noteq> F_NaN \<and> y \<noteq> F_NaN"
  by (cases x; cases y) (auto simp: fle_def)

lemma flt_not_NaN: "flt x y \<Longrightarrow> x \<noteq> F_NaN \<and> y \<noteq> F_NaN"
  by (cases x; cases y) auto

lemma finite_not_NaN [simp]: "is_finite x \<Longrightarrow> x \<noteq> F_NaN"
  by auto

lemma is_finite_fmin [simp]: "is_finite x \<Longrightarrow> is_finite y \<Longrightarrow> is_finite (fmin x y)"
  by (simp add: fmin_def)

lemma is_finite_fmax [simp]: "is_finite x \<Longrightarrow> is_finite y \<Longrightarrow> is_finite (fmax x y)"
  by (simp add: fmax_def)

lemma fval_fmin [simp]: "is_finite x \<Longrightarrow> is_finite y \<Longrightarrow> fval (fmin x y) = min (fval x) (fval y)"
  by (auto simp: fmin_def)

lemma fval_fmax [simp]: "is_finite x \<Longrightarrow> is_finite y \<Longrightarrow> fval (fmax x y) = max (fval x) (fval y)"
  by (auto simp: fmax_def)

section \<open>Formats and rounding\<close>

text \<open>
  A format has a precision, the exponent of its least positive value, and the exponent at
  which it overflows.  \<open>ilog2 q\<close> is the exponent of the leading bit of \<open>q\<close>.
\<close>

record fmt =
  prec :: nat
  min_exp :: int
  max_exp :: int

definition binary64 :: fmt where
  "binary64 = \<lparr>prec = 53, min_exp = - 1074, max_exp = 1024\<rparr>"

definition binary32 :: fmt where
  "binary32 = \<lparr>prec = 24, min_exp = - 149, max_exp = 128\<rparr>"

definition x87_extended :: fmt where
  "x87_extended = \<lparr>prec = 64, min_exp = - 16445, max_exp = 16384\<rparr>"

definition pow2 :: "int \<Rightarrow> rat" where
  "pow2 k = (if 0 \<le> k then of_int (2 ^ nat k) else Fract 1 (2 ^ nat (- k)))"

lemma pow2_powi [simp]: "pow2 k = 2 powi k"
  by (simp add: pow2_def power_int_def Fract_of_int_quotient inverse_eq_divide power_one_over)

definition ilog2 :: "rat \<Rightarrow> int" where
  "ilog2 q = (let (a, b) = quotient_of q; k = bitlen a - bitlen b
     in if pow2 k \<le> q then k else k - 1)"

definition rne :: "rat \<Rightarrow> int" where
  "rne q = (let f = \<lfloor>q\<rfloor>; d = q - of_int f
     in if d < 1/2 then f else if 1/2 < d then f + 1 else if even f then f else f + 1)"

definition ulp_exp :: "fmt \<Rightarrow> rat \<Rightarrow> int" where
  "ulp_exp F q = max (min_exp F) (ilog2 \<bar>q\<bar> - int (prec F) + 1)"

definition round_rat :: "fmt \<Rightarrow> rat \<Rightarrow> rat" where
  "round_rat F q = (if q = 0 then 0
     else let p = pow2 (ulp_exp F q) in of_int (rne (q / p)) * p)"

definition fround :: "fmt \<Rightarrow> bool \<Rightarrow> rat \<Rightarrow> fl" where
  \<comment> \<open>\<open>neg\<close> is the sign of a zero result\<close>
  "fround F neg q = (let r = round_rat F q in
     if r = 0 then (if neg then F_NegZero else F_Fin 0)
     else if max_exp F \<le> ilog2 \<bar>r\<bar> then (if r < 0 then F_NegInf else F_PosInf)
     else F_Fin r)"

text \<open>
  Evaluation by rewriting keeps rational expressions symbolic unless their numerator and
  denominator are asked for; the code equations below ask for them after every rounding.
\<close>

definition rat_nf :: "rat \<Rightarrow> rat" where
  "rat_nf q = (case quotient_of q of (a, b) \<Rightarrow> Fract a b)"

lemma rat_nf [simp]: "rat_nf q = q"
  by (cases "quotient_of q") (simp add: rat_nf_def Fract_of_int_quotient flip: quotient_of_div)

lemma fround_code [code]:
  "fround F neg q = (let r = rat_nf (round_rat F q) in
     if r = 0 then (if neg then F_NegZero else F_Fin 0)
     else if max_exp F \<le> ilog2 \<bar>r\<bar> then (if r < 0 then F_NegInf else F_PosInf)
     else F_Fin r)"
  by (simp add: fround_def)

definition repr :: "fmt \<Rightarrow> rat \<Rightarrow> bool" where
  "repr F q \<longleftrightarrow> (\<exists>m e. q = of_int m * 2 powi e \<and> \<bar>m\<bar> < 2 ^ prec F \<and> min_exp F \<le> e)"

fun fneg :: "fl \<Rightarrow> fl" where
  "fneg F_NaN = F_NaN"
| "fneg F_PosInf = F_NegInf"
| "fneg F_NegInf = F_PosInf"
| "fneg F_NegZero = F_Fin 0"
| "fneg (F_Fin q) = (if q = 0 then F_NegZero else F_Fin (- q))"

fun fsign :: "fl \<Rightarrow> bool" where
  "fsign F_NaN = False"
| "fsign F_PosInf = False"
| "fsign F_NegInf = True"
| "fsign F_NegZero = True"
| "fsign (F_Fin q) = (q < 0)"

lemma fneg_code [code]:
  "fneg F_NaN = F_NaN" "fneg F_PosInf = F_NegInf" "fneg F_NegInf = F_PosInf"
  "fneg F_NegZero = F_Fin 0" "fneg (F_Fin q) = (if q = 0 then F_NegZero else F_Fin (rat_nf (- q)))"
  by simp_all

definition fabs :: "fl \<Rightarrow> fl" where
  "fabs x = (if fsign x then fneg x else x)"

definition finf :: "bool \<Rightarrow> fl" where
  "finf neg = (if neg then F_NegInf else F_PosInf)"

fun fadd :: "fmt \<Rightarrow> fl \<Rightarrow> fl \<Rightarrow> fl" where
  "fadd F F_NaN y = F_NaN"
| "fadd F x F_NaN = F_NaN"
| "fadd F F_PosInf y = (if y = F_NegInf then F_NaN else F_PosInf)"
| "fadd F F_NegInf y = (if y = F_PosInf then F_NaN else F_NegInf)"
| "fadd F x F_PosInf = F_PosInf"
| "fadd F x F_NegInf = F_NegInf"
| "fadd F F_NegZero F_NegZero = F_NegZero"
| "fadd F x y = fround F (fval x + fval y < 0) (fval x + fval y)"

definition fsub :: "fmt \<Rightarrow> fl \<Rightarrow> fl \<Rightarrow> fl" where
  "fsub F x y = fadd F x (fneg y)"

definition fmul :: "fmt \<Rightarrow> fl \<Rightarrow> fl \<Rightarrow> fl" where
  "fmul F x y =
     (if x = F_NaN \<or> y = F_NaN then F_NaN
      else if is_finite x \<and> is_finite y
        then fround F (fsign x \<noteq> fsign y) (fval x * fval y)
      else if (is_finite x \<and> fval x = 0) \<or> (is_finite y \<and> fval y = 0) then F_NaN
      else finf (fsign x \<noteq> fsign y))"

definition fdiv :: "fmt \<Rightarrow> fl \<Rightarrow> fl \<Rightarrow> fl" where
  "fdiv F x y =
     (if x = F_NaN \<or> y = F_NaN then F_NaN
      else if is_finite x \<and> is_finite y
        then (if fval y = 0 then (if fval x = 0 then F_NaN else finf (fsign x \<noteq> fsign y))
              else fround F (fsign x \<noteq> fsign y) (fval x / fval y))
      else if is_finite x then (if fsign x \<noteq> fsign y then F_NegZero else F_Fin 0)
      else if is_finite y then finf (fsign x \<noteq> fsign y)
      else F_NaN)"

fun ffloor :: "fl \<Rightarrow> fl" where
  "ffloor (F_Fin q) = F_Fin (of_int \<lfloor>q\<rfloor>)"
| "ffloor x = x"

definition fof_int :: "fmt \<Rightarrow> int \<Rightarrow> fl" where
  "fof_int F n = fround F False (of_int n)"

abbreviation dadd :: "fl \<Rightarrow> fl \<Rightarrow> fl" where "dadd \<equiv> fadd binary64"
abbreviation dsub :: "fl \<Rightarrow> fl \<Rightarrow> fl" where "dsub \<equiv> fsub binary64"
abbreviation dmul :: "fl \<Rightarrow> fl \<Rightarrow> fl" where "dmul \<equiv> fmul binary64"
abbreviation ddiv :: "fl \<Rightarrow> fl \<Rightarrow> fl" where "ddiv \<equiv> fdiv binary64"
abbreviation dhalf :: fl where "dhalf \<equiv> F_Fin (1/2)"

definition is_double :: "fl \<Rightarrow> bool" where
  "is_double x \<longleftrightarrow> (is_finite x \<longrightarrow> repr binary64 (fval x) \<and> \<bar>fval x\<bar> < 2 powi 1024)"


section \<open>The exponent of the leading bit\<close>

lemma powi2_pos [simp]: "0 < (2::rat) powi k"
  by (rule zero_less_power_int) simp

lemma powi2_not_le_0 [simp]: "\<not> (2::rat) powi k \<le> 0"
  by (simp add: not_le)

lemma powi2_nonzero [simp]: "(2::rat) powi k \<noteq> 0"
  using powi2_pos [of k] by linarith

lemma powi2_add: "(2::rat) powi (i + j) = 2 powi i * 2 powi j"
  by (simp add: power_int_add)

lemma powi2_diff: "(2::rat) powi (i - j) = 2 powi i / 2 powi j"
  by (simp add: power_int_diff)

lemma powi2_le_iff [simp]: "(2::rat) powi i \<le> 2 powi j \<longleftrightarrow> i \<le> j"
  using power_int_increasing [of i j "2::rat"] power_int_strict_increasing [of j i "2::rat"]
  by (cases "i \<le> j") auto

lemma powi2_less_iff [simp]: "(2::rat) powi i < 2 powi j \<longleftrightarrow> i < j"
  by (simp flip: not_le)

lemma powi2_nat: "0 \<le> k \<Longrightarrow> (2::rat) powi k = of_int (2 ^ nat k)"
  by (simp add: power_int_def)

lemma bitlen_powi:
  assumes "0 < (a::int)"
  shows "2 powi (bitlen a - 1) \<le> (of_int a :: rat)" and "(of_int a :: rat) < 2 powi bitlen a"
proof -
  have b: "0 < bitlen a" using assms bitlen_eq_zero_iff [of a] bitlen_nonneg [of a] by linarith
  then have "2 ^ nat (bitlen a - 1) \<le> a \<and> a < 2 ^ nat (bitlen a)"
    using bitlen_bounds [OF assms] by simp
  moreover have "(2::rat) powi (bitlen a - 1) = of_int (2 ^ nat (bitlen a - 1))"
    and "(2::rat) powi bitlen a = of_int (2 ^ nat (bitlen a))"
    using b by (simp_all only: powi2_nat)
  ultimately show "2 powi (bitlen a - 1) \<le> (of_int a :: rat)"
    and "(of_int a :: rat) < 2 powi bitlen a" by (simp_all only: of_int_le_iff of_int_less_iff)
qed

lemma ilog2_bounds:
  assumes "0 < q"
  shows "2 powi ilog2 q \<le> q" and "q < 2 powi (ilog2 q + 1)"
proof -
  obtain a b where ab: "quotient_of q = (a, b)" by (cases "quotient_of q")
  have b: "0 < b" and q: "q = of_int a / of_int b"
    using quotient_of_denom_pos [OF ab] quotient_of_div [OF ab] by simp_all
  have a: "0 < a" using assms b unfolding q by (simp add: zero_less_divide_iff)
  let ?k = "bitlen a - bitlen b"
  have "q < 2 powi bitlen a / 2 powi (bitlen b - 1)"
    unfolding q using bitlen_powi [OF a] bitlen_powi [OF b] a b
    by (intro frac_less) auto
  then have up: "q < 2 powi (?k + 1)" by (simp add: powi2_diff powi2_add)
  have "2 powi (bitlen a - 1) / 2 powi bitlen b \<le> q"
    unfolding q using bitlen_powi [OF a] bitlen_powi [OF b] b a
    by (intro frac_le) auto
  then have low: "2 powi (?k - 1) \<le> q" by (simp add: powi2_diff)
  show "2 powi ilog2 q \<le> q" and "q < 2 powi (ilog2 q + 1)"
    using up low by (auto simp: ilog2_def ab Let_def)
qed

lemma ilog2_unique:
  assumes "2 powi k \<le> q" "q < 2 powi (k + 1)"
  shows "ilog2 q = k"
proof -
  have "0 < q" using assms(1) powi2_pos [of k] by linarith
  note b = ilog2_bounds [OF this]
  have "2 powi ilog2 q < (2::rat) powi (k + 1)" "2 powi k < (2::rat) powi (ilog2 q + 1)"
    using b assms by linarith+
  then show ?thesis by simp
qed

lemma ilog2_mono: "0 < q \<Longrightarrow> q \<le> r \<Longrightarrow> ilog2 q \<le> ilog2 r"
proof -
  assume "0 < q" "q \<le> r"
  then have "2 powi ilog2 q < (2::rat) powi (ilog2 r + 1)"
    using ilog2_bounds(1) [of q] ilog2_bounds(2) [of r] by linarith
  then show ?thesis by simp
qed

lemma ilog2_ge_iff: "0 < q \<Longrightarrow> k \<le> ilog2 q \<longleftrightarrow> 2 powi k \<le> q"
proof
  assume "0 < q" "k \<le> ilog2 q"
  then show "2 powi k \<le> q" using ilog2_bounds(1) [of q] powi2_le_iff [of k "ilog2 q"] by linarith
next
  assume "0 < q" "2 powi k \<le> q"
  then have "(2::rat) powi k < 2 powi (ilog2 q + 1)" using ilog2_bounds(2) [of q] by linarith
  then show "k \<le> ilog2 q" by simp
qed

section \<open>Rounding to nearest, ties to even\<close>

lemma rne_of_int [simp]: "rne (of_int n) = n"
  by (simp add: rne_def)

lemma rne_near: "of_int (rne q) \<le> q + 1/2" "q - 1/2 \<le> of_int (rne q)"
proof -
  have f: "of_int \<lfloor>q\<rfloor> \<le> q" "q < of_int \<lfloor>q\<rfloor> + 1" by linarith+
  show "of_int (rne q) \<le> q + 1/2"
    unfolding rne_def Let_def using f by (simp split: if_splits) linarith
  show "q - 1/2 \<le> of_int (rne q)"
    unfolding rne_def Let_def using f by (simp split: if_splits)
qed

lemma rne_floor: "\<lfloor>q\<rfloor> \<le> rne q" "rne q \<le> \<lfloor>q\<rfloor> + 1"
  by (auto simp: rne_def Let_def)

lemma rne_mono: "q \<le> r \<Longrightarrow> rne q \<le> rne r"
proof -
  assume le: "q \<le> r"
  show ?thesis
  proof (cases "\<lfloor>q\<rfloor> = \<lfloor>r\<rfloor>")
    case True
    with le show ?thesis by (auto simp: rne_def Let_def)
  next
    case False
    then have "\<lfloor>q\<rfloor> + 1 \<le> \<lfloor>r\<rfloor>" using floor_mono [OF le] by linarith
    then show ?thesis using rne_floor(2) [of q] rne_floor(1) [of r] by linarith
  qed
qed

lemma rne_minus: "rne (- q) = - rne q"
proof (cases "q = of_int \<lfloor>q\<rfloor>")
  case True
  then show ?thesis by (metis of_int_minus rne_of_int)
next
  case False
  then have "of_int \<lfloor>q\<rfloor> < q" using of_int_floor_le [of q] by linarith
  then have f: "\<lfloor>- q\<rfloor> = - \<lfloor>q\<rfloor> - 1"
    by (intro floor_unique) (simp_all, linarith)
  have d: "- q - of_int (- \<lfloor>q\<rfloor> - 1) = 1 - (q - of_int \<lfloor>q\<rfloor>)" by simp
  show ?thesis unfolding rne_def Let_def f d by auto
qed

definition round_at :: "int \<Rightarrow> rat \<Rightarrow> rat" where
  "round_at e q = of_int (rne (q / 2 powi e)) * 2 powi e"

lemma round_rat_round_at: "round_rat F q = (if q = 0 then 0 else round_at (ulp_exp F q) q)"
  by (simp add: round_rat_def round_at_def Let_def)

lemma round_at_mono: "q \<le> r \<Longrightarrow> round_at e q \<le> round_at e r"
  unfolding round_at_def by (intro mult_right_mono) (auto simp: rne_mono divide_right_mono)

lemma round_at_multiple:
  assumes "e \<le> k"
  shows "round_at e (of_int m * 2 powi k) = of_int m * 2 powi k"
proof -
  have "(2::rat) powi k / 2 powi e = of_int (2 ^ nat (k - e))"
    using assms powi2_nat [of "k - e"] by (simp add: powi2_diff)
  then have *: "of_int m * 2 powi k / 2 powi e = (of_int (m * 2 ^ nat (k - e)) :: rat)"
    by (metis of_int_mult times_divide_eq_right)
  have "round_at e (of_int m * 2 powi k) = of_int m * 2 powi k / 2 powi e * 2 powi e"
    unfolding round_at_def * by (simp only: rne_of_int)
  then show ?thesis by simp
qed

lemma round_at_powi: "e \<le> k \<Longrightarrow> round_at e (2 powi k) = 2 powi k"
  using round_at_multiple [of e k 1] by simp

lemma round_at_minus: "round_at e (- q) = - round_at e q"
  by (simp add: round_at_def rne_minus)

lemma ulp_exp_minus [simp]: "ulp_exp F (- q) = ulp_exp F q"
  by (simp add: ulp_exp_def)

lemma round_rat_minus: "round_rat F (- q) = - round_rat F q"
  by (simp add: round_rat_round_at round_at_minus)

lemma round_rat_0 [simp]: "round_rat F 0 = 0"
  by (simp add: round_rat_def)

lemma round_rat_nonneg: "0 \<le> q \<Longrightarrow> 0 \<le> round_rat F q"
  using round_at_mono [of 0 q] by (simp add: round_rat_round_at round_at_def rne_of_int [of 0, simplified])

lemma round_rat_mono_pos:
  assumes "0 < q" "q \<le> r" "0 < prec F"
  shows "round_rat F q \<le> round_rat F r"
proof (cases "ulp_exp F q = ulp_exp F r")
  case True
  with assms show ?thesis by (simp add: round_rat_round_at round_at_mono)
next
  case False
  let ?k = "ilog2 r"
  have le: "ilog2 q \<le> ?k" using assms by (intro ilog2_mono) auto
  with False have k: "ilog2 q < ?k" "ulp_exp F r = ?k - int (prec F) + 1" "ulp_exp F q < ulp_exp F r"
    using assms by (auto simp: ulp_exp_def max_def split: if_splits)
  have "q \<le> 2 powi ?k"
    using ilog2_bounds(2) [OF assms(1)] k(1)
    by (meson add1_zle_eq less_imp_le order_trans powi2_le_iff)
  then have "round_at (ulp_exp F q) q \<le> 2 powi ?k"
    using round_at_mono [of q "2 powi ?k" "ulp_exp F q"] round_at_powi [of "ulp_exp F q" ?k] k assms(3)
    by simp
  also have "\<dots> \<le> round_at (ulp_exp F r) r"
    using round_at_mono [of "2 powi ?k" r "ulp_exp F r"] round_at_powi [of "ulp_exp F r" ?k] k assms
      ilog2_bounds(1) [of r] by simp
  finally show ?thesis using assms by (simp add: round_rat_round_at)
qed

lemma round_rat_mono:
  assumes "q \<le> r" "0 < prec F"
  shows "round_rat F q \<le> round_rat F r"
proof -
  consider "0 < q" | "q \<le> 0" "0 \<le> r" | "r < 0" by linarith
  then show ?thesis
  proof cases
    case 1
    with assms show ?thesis by (rule_tac round_rat_mono_pos)
  next
    case 2
    then have "round_rat F q \<le> 0" using round_rat_nonneg [of "- q" F] by (simp add: round_rat_minus)
    with 2 round_rat_nonneg [of r F] show ?thesis by linarith
  next
    case 3
    with assms have "round_rat F (- r) \<le> round_rat F (- q)" by (intro round_rat_mono_pos) auto
    then show ?thesis by (simp add: round_rat_minus)
  qed
qed

lemma round_rat_repr:
  assumes "repr F q"
  shows "round_rat F q = q"
proof (cases "q = 0")
  case True
  then show ?thesis by simp
next
  case False
  from assms obtain m k where q: "q = of_int m * 2 powi k" and m: "\<bar>m\<bar> < 2 ^ prec F"
    and k: "min_exp F \<le> k" by (auto simp: repr_def)
  have "\<bar>q\<bar> = of_int \<bar>m\<bar> * 2 powi k" by (simp add: q abs_mult)
  also have "\<dots> < 2 ^ prec F * 2 powi k"
    using m by (intro mult_strict_right_mono) (metis of_int_less_iff of_int_numeral of_int_power, simp)
  also have "\<dots> = 2 powi (int (prec F) + k)" by (simp add: powi2_add)
  finally have "2 powi ilog2 \<bar>q\<bar> < (2::rat) powi (int (prec F) + k)"
    using ilog2_bounds(1) [of "\<bar>q\<bar>"] False by (metis le_less_trans zero_less_abs_iff)
  then have "ulp_exp F q \<le> k" using k by (simp add: ulp_exp_def)
  then show ?thesis using False round_at_multiple [of "ulp_exp F q" k m]
    by (simp add: round_rat_round_at q)
qed

lemma repr_of_int: "\<bar>n\<bar> < 2 ^ prec F \<Longrightarrow> min_exp F \<le> 0 \<Longrightarrow> repr F (of_int n)"
  unfolding repr_def by (rule exI [of _ n], rule exI [of _ 0]) simp

lemma repr_minus: "repr F q \<Longrightarrow> repr F (- q)"
  unfolding repr_def by (metis abs_minus mult_minus_left of_int_minus)

section \<open>The rounded operations\<close>

lemma fround_alt:
  "fround F neg q = (let r = round_rat F q in
     if 2 powi max_exp F \<le> r then F_PosInf
     else if r \<le> - (2 powi max_exp F) then F_NegInf
     else if r = 0 \<and> neg then F_NegZero
     else F_Fin r)"
proof -
  have p: "0 < (2::rat) powi max_exp F" by simp
  define r where "r = round_rat F q"
  have "max_exp F \<le> ilog2 \<bar>r\<bar> \<longleftrightarrow> 2 powi max_exp F \<le> r \<or> r \<le> - (2 powi max_exp F)" if "r \<noteq> 0"
  proof -
    have "max_exp F \<le> ilog2 \<bar>r\<bar> \<longleftrightarrow> 2 powi max_exp F \<le> \<bar>r\<bar>"
      using that by (intro ilog2_ge_iff) simp
    then show ?thesis by linarith
  qed
  note big = this
  consider "r = 0" | "r < 0" "\<not> 2 powi max_exp F \<le> r" | "0 < r" "\<not> r \<le> - (2 powi max_exp F)"
    using p by linarith
  then show ?thesis
    using p big unfolding fround_def Let_def r_def [symmetric] by cases simp_all
qed

lemma fround_exact:
  assumes "repr F q" "\<bar>q\<bar> < 2 powi max_exp F"
  shows "fround F neg q = (if q = 0 \<and> neg then F_NegZero else F_Fin q)"
  using assms by (auto simp: fround_alt Let_def round_rat_repr)

lemma fround_not_NaN [simp]: "fround F neg q \<noteq> F_NaN"
  by (simp add: fround_alt Let_def)

lemma is_finite_fround: "is_finite (fround F neg q) \<longleftrightarrow> \<bar>round_rat F q\<bar> < 2 powi max_exp F"
proof -
  have p: "0 < (2::rat) powi max_exp F" by simp
  define r where "r = round_rat F q"
  consider "2 powi max_exp F \<le> r" | "r \<le> - (2 powi max_exp F)" | "\<bar>r\<bar> < 2 powi max_exp F"
    by linarith
  then show ?thesis
    using p unfolding fround_alt Let_def r_def [symmetric] by cases auto
qed

lemma fval_fround: "is_finite (fround F neg q) \<Longrightarrow> fval (fround F neg q) = round_rat F q"
  by (auto simp: fround_alt Let_def split: if_splits)

lemma fround_mono:
  assumes "q \<le> r" "0 < prec F"
  shows "fle (fround F s q) (fround F t r)"
proof -
  have m: "round_rat F q \<le> round_rat F r" using assms by (rule round_rat_mono)
  have p: "0 < (2::rat) powi max_exp F" by simp
  show ?thesis
    using m p unfolding fround_alt Let_def fle_def by (simp split: if_splits) linarith
qed

lemma binary64_simps [simp]:
  "prec binary64 = 53" "min_exp binary64 = - 1074" "max_exp binary64 = 1024"
  by (simp_all add: binary64_def)

lemma repr64_of_int: "\<bar>n\<bar> < 2 ^ 53 \<Longrightarrow> repr binary64 (of_int n)"
  by (rule repr_of_int) simp_all

lemma two53_less: "(9007199254740992::rat) < 2 powi 1024"
proof -
  have "(2::rat) powi 53 < 2 powi 1024" by (simp only: powi2_less_iff)
  moreover have "(2::rat) powi 53 = 9007199254740992" by simp
  ultimately show ?thesis by linarith
qed

text \<open>Integers below \<open>2 ^ 53\<close> are doubles, and arithmetic on them does not round.\<close>

definition small_int :: "fl \<Rightarrow> bool" where
  "small_int x \<longleftrightarrow> (\<exists>n. x = F_Fin (of_int n) \<and> \<bar>n\<bar> < 2 ^ 52)"

lemma fround_int:
  assumes "\<bar>n\<bar> < 2 ^ 53"
  shows "fround binary64 neg (of_int n) = (if n = 0 \<and> neg then F_NegZero else F_Fin (of_int n))"
proof -
  have "\<bar>of_int n :: rat\<bar> < 9007199254740992"
    using assms by (simp flip: of_int_abs)
  then have "\<bar>of_int n :: rat\<bar> < 2 powi max_exp binary64"
    using two53_less by (simp only: binary64_simps)
  with repr64_of_int [OF assms] show ?thesis by (subst fround_exact) auto
qed

lemma is_finite_small [simp]: "small_int x \<Longrightarrow> is_finite x"
  by (auto simp: small_int_def)

lemma fneg_fin_val [simp]: "is_finite x \<Longrightarrow> fval (fneg x) = - fval x"
  by (cases x) auto

lemma is_finite_fneg [simp]: "is_finite (fneg x) \<longleftrightarrow> is_finite x"
  by (cases x) auto

lemma fadd_fin:
  "is_finite x \<Longrightarrow> is_finite y \<Longrightarrow> fadd F x y =
     (if x = F_NegZero \<and> y = F_NegZero then F_NegZero
      else fround F (fval x + fval y < 0) (fval x + fval y))"
  by (cases x; cases y) auto

lemma fadd_mono:
  assumes "is_finite x" "is_finite y" "is_finite z" "fle x y" "0 < prec F"
  shows "fle (fadd F x z) (fadd F y z)"
proof -
  have r0: "fround F n 0 = (if n then F_NegZero else F_Fin 0)" for n
    by (simp add: fround_alt Let_def)
  have le: "fval x + fval z \<le> fval y + fval z" using assms by simp
  have m: "fle (fround F s (fval x + fval z)) (fround F t (fval y + fval z))" for s t
    using le assms(5) by (rule fround_mono)
  have nz: "fle F_NegZero w" if "fle (fround F False 0) w" for w
    using that by (cases w) (auto simp: r0 fle_def)
  have nz': "fle w F_NegZero" if "fle w (fround F False 0)" for w
    using that by (cases w) (auto simp: r0 fle_def)
  show ?thesis
    using assms m [of False False] m by (auto simp: fadd_fin fle_def[of F_NegZero F_NegZero]
      intro!: nz nz')
qed

section \<open>Rounding errors\<close>

lemma round_at_near: "\<bar>round_at e q - q\<bar> \<le> 2 powi e / 2"
proof -
  have "\<bar>of_int (rne (q / 2 powi e)) - q / 2 powi e\<bar> \<le> 1 / 2"
    using rne_near [of "q / 2 powi e"] by linarith
  then have "\<bar>of_int (rne (q / 2 powi e)) - q / 2 powi e\<bar> * 2 powi e \<le> 1 / 2 * 2 powi e"
    by (rule mult_right_mono) simp
  moreover have "\<bar>of_int (rne (q / 2 powi e)) - q / 2 powi e\<bar> * 2 powi e = \<bar>round_at e q - q\<bar>"
    unfolding round_at_def by (simp add: abs_mult_pos left_diff_distrib)
  ultimately show ?thesis by simp
qed

lemma round_rat_near: "\<bar>round_rat F q - q\<bar> \<le> 2 powi ulp_exp F q / 2"
  using round_at_near [of "ulp_exp F q" q] by (simp add: round_rat_round_at)

lemma round_rat_relative: "\<bar>round_rat F q - q\<bar> \<le> \<bar>q\<bar> * 2 powi (- int (prec F)) + 2 powi min_exp F / 2"
proof (cases "q = 0")
  case False
  let ?k = "ilog2 \<bar>q\<bar> - int (prec F)"
  have "2 powi ?k \<le> \<bar>q\<bar> * 2 powi (- int (prec F))"
    using ilog2_bounds(1) [of "\<bar>q\<bar>"] False powi2_add [of "ilog2 \<bar>q\<bar>" "- int (prec F)"]
    by (simp add: mult_right_mono)
  moreover have "2 powi (?k + 1) = 2 * (2 :: rat) powi ?k" by (simp add: powi2_add)
  moreover have "2 powi ulp_exp F q \<le> 2 powi (?k + 1) + (2 :: rat) powi min_exp F"
    using powi2_pos [of "?k + 1"] powi2_pos [of "min_exp F"] unfolding ulp_exp_def max_def
    by (auto simp del: powi2_pos)
  ultimately show ?thesis using round_rat_near [of F q] by simp
qed simp

lemma round_rat_bounded:
  assumes "\<bar>q\<bar> \<le> b" "repr F b" "0 < prec F"
  shows "\<bar>round_rat F q\<bar> \<le> b"
  using round_rat_mono [of q b F] round_rat_mono [of "- b" q F] assms
  by (simp add: round_rat_repr round_rat_minus abs_le_iff)

end
