(* ===== verification/Containers.thy ===== *)
theory Containers
  imports Prelude
begin

text \<open>
  The standard containers and algorithms the program relies on.  \<^verbatim>\<open>std::map\<close> is an
  association list in key order, with the law of its insertion stated as a locale
  and interpreted on the list; \<^verbatim>\<open>std::sort\<close> is an insertion sort over a comparator
  whose strict-weak-order contract is the locale \<open>comparator\<close>, interpreted in the
  theories that declare the program's comparators; \<^verbatim>\<open>std::lower_bound\<close> is the
  partition point of the sorted range.
\<close>

section \<open>Association in key order: std::map\<close>

fun emplace :: "'k::linorder \<Rightarrow> 'v \<Rightarrow> ('k \<times> 'v) list \<Rightarrow> ('k \<times> 'v) list" where
  "emplace k v [] = [(k, v)]"
| "emplace k v ((k', v') # m) =
     (if k < k' then (k, v) # (k', v') # m
      else if k = k' then (k', v') # m
      else (k', v') # emplace k v m)"

fun upsert :: "'k::linorder \<Rightarrow> ('v option \<Rightarrow> 'v) \<Rightarrow> ('k \<times> 'v) list \<Rightarrow> ('k \<times> 'v) list" where
  "upsert k f [] = [(k, f None)]"
| "upsert k f ((k', v') # m) =
     (if k < k' then (k, f None) # (k', v') # m
      else if k = k' then (k', f (Some v')) # m
      else (k', v') # upsert k f m)"

definition key_sorted :: "('k::linorder \<times> 'v) list \<Rightarrow> bool" where
  "key_sorted m \<longleftrightarrow> sorted_wrt (<) (map fst m)"

lemma key_sorted_Nil [simp]: "key_sorted []"
  by (simp add: key_sorted_def)

lemma key_sorted_Cons [simp]:
  "key_sorted ((k, v) # m) \<longleftrightarrow> (\<forall>k' \<in> fst ` set m. k < k') \<and> key_sorted m"
  by (auto simp: key_sorted_def)

lemma key_sorted_distinct: "key_sorted m \<Longrightarrow> distinct (map fst m)"
  unfolding key_sorted_def by (simp add: strict_sorted_iff)

lemma set_emplace_fst [simp]: "fst ` set (emplace k v m) = insert k (fst ` set m)"
  by (induction k v m rule: emplace.induct) auto

lemma set_upsert_fst [simp]: "fst ` set (upsert k f m) = insert k (fst ` set m)"
  by (induction k f m rule: upsert.induct) auto

lemma key_sorted_emplace [simp]: "key_sorted m \<Longrightarrow> key_sorted (emplace k v m)"
  by (induction k v m rule: emplace.induct) (auto simp: not_less)

lemma key_sorted_upsert [simp]: "key_sorted m \<Longrightarrow> key_sorted (upsert k f m)"
  by (induction k f m rule: upsert.induct) (auto simp: not_less)

lemma map_of_less_None: "key_sorted m \<Longrightarrow> \<forall>k' \<in> fst ` set m. k < k' \<Longrightarrow> map_of m k = None"
  by (metis less_irrefl map_of_eq_None_iff)

lemma map_of_emplace:
  "key_sorted m \<Longrightarrow> map_of (emplace k v m) =
     (case map_of m k of None \<Rightarrow> (map_of m)(k \<mapsto> v) | Some _ \<Rightarrow> map_of m)"
proof (induction m)
  case Nil
  then show ?case by simp
next
  case (Cons p m)
  obtain k' v' where p: "p = (k', v')" by (cases p)
  consider "k < k'" | "k = k'" | "k' < k" by fastforce
  then show ?case
  proof cases
    case 1
    then have "map_of (p # m) k = None"
      using Cons.prems p map_of_less_None [of "p # m" k] by force
    with 1 p show ?thesis by (auto simp: fun_upd_twist)
  next
    case 2
    with p show ?thesis by auto
  next
    case 3
    with Cons p show ?thesis by (auto simp: fun_upd_twist split: option.splits)
  qed
qed

lemma map_of_upsert:
  "key_sorted m \<Longrightarrow> map_of (upsert k f m) = (map_of m)(k \<mapsto> f (map_of m k))"
proof (induction m)
  case Nil
  then show ?case by simp
next
  case (Cons p m)
  obtain k' v' where p: "p = (k', v')" by (cases p)
  consider "k < k'" | "k = k'" | "k' < k" by fastforce
  then show ?case
  proof cases
    case 1
    then have "map_of (p # m) k = None"
      using Cons.prems p map_of_less_None [of "p # m" k] by force
    with 1 p show ?thesis by (auto simp: fun_upd_twist)
  next
    case 2
    with p show ?thesis by auto
  next
    case 3
    with Cons p show ?thesis by (auto simp: fun_upd_twist)
  qed
qed

text \<open>What a client of \<^verbatim>\<open>std::map\<close> may rely on, and the list as a provider.\<close>

locale ordered_map =
  fixes empty :: "'m"
    and put_new :: "'k \<Rightarrow> 'v \<Rightarrow> 'm \<Rightarrow> 'm"
    and lookup :: "'m \<Rightarrow> 'k \<Rightarrow> 'v option"
    and invar :: "'m \<Rightarrow> bool"
  assumes invar_empty: "invar empty"
    and lookup_empty: "lookup empty k = None"
    and invar_put_new: "invar m \<Longrightarrow> invar (put_new k v m)"
    and lookup_put_new: "invar m \<Longrightarrow> lookup (put_new k v m) =
          (case lookup m k of None \<Rightarrow> (lookup m)(k \<mapsto> v) | Some _ \<Rightarrow> lookup m)"
begin

lemma lookup_put_same: "invar m \<Longrightarrow> lookup m k = None \<Longrightarrow> lookup (put_new k v m) k = Some v"
  by (simp add: lookup_put_new)

lemma lookup_put_keeps: "invar m \<Longrightarrow> lookup m k = Some w \<Longrightarrow> lookup (put_new k v m) = lookup m"
  by (simp add: lookup_put_new)

lemma fold_put_new_invar: "invar m \<Longrightarrow> invar (fold (\<lambda>(k, v). put_new k v) kvs m)"
  by (induction kvs arbitrary: m) (auto simp: invar_put_new)

lemma fold_put_new_lookup:
  "invar m \<Longrightarrow> lookup (fold (\<lambda>(k, v). put_new k v) kvs m) = map_of kvs ++ lookup m"
proof (induction kvs arbitrary: m)
  case Nil
  then show ?case by simp
next
  case (Cons kv kvs)
  obtain k v where kv: "kv = (k, v)" by (cases kv)
  have "lookup (fold (\<lambda>(k, v). put_new k v) (kv # kvs) m) = map_of kvs ++ lookup (put_new k v m)"
    using Cons kv invar_put_new by simp
  also have "\<dots> = map_of (kv # kvs) ++ lookup m"
    using Cons.prems kv
    by (auto simp: lookup_put_new map_add_def fun_eq_iff split: option.splits)
  finally show ?case .
qed

end

interpretation sorted_list_map: ordered_map "[]" emplace map_of key_sorted
  by unfold_locales (auto simp: map_of_emplace)

section \<open>Sorting with a comparator: std::sort\<close>

fun insert_by :: "('a \<Rightarrow> 'a \<Rightarrow> bool) \<Rightarrow> 'a \<Rightarrow> 'a list \<Rightarrow> 'a list" where
  "insert_by lt x [] = [x]"
| "insert_by lt x (y # ys) = (if lt y x then y # insert_by lt x ys else x # y # ys)"

primrec sort_by :: "('a \<Rightarrow> 'a \<Rightarrow> bool) \<Rightarrow> 'a list \<Rightarrow> 'a list" where
  "sort_by lt [] = []"
| "sort_by lt (x # xs) = insert_by lt x (sort_by lt xs)"

definition lower_bound_index :: "('a \<Rightarrow> bool) \<Rightarrow> 'a list \<Rightarrow> nat" where
  "lower_bound_index before xs = length (takeWhile before xs)"

lemma mset_insert_by [simp]: "mset (insert_by lt x xs) = add_mset x (mset xs)"
  by (induction lt x xs rule: insert_by.induct) auto

lemma mset_sort_by [simp]: "mset (sort_by lt xs) = mset xs"
  by (induction xs) auto

lemma set_sort_by [simp]: "set (sort_by lt xs) = set xs"
  by (metis mset_sort_by set_mset_mset)

lemma set_insert_by [simp]: "set (insert_by lt x xs) = insert x (set xs)"
  by (metis list.simps(15) mset.simps(2) mset_insert_by set_mset_mset)

lemma length_sort_by [simp]: "length (sort_by lt xs) = length xs"
  by (metis mset_sort_by size_mset)

lemma distinct_sort_by [simp]: "distinct (map f (sort_by lt xs)) \<longleftrightarrow> distinct (map f xs)"
  by (metis mset_map mset_sort_by mset_eq_imp_distinct_iff)

locale comparator =
  fixes lt :: "'a \<Rightarrow> 'a \<Rightarrow> bool"
  assumes irrefl: "\<not> lt a a"
    and trans: "lt a b \<Longrightarrow> lt b c \<Longrightarrow> lt a c"
    and neg_trans: "\<not> lt a b \<Longrightarrow> \<not> lt b c \<Longrightarrow> \<not> lt a c"
begin

lemma asym: "lt a b \<Longrightarrow> \<not> lt b a"
  using irrefl trans by blast

lemma sorted_insert_by:
  "sorted_wrt (\<lambda>a b. \<not> lt b a) xs \<Longrightarrow> sorted_wrt (\<lambda>a b. \<not> lt b a) (insert_by lt x xs)"
  by (induction xs) (auto dest: asym neg_trans)

lemma sorted_sort_by: "sorted_wrt (\<lambda>a b. \<not> lt b a) (sort_by lt xs)"
  by (induction xs) (auto intro: sorted_insert_by)

lemma sort_by_sorted: "sorted_wrt (\<lambda>a b. \<not> lt b a) xs \<Longrightarrow> sort_by lt xs = xs"
proof (induction xs)
  case Nil
  then show ?case by simp
next
  case (Cons x xs)
  then show ?case by (cases xs) auto
qed

lemma sort_by_idem: "sort_by lt (sort_by lt xs) = sort_by lt xs"
  by (rule sort_by_sorted) (rule sorted_sort_by)

text \<open>
  In a sorted range, elements with the same value of a key the comparator respects lie next to
  each other, so that a search for duplicates compares neighbours only.
\<close>

lemma sorted_adjacent_distinct:
  assumes "sorted_wrt (\<lambda>a b. \<not> lt b a) xs"
    and between: "\<And>a b c. \<not> lt b a \<Longrightarrow> \<not> lt c b \<Longrightarrow> key a = key c \<Longrightarrow> key b = key a"
  shows "distinct (map key xs) \<longleftrightarrow> \<not> list_ex (\<lambda>i. key (xs ! (i - 1)) = key (xs ! i)) [1..<length xs]"
proof
  assume d: "distinct (map key xs)"
  have "key (xs ! (i - 1)) \<noteq> key (xs ! i)" if "1 \<le> i" "i < length xs" for i
    using nth_eq_iff_index_eq [OF d, of "i - 1" i] that by auto
  then show "\<not> list_ex (\<lambda>i. key (xs ! (i - 1)) = key (xs ! i)) [1..<length xs]"
    by (auto simp: list_ex_iff)
next
  assume n: "\<not> list_ex (\<lambda>i. key (xs ! (i - 1)) = key (xs ! i)) [1..<length xs]"
  have le: "\<not> lt (xs ! j) (xs ! i)" if "i \<le> j" "j < length xs" for i j
    using assms(1) that irrefl by (cases "i = j") (auto simp: sorted_wrt_iff_nth_less)
  have "key (xs ! i) \<noteq> key (xs ! j)" if "i < j" "j < length xs" for i j
  proof
    assume "key (xs ! i) = key (xs ! j)"
    then have "key (xs ! Suc i) = key (xs ! i)"
      using between [OF le [of i "Suc i"] le [of "Suc i" j]] that by simp
    moreover have "Suc i \<in> set [1..<length xs]" using that by simp
    ultimately show False using n by (force simp: list_ex_iff)
  qed
  then show "distinct (map key xs)"
    by (auto simp: distinct_conv_nth) (metis nat_neq_iff)
qed

text \<open>
  On a range sorted by the comparator, \<^verbatim>\<open>std::lower_bound\<close> finds the first element
  not before the value; everything from there on is not before it either.
\<close>

lemma lower_bound_drop:
  assumes "sorted_wrt (\<lambda>a b. \<not> lt b a) xs" and "y \<in> set (drop (lower_bound_index (\<lambda>x. lt x v) xs) xs)"
  shows "\<not> lt y v"
  using assms
proof (induction xs)
  case Nil
  then show ?case by simp
next
  case (Cons x xs)
  then show ?case
    by (cases "lt x v") (auto simp: lower_bound_index_def dest: neg_trans)
qed

text \<open>Sorting determines the list of elements the comparator tells apart.\<close>

lemma sorted_unique_on:
  assumes "sorted_wrt (\<lambda>a b. \<not> lt b a) xs" "sorted_wrt (\<lambda>a b. \<not> lt b a) ys" "mset xs = mset ys"
    "\<And>a b. a \<in> set xs \<Longrightarrow> b \<in> set xs \<Longrightarrow> \<not> lt a b \<Longrightarrow> \<not> lt b a \<Longrightarrow> a = b"
  shows "xs = ys"
  using assms
proof (induction xs arbitrary: ys)
  case Nil
  then show ?case by simp
next
  case (Cons x xs)
  then obtain y zs where ys: "ys = y # zs" by (cases ys) auto
  have m: "x \<in> set ys" "y \<in> set (x # xs)"
    using Cons.prems(3) ys by (metis list.set_intros(1) set_mset_mset)+
  have "x = y"
    using Cons.prems(1,2) ys m Cons.prems(4) [of x y] by auto
  moreover have "xs = zs" using Cons ys calculation by auto
  ultimately show ?case using ys by simp
qed

end

locale total_comparator = comparator +
  assumes total: "\<not> lt a b \<Longrightarrow> \<not> lt b a \<Longrightarrow> a = b"
begin

lemma sorted_unique:
  assumes "sorted_wrt (\<lambda>a b. \<not> lt b a) xs" "sorted_wrt (\<lambda>a b. \<not> lt b a) ys" "mset xs = mset ys"
  shows "xs = ys"
  by (rule sorted_unique_on [OF assms]) (rule total)

lemma sort_by_perm: "mset xs = mset ys \<Longrightarrow> sort_by lt xs = sort_by lt ys"
  by (rule sorted_unique) (simp_all add: sorted_sort_by)

end

text \<open>The comparators of the standard library's own orders.\<close>

interpretation less_order: total_comparator "(<) :: 'a::linorder \<Rightarrow> 'a \<Rightarrow> bool"
  by unfold_locales auto

text \<open>
  A range in key order has equal keys next to each other; the duplicate searches of the
  program compare neighbours only.
\<close>

lemma sorted_adjacent_keys:
  fixes key :: "'a \<Rightarrow> 'k::linorder"
  assumes "sorted (map key xs)"
  shows "distinct (map key xs) \<longleftrightarrow> (\<forall>i. Suc i < length xs \<longrightarrow> key (xs ! i) \<noteq> key (xs ! Suc i))"
proof
  assume "distinct (map key xs)"
  then show "\<forall>i. Suc i < length xs \<longrightarrow> key (xs ! i) \<noteq> key (xs ! Suc i)"
    by (auto simp: distinct_conv_nth)
next
  assume *: "\<forall>i. Suc i < length xs \<longrightarrow> key (xs ! i) \<noteq> key (xs ! Suc i)"
  have "sorted_wrt (<) (map key xs)"
    unfolding sorted_wrt_iff_nth_Suc_transp[OF transp_on_less]
    using assms * by (auto simp: sorted_iff_nth_Suc order.strict_iff_order)
  then show "distinct (map key xs)"
    by (simp add: strict_sorted_iff)
qed

end
