(* ===== verification/Geo_Core.thy ===== *)
theory Geo_Core
  imports Binary_Float Containers
begin

text \<open>
  The library \<^verbatim>\<open>usd-geo-core\<close>: diagnostics (\<^verbatim>\<open>Diagnostic.h\<close>), vectors and bounds
  (\<^verbatim>\<open>SpatialBounds.cpp\<close>), tile identifiers (\<^verbatim>\<open>TileId.cpp\<close>), the georeference with its
  axis conversion (\<^verbatim>\<open>GeoReference.cpp\<close>) and the stable cache key (\<^verbatim>\<open>CacheKey.cpp\<close>).
  Out-parameters are returned: \<^verbatim>\<open>bool f(..., T& out)\<close> becomes a function from the old
  value of \<^verbatim>\<open>out\<close> to the result and its new value.
\<close>

section \<open>Diagnostics\<close>

datatype Severity = Warning | Error

datatype DiagnosticCode =
    InvalidSignature | UnsupportedVersion | UnsupportedPointFormat | TruncatedHeader
  | InvalidOffset | InvalidRecordLength | TruncatedRecord | InvalidCrs | ConflictingCrs
  | UnsupportedExtraBytesType | MissingWaveformData | NonFiniteCoordinate
  | NonFiniteExtraBytes | DecodeFailure | SourceOpenFailed | SourceSizeUnavailable
  | UnknownFormatArgument | UnsupportedFormatArgument | InvalidFormatArgument
  | ConflictingFormatArguments | InvalidPointTileId | InvalidPointSourceRange
  | InvalidLodItem | InvalidLodHierarchy | InvalidPointTile | SpoolWorkspaceFailed
  | SpoolWriteFailed | SpoolIncomplete | OpenFileBudgetExhausted | PayloadCommitFailed

fun IsWorkingStorageFailure :: "DiagnosticCode \<Rightarrow> bool" where
  "IsWorkingStorageFailure SpoolWorkspaceFailed = True"
| "IsWorkingStorageFailure SpoolWriteFailed = True"
| "IsWorkingStorageFailure SpoolIncomplete = True"
| "IsWorkingStorageFailure OpenFileBudgetExhausted = True"
| "IsWorkingStorageFailure PayloadCommitFailed = True"
| "IsWorkingStorageFailure _ = False"

record Diagnostic =
  code :: DiagnosticCode
  severity :: Severity
  message :: string
  byteOffset :: "nat option"
  pointIndex :: "nat option"

definition default_diagnostic :: Diagnostic where
  "default_diagnostic = \<lparr>code = DecodeFailure, severity = Error, message = [],
     byteOffset = None, pointIndex = None\<rparr>"

definition error_diag :: "DiagnosticCode \<Rightarrow> string \<Rightarrow> Diagnostic" where
  "error_diag c m = \<lparr>code = c, severity = Error, message = m, byteOffset = None, pointIndex = None\<rparr>"

primrec StoppedByWorkingStorageFailure :: "Diagnostic list \<Rightarrow> bool" where
  "StoppedByWorkingStorageFailure [] = False"
| "StoppedByWorkingStorageFailure (d # ds) =
     (if severity d = Error then IsWorkingStorageFailure (code d)
      else StoppedByWorkingStorageFailure ds)"

lemma StoppedBy_append:
  "StoppedByWorkingStorageFailure (ds @ es) =
     (if \<exists>d \<in> set ds. severity d = Error then StoppedByWorkingStorageFailure ds
      else StoppedByWorkingStorageFailure es)"
  by (induction ds) auto

section \<open>Vectors and bounds\<close>

record Vec3d =
  vx :: fl
  vy :: fl
  vz :: fl

definition vec :: "fl \<Rightarrow> fl \<Rightarrow> fl \<Rightarrow> Vec3d" where
  "vec x y z = \<lparr>vx = x, vy = y, vz = z\<rparr>"

definition zero_vec :: Vec3d where
  "zero_vec = vec fzero fzero fzero"

definition Vec3d_IsFinite :: "Vec3d \<Rightarrow> bool" where
  "Vec3d_IsFinite v \<longleftrightarrow> is_finite (vx v) \<and> is_finite (vy v) \<and> is_finite (vz v)"

record SpatialBounds =
  minimum :: Vec3d
  maximum :: Vec3d

definition bounds_of :: "Vec3d \<Rightarrow> Vec3d \<Rightarrow> SpatialBounds" where
  "bounds_of lo hi = \<lparr>minimum = lo, maximum = hi\<rparr>"

definition SpatialBounds_Empty :: SpatialBounds where
  "SpatialBounds_Empty = bounds_of (vec F_PosInf F_PosInf F_PosInf) (vec F_NegInf F_NegInf F_NegInf)"

definition SpatialBounds_IsValid :: "SpatialBounds \<Rightarrow> bool" where
  "SpatialBounds_IsValid b \<longleftrightarrow>
     is_finite (vx (minimum b)) \<and> is_finite (vy (minimum b)) \<and>
     is_finite (vz (minimum b)) \<and> is_finite (vx (maximum b)) \<and>
     is_finite (vy (maximum b)) \<and> is_finite (vz (maximum b)) \<and>
     fle (vx (minimum b)) (vx (maximum b)) \<and> fle (vy (minimum b)) (vy (maximum b)) \<and>
     fle (vz (minimum b)) (vz (maximum b))"

definition SpatialBounds_Center :: "SpatialBounds \<Rightarrow> Vec3d" where
  "SpatialBounds_Center b =
     vec (dmul (dadd (vx (minimum b)) (vx (maximum b))) dhalf)
         (dmul (dadd (vy (minimum b)) (vy (maximum b))) dhalf)
         (dmul (dadd (vz (minimum b)) (vz (maximum b))) dhalf)"

definition SpatialBounds_Size :: "SpatialBounds \<Rightarrow> Vec3d" where
  "SpatialBounds_Size b =
     vec (dsub (vx (maximum b)) (vx (minimum b)))
         (dsub (vy (maximum b)) (vy (minimum b)))
         (dsub (vz (maximum b)) (vz (minimum b)))"

definition SpatialBounds_Expand :: "SpatialBounds \<Rightarrow> Vec3d \<Rightarrow> SpatialBounds" where
  "SpatialBounds_Expand b p = (if \<not> Vec3d_IsFinite p then b
     else bounds_of
       (vec (fmin (vx (minimum b)) (vx p)) (fmin (vy (minimum b)) (vy p)) (fmin (vz (minimum b)) (vz p)))
       (vec (fmax (vx (maximum b)) (vx p)) (fmax (vy (maximum b)) (vy p)) (fmax (vz (maximum b)) (vz p))))"

section \<open>Tile identifiers\<close>

record TileId =
  level :: int
  tx :: int
  ty :: int
  tz :: int

definition tile_id :: "int \<Rightarrow> int \<Rightarrow> int \<Rightarrow> int \<Rightarrow> TileId" where
  "tile_id l x y z = \<lparr>level = l, tx = x, ty = y, tz = z\<rparr>"

definition TileId_IsValid :: "TileId \<Rightarrow> bool" where
  "TileId_IsValid t \<longleftrightarrow> 0 \<le> level t"

definition TileId_ToString :: "TileId \<Rightarrow> string" where
  "TileId_ToString t = (if \<not> TileId_IsValid t then []
     else ''L'' @ show_int (level t) @ ''/'' @ show_int (tx t) @ ''/'' @
          show_int (ty t) @ ''/'' @ show_int (tz t))"

section \<open>Georeference\<close>

record GeoReference =
  epsgCode :: "int option"
  wkt :: string
  projJson :: string
  linearUnit :: string
  sourceUpAxis :: string
  stageUpAxis :: string
  localOrigin :: Vec3d

definition IsUpAxis :: "string \<Rightarrow> bool" where
  "IsUpAxis axis \<longleftrightarrow> axis = ''X'' \<or> axis = ''Y'' \<or> axis = ''Z''"

definition ToZUp :: "Vec3d \<Rightarrow> string \<Rightarrow> Vec3d" where
  "ToZUp v axis =
     (if axis = ''X'' then vec (fneg (vz v)) (vy v) (vx v)
      else if axis = ''Y'' then vec (vx v) (fneg (vz v)) (vy v)
      else v)"

definition FromZUp :: "Vec3d \<Rightarrow> string \<Rightarrow> Vec3d" where
  "FromZUp v axis =
     (if axis = ''X'' then vec (vz v) (vy v) (fneg (vx v))
      else if axis = ''Y'' then vec (vx v) (vz v) (fneg (vy v))
      else v)"

definition TransformAxes :: "Vec3d \<Rightarrow> string \<Rightarrow> string \<Rightarrow> Vec3d" where
  "TransformAxes v src tgt = FromZUp (ToZUp v src) tgt"

definition GeoReference_IsValid :: "GeoReference \<Rightarrow> bool" where
  "GeoReference_IsValid g \<longleftrightarrow>
     (let hasCrs = epsgCode g \<noteq> None \<or> wkt g \<noteq> [] \<or> projJson g \<noteq> [];
          hasUnit = linearUnit g \<noteq> [];
          hasAxis = IsUpAxis (sourceUpAxis g) \<and> IsUpAxis (stageUpAxis g)
      in hasCrs \<and> hasUnit \<and> hasAxis \<and> Vec3d_IsFinite (localOrigin g))"

definition TryToLocal :: "GeoReference \<Rightarrow> Vec3d \<Rightarrow> Vec3d \<Rightarrow> bool \<times> Vec3d" where
  "TryToLocal g source local0 =
     (if \<not> GeoReference_IsValid g \<or> \<not> Vec3d_IsFinite source then (False, local0)
      else let delta = vec (dsub (vx source) (vx (localOrigin g)))
                           (dsub (vy source) (vy (localOrigin g)))
                           (dsub (vz source) (vz (localOrigin g)));
               local = TransformAxes delta (sourceUpAxis g) (stageUpAxis g)
           in (Vec3d_IsFinite local, local))"

definition bounds_corners :: "SpatialBounds \<Rightarrow> Vec3d list" where
  "bounds_corners b =
     [vec x y z. x \<leftarrow> [vx (minimum b), vx (maximum b)],
                 y \<leftarrow> [vy (minimum b), vy (maximum b)],
                 z \<leftarrow> [vz (minimum b), vz (maximum b)]]"

definition corner_step :: "GeoReference \<Rightarrow> bool \<times> SpatialBounds \<Rightarrow> Vec3d \<Rightarrow> bool \<times> SpatialBounds" where
  \<comment> \<open>the body of the corner loop; the flag is False once the function has returned False\<close>
  "corner_step g acc c = (case acc of (running, b) \<Rightarrow>
     if \<not> running then (False, b)
     else case TryToLocal g c zero_vec of (ok, transformed) \<Rightarrow>
       if ok then (True, SpatialBounds_Expand b transformed) else (False, b))"

definition TryToLocal_bounds :: "GeoReference \<Rightarrow> SpatialBounds \<Rightarrow> SpatialBounds \<Rightarrow> bool \<times> SpatialBounds" where
  "TryToLocal_bounds g source local0 =
     (if \<not> GeoReference_IsValid g \<or> \<not> SpatialBounds_IsValid source then (False, local0)
      else case foldl (corner_step g) (True, SpatialBounds_Empty) (bounds_corners source) of
        (running, local) \<Rightarrow> (running \<and> SpatialBounds_IsValid local, local))"

definition TryToSource :: "GeoReference \<Rightarrow> Vec3d \<Rightarrow> Vec3d \<Rightarrow> bool \<times> Vec3d" where
  "TryToSource g local source0 =
     (if \<not> GeoReference_IsValid g \<or> \<not> Vec3d_IsFinite local then (False, source0)
      else let delta = TransformAxes local (stageUpAxis g) (sourceUpAxis g);
               source = vec (dadd (vx delta) (vx (localOrigin g)))
                            (dadd (vy delta) (vy (localOrigin g)))
                            (dadd (vz delta) (vz (localOrigin g)))
           in (Vec3d_IsFinite source, source))"

section \<open>Stable cache key\<close>

type_synonym CacheArguments = "(string \<times> string) list"

definition is_cache_space :: "char \<Rightarrow> bool" where
  "is_cache_space c \<longleftrightarrow> c \<in> {CHR '' '', CHR 0x09, CHR 0x0D, CHR 0x0A}"

definition cache_trim :: "string \<Rightarrow> string" where
  "cache_trim = trim_of is_cache_space"

definition tolower :: "char \<Rightarrow> char" where
  "tolower c = (let n = (of_char c :: nat) in if 65 \<le> n \<and> n \<le> 90 then char_of (n + 32) else c)"

definition NormalizeName :: "string \<Rightarrow> string" where
  "NormalizeName value = map tolower (cache_trim value)"

definition pair_less :: "string \<times> string \<Rightarrow> string \<times> string \<Rightarrow> bool" where
  "pair_less p q \<longleftrightarrow> fst p < fst q \<or> (\<not> fst q < fst p \<and> snd p < snd q)"

definition encode_argument :: "string \<times> string \<Rightarrow> string" where
  "encode_argument p = show_nat (length (fst p)) @ '':'' @ fst p @
     show_nat (length (snd p)) @ '':'' @ snd p @ '';''"

definition normalized_pairs :: "CacheArguments \<Rightarrow> CacheArguments" where
  "normalized_pairs arguments = map (\<lambda>(name, value). (NormalizeName name, cache_trim value)) arguments"

definition NormalizeCacheArguments :: "CacheArguments \<Rightarrow> string" where
  "NormalizeCacheArguments arguments =
     concat (map encode_argument (sort_by pair_less (normalized_pairs arguments)))"

unbundle bit_operations_syntax

definition fnv1a :: "u64 \<Rightarrow> string \<Rightarrow> u64" where
  "fnv1a = foldl (\<lambda>hash c. (hash XOR word_of_nat (of_char c)) * 1099511628211)"

definition StableCacheKey :: "CacheArguments \<Rightarrow> string" where
  "StableCacheKey arguments =
     show_hex 16 (unat (fnv1a 14695981039346656037 (NormalizeCacheArguments arguments)))"

section \<open>Bounds: the least box around the finite points\<close>

definition in_bounds :: "SpatialBounds \<Rightarrow> Vec3d \<Rightarrow> bool" where
  "in_bounds b p \<longleftrightarrow>
     fle (vx (minimum b)) (vx p) \<and> fle (vx p) (vx (maximum b)) \<and>
     fle (vy (minimum b)) (vy p) \<and> fle (vy p) (vy (maximum b)) \<and>
     fle (vz (minimum b)) (vz p) \<and> fle (vz p) (vz (maximum b))"

definition bounds_le :: "SpatialBounds \<Rightarrow> SpatialBounds \<Rightarrow> bool" where
  "bounds_le inner outer \<longleftrightarrow>
     fle (vx (minimum outer)) (vx (minimum inner)) \<and> fle (vx (maximum inner)) (vx (maximum outer)) \<and>
     fle (vy (minimum outer)) (vy (minimum inner)) \<and> fle (vy (maximum inner)) (vy (maximum outer)) \<and>
     fle (vz (minimum outer)) (vz (minimum inner)) \<and> fle (vz (maximum inner)) (vz (maximum outer))"

lemmas vec_simps [simp] = vec_def bounds_of_def

lemma is_finite_between: "fle x y \<Longrightarrow> fle y z \<Longrightarrow> is_finite x \<Longrightarrow> is_finite z \<Longrightarrow> is_finite y"
  by (cases x; cases y; cases z) (auto simp: fle_def)

lemma fle_fmin: "fle c a \<Longrightarrow> fle c x \<Longrightarrow> fle c (fmin a x)"
  by (simp add: fmin_def)

lemma fmax_fle: "fle a c \<Longrightarrow> fle x c \<Longrightarrow> fle (fmax a x) c"
  by (simp add: fmax_def)

lemma fmin_fle: "fle a c \<Longrightarrow> fle (fmin a x) c"
  by (auto simp: fmin_def intro: fle_trans flt_imp_fle)

lemma fle_fmax: "fle c a \<Longrightarrow> fle c (fmax a x)"
  by (auto simp: fmax_def intro: fle_trans flt_imp_fle)

lemma Expand_Empty: "Vec3d_IsFinite p \<Longrightarrow> SpatialBounds_Expand SpatialBounds_Empty p = bounds_of p p"
proof -
  have "fmin F_PosInf x = x" "fmax F_NegInf x = x" if "is_finite x" for x
    using that by (cases x; simp add: fmin_def fmax_def)+
  then show "Vec3d_IsFinite p \<Longrightarrow> ?thesis"
    by (simp add: SpatialBounds_Expand_def SpatialBounds_Empty_def Vec3d_IsFinite_def)
qed

lemma Expand_nonfinite [simp]: "\<not> Vec3d_IsFinite p \<Longrightarrow> SpatialBounds_Expand b p = b"
  by (simp add: SpatialBounds_Expand_def)

lemma Empty_not_valid [simp]: "\<not> SpatialBounds_IsValid SpatialBounds_Empty"
  by (simp add: SpatialBounds_IsValid_def SpatialBounds_Empty_def)

lemma valid_point_bounds: "Vec3d_IsFinite p \<Longrightarrow> SpatialBounds_IsValid (bounds_of p p)"
  by (simp add: SpatialBounds_IsValid_def Vec3d_IsFinite_def)

lemma Expand_valid:
  "SpatialBounds_IsValid b \<Longrightarrow> SpatialBounds_IsValid (SpatialBounds_Expand b p)"
  by (auto simp: SpatialBounds_IsValid_def SpatialBounds_Expand_def Vec3d_IsFinite_def)

lemma Expand_contains_new:
  "SpatialBounds_IsValid b \<Longrightarrow> Vec3d_IsFinite p \<Longrightarrow> in_bounds (SpatialBounds_Expand b p) p"
  by (auto simp: SpatialBounds_IsValid_def SpatialBounds_Expand_def Vec3d_IsFinite_def in_bounds_def)

lemma Expand_keeps:
  "in_bounds b q \<Longrightarrow> in_bounds (SpatialBounds_Expand b p) q"
  by (simp add: SpatialBounds_Expand_def in_bounds_def fmin_fle fle_fmax)

lemma Expand_least: "bounds_le b c \<Longrightarrow> in_bounds c p \<Longrightarrow> bounds_le (SpatialBounds_Expand b p) c"
  by (simp add: bounds_le_def in_bounds_def SpatialBounds_Expand_def fle_fmin fmax_fle)

text \<open>What the fold of \<^verbatim>\<open>Expand\<close> over a list of points has computed so far.\<close>

definition expand_inv :: "SpatialBounds \<Rightarrow> Vec3d list \<Rightarrow> bool" where
  "expand_inv b ps \<longleftrightarrow>
     (if \<exists>p \<in> set ps. Vec3d_IsFinite p
      then SpatialBounds_IsValid b \<and> (\<forall>p \<in> set ps. Vec3d_IsFinite p \<longrightarrow> in_bounds b p) \<and>
           (\<forall>c. (\<forall>p \<in> set ps. Vec3d_IsFinite p \<longrightarrow> in_bounds c p) \<longrightarrow> bounds_le b c)
      else b = SpatialBounds_Empty)"

lemma expand_inv_Nil: "expand_inv SpatialBounds_Empty []"
  by (simp add: expand_inv_def)

lemma expand_inv_snoc:
  assumes "expand_inv b ps"
  shows "expand_inv (SpatialBounds_Expand b p) (ps @ [p])"
proof (cases "Vec3d_IsFinite p")
  case False
  with assms show ?thesis by (auto simp: expand_inv_def)
next
  case p: True
  show ?thesis
  proof (cases "\<exists>q \<in> set ps. Vec3d_IsFinite q")
    case False
    then have "b = SpatialBounds_Empty" using assms by (simp add: expand_inv_def)
    then have "SpatialBounds_Expand b p = bounds_of p p" using p by (simp only: Expand_Empty)
    moreover have "in_bounds (bounds_of p p) p"
      using p by (simp add: in_bounds_def Vec3d_IsFinite_def)
    moreover have "bounds_le (bounds_of p p) c" if "in_bounds c p" for c
      using that by (simp add: in_bounds_def bounds_le_def)
    ultimately show ?thesis
      using p False valid_point_bounds [OF p] by (auto simp: expand_inv_def)
  next
    case True
    then have v: "SpatialBounds_IsValid b" and i: "\<forall>q \<in> set ps. Vec3d_IsFinite q \<longrightarrow> in_bounds b q"
      and l: "\<And>c. (\<forall>q \<in> set ps. Vec3d_IsFinite q \<longrightarrow> in_bounds c q) \<Longrightarrow> bounds_le b c"
      using assms by (auto simp: expand_inv_def)
    have "bounds_le (SpatialBounds_Expand b p) c"
      if "\<forall>q \<in> set (ps @ [p]). Vec3d_IsFinite q \<longrightarrow> in_bounds c q" for c
      using that p by (intro Expand_least l) auto
    then show ?thesis
      using v i p True by (auto simp: expand_inv_def Expand_valid Expand_contains_new Expand_keeps)
  qed
qed

lemma expand_inv_foldl: "expand_inv (foldl SpatialBounds_Expand SpatialBounds_Empty ps) ps"
proof (induction ps rule: rev_induct)
  case Nil
  show ?case by (simp add: expand_inv_Nil)
next
  case (snoc p ps)
  then show ?case using expand_inv_snoc by simp
qed

text \<open>
  Claim C14: Expanding an empty box by a list of points, at least one of them finite, gives a
  valid box that contains every finite point and lies inside every other box that does; the
  non-finite points do not influence it.
\<close>

theorem expand_all_least_box:
  assumes "\<exists>p \<in> set ps. Vec3d_IsFinite p"
  shows "SpatialBounds_IsValid (foldl SpatialBounds_Expand SpatialBounds_Empty ps) \<and>
    (\<forall>p \<in> set ps. Vec3d_IsFinite p \<longrightarrow>
       in_bounds (foldl SpatialBounds_Expand SpatialBounds_Empty ps) p) \<and>
    (\<forall>c. (\<forall>p \<in> set ps. Vec3d_IsFinite p \<longrightarrow> in_bounds c p) \<longrightarrow>
       bounds_le (foldl SpatialBounds_Expand SpatialBounds_Empty ps) c)"
  using expand_inv_foldl [of ps] assms by (simp add: expand_inv_def)

theorem expand_all_least_box_witness:
  "SpatialBounds_IsValid (foldl SpatialBounds_Expand SpatialBounds_Empty
     [vec (F_Fin 1) (F_Fin 5) (F_Fin 0), vec F_NaN fzero fzero, vec (F_Fin (- 2)) (F_Fin 7) F_NegZero])"
  using expand_all_least_box [of "[vec (F_Fin 1) (F_Fin 5) (F_Fin 0), vec F_NaN fzero fzero,
      vec (F_Fin (- 2)) (F_Fin 7) F_NegZero]"]
  by (simp add: Vec3d_IsFinite_def)

section \<open>Georeference: axes and local coordinates\<close>

lemma fneg_fneg [simp]: "fneg (fneg x) = x"
  by (cases x) auto

lemma TransformAxes_inverse:
  "IsUpAxis s \<Longrightarrow> IsUpAxis t \<Longrightarrow> TransformAxes (TransformAxes v s t) t s = v"
  by (auto simp: IsUpAxis_def TransformAxes_def ToZUp_def FromZUp_def)

lemma TransformAxes_finite [simp]:
  "Vec3d_IsFinite (TransformAxes v s t) \<longleftrightarrow> Vec3d_IsFinite v"
  by (auto simp: TransformAxes_def ToZUp_def FromZUp_def Vec3d_IsFinite_def)

lemma dsub_small:
  assumes "\<bar>a\<bar> < 2 ^ 52" "\<bar>b\<bar> < 2 ^ 52"
  shows "dsub (F_Fin (of_int a)) (F_Fin (of_int b)) = F_Fin (of_int (a - b))"
proof -
  have "fround binary64 ((of_int (a - b)::rat) < 0) (of_int (a - b)) = F_Fin (of_int (a - b))"
    by (subst fround_int) (use assms in auto)
  then show ?thesis by (auto simp: fsub_def)
qed

lemma dadd_small:
  assumes "\<bar>a + b\<bar> < 2 ^ 53"
  shows "dadd (F_Fin (of_int a)) (F_Fin (of_int b)) = F_Fin (of_int (a + b))"
proof -
  have "fround binary64 ((of_int (a + b)::rat) < 0) (of_int (a + b)) = F_Fin (of_int (a + b))"
    by (subst fround_int) (use assms in auto)
  then show ?thesis by auto
qed

lemma dadd_dsub_small: "small_int x \<Longrightarrow> small_int y \<Longrightarrow> dadd (dsub x y) y = x"
proof -
  assume "small_int x" "small_int y"
  then obtain a b where ab: "x = F_Fin (of_int a)" "y = F_Fin (of_int b)"
    "\<bar>a\<bar> < 2 ^ 52" "\<bar>b\<bar> < 2 ^ 52" by (auto simp: small_int_def)
  have "dadd (F_Fin (of_int (a - b))) (F_Fin (of_int b)) = F_Fin (of_int (a - b + b))"
    by (rule dadd_small) (use ab in auto)
  then show ?thesis by (simp only: ab dsub_small) simp
qed

lemma is_finite_dsub_small: "small_int x \<Longrightarrow> small_int y \<Longrightarrow> is_finite (dsub x y)"
  unfolding small_int_def by (auto simp: dsub_small)

definition small_vec :: "Vec3d \<Rightarrow> bool" where
  "small_vec v \<longleftrightarrow> small_int (vx v) \<and> small_int (vy v) \<and> small_int (vz v)"

text \<open>
  Claim C15: Converting a source position to local coordinates and back returns the very same
  position, for every choice of up axes, whenever the coordinates and the local origin are
  integers below \<open>2 ^ 52\<close> (where double arithmetic does not round).
\<close>

theorem local_source_roundtrip:
  assumes "GeoReference_IsValid g" "small_vec p" "small_vec (localOrigin g)"
  shows "\<exists>q. TryToLocal g p l0 = (True, q) \<and> TryToSource g q s0 = (True, p)"
proof -
  define d where "d = vec (dsub (vx p) (vx (localOrigin g))) (dsub (vy p) (vy (localOrigin g)))
                          (dsub (vz p) (vz (localOrigin g)))"
  have fin: "Vec3d_IsFinite d" "Vec3d_IsFinite p"
    using assms by (auto simp: d_def Vec3d_IsFinite_def small_vec_def is_finite_dsub_small)
  have ax: "IsUpAxis (sourceUpAxis g)" "IsUpAxis (stageUpAxis g)"
    using assms(1) by (auto simp: GeoReference_IsValid_def Let_def)
  have "TryToLocal g p l0 = (True, TransformAxes d (sourceUpAxis g) (stageUpAxis g))"
    using assms(1) fin by (simp add: TryToLocal_def d_def Let_def)
  moreover have "TryToSource g (TransformAxes d (sourceUpAxis g) (stageUpAxis g)) s0 = (True, p)"
    using assms fin by (simp add: TryToSource_def Let_def TransformAxes_inverse [OF ax])
      (simp add: d_def small_vec_def dadd_dsub_small Vec3d_IsFinite_def)
  ultimately show ?thesis by blast
qed

definition sample_reference :: GeoReference where
  "sample_reference = \<lparr>epsgCode = Some 6677, wkt = [], projJson = [], linearUnit = ''metre'',
     sourceUpAxis = ''Z'', stageUpAxis = ''Y'',
     localOrigin = vec (F_Fin 1000) (F_Fin 2000) (F_Fin 30)\<rparr>"

lemma small_int_numerals [simp]:
  "small_int (F_Fin 0)" "small_int (F_Fin 1)"
  "(numeral n :: int) < 2 ^ 52 \<Longrightarrow> small_int (F_Fin (numeral n))"
  "(numeral n :: int) < 2 ^ 52 \<Longrightarrow> small_int (F_Fin (- numeral n))"
  unfolding small_int_def
  by (rule exI [of _ 0], simp, rule exI [of _ 1], simp, rule exI [of _ "numeral n"], simp,
      rule exI [of _ "- numeral n"], simp)

lemma sample_reference_valid: "GeoReference_IsValid sample_reference"
  by (simp add: GeoReference_IsValid_def sample_reference_def IsUpAxis_def Vec3d_IsFinite_def)

theorem local_source_roundtrip_witness:
  "\<exists>q. TryToLocal sample_reference (vec (F_Fin 1010) (F_Fin 1990) (F_Fin 35)) zero_vec = (True, q) \<and>
       TryToSource sample_reference q zero_vec = (True, vec (F_Fin 1010) (F_Fin 1990) (F_Fin 35))"
  by (rule local_source_roundtrip [OF sample_reference_valid])
    (simp_all add: small_vec_def sample_reference_def)

lemma fneg_antimono: "fle x y \<Longrightarrow> fle (fneg y) (fneg x)"
  by (cases x; cases y) (auto simp: fle_def split: if_splits)

lemma dsub_mono:
  "is_finite x \<Longrightarrow> is_finite y \<Longrightarrow> is_finite z \<Longrightarrow> fle x y \<Longrightarrow> fle (dsub x z) (dsub y z)"
  unfolding fsub_def by (rule fadd_mono) auto

text \<open>
  The image of a box under an axis conversion: each output axis is an input axis, possibly
  negated, so the images of the corners bound the image of everything between them.
\<close>

lemma TransformAxes_between:
  assumes "IsUpAxis s" "IsUpAxis t"
    and corners: "\<And>x y z. x \<in> {lx, hx} \<Longrightarrow> y \<in> {ly, hy} \<Longrightarrow> z \<in> {lz, hz} \<Longrightarrow>
      in_bounds b (TransformAxes (vec x y z) s t)"
    and x: "fle lx x" "fle x hx" and y: "fle ly y" "fle y hy" and z: "fle lz z" "fle z hz"
  shows "in_bounds b (TransformAxes (vec x y z) s t)"
proof -
  note lo = corners [of lx ly lz] and hi = corners [of hx hy hz]
  note n = fneg_antimono [OF x(1)] fneg_antimono [OF x(2)] fneg_antimono [OF y(1)]
    fneg_antimono [OF y(2)] fneg_antimono [OF z(1)] fneg_antimono [OF z(2)]
  have "s = ''X'' \<or> s = ''Y'' \<or> s = ''Z''" "t = ''X'' \<or> t = ''Y'' \<or> t = ''Z''"
    using assms(1,2) by (simp_all add: IsUpAxis_def)
  then show ?thesis
    using lo hi x y z n
    by (elim disjE)
      (simp_all add: TransformAxes_def ToZUp_def FromZUp_def in_bounds_def, (blast intro: fle_trans)+)
qed

lemma corner_step_simps:
  "corner_step g (False, b) c = (False, b)"
  "corner_step g (True, b) c = (case TryToLocal g c zero_vec of (ok, t) \<Rightarrow>
     if ok then (True, SpatialBounds_Expand b t) else (False, b))"
  by (simp_all add: corner_step_def)

lemma corner_step_stopped: "foldl (corner_step g) (False, b) cs = (False, b)"
  by (induction cs) (simp_all add: corner_step_simps)

lemma corner_steps_ok:
  assumes "foldl (corner_step g) (True, b) cs = (True, lb)"
    and "b = SpatialBounds_Empty \<or> SpatialBounds_IsValid b"
  shows "(\<forall>q. in_bounds b q \<longrightarrow> in_bounds lb q) \<and>
    (\<forall>c \<in> set cs. \<exists>q. TryToLocal g c zero_vec = (True, q) \<and> in_bounds lb q)"
  using assms
proof (induction cs arbitrary: b)
  case Nil
  then show ?case by auto
next
  case (Cons c cs)
  obtain ok q where t: "TryToLocal g c zero_vec = (ok, q)" by (cases "TryToLocal g c zero_vec")
  have ok: ok using Cons.prems(1) t by (cases ok) (auto simp: corner_step_simps corner_step_stopped)
  then have q: "TryToLocal g c zero_vec = (True, q)"
    and rest: "foldl (corner_step g) (True, SpatialBounds_Expand b q) cs = (True, lb)"
    using Cons.prems(1) t by (auto simp: corner_step_simps)
  have qf: "Vec3d_IsFinite q" using q by (auto simp: TryToLocal_def Let_def split: if_splits)
  have v: "SpatialBounds_IsValid (SpatialBounds_Expand b q)"
    using Cons.prems(2) qf by (metis Expand_Empty Expand_valid valid_point_bounds)
  have i: "in_bounds (SpatialBounds_Expand b q) q"
    using expand_inv_snoc [OF expand_inv_Nil, of q] Cons.prems(2) qf Expand_contains_new
    by (auto simp: expand_inv_def)
  show ?case using Cons.IH [OF rest] v i q Expand_keeps by auto
qed

text \<open>
  Claim C11: When the conversion of a source box to local bounds succeeds, the result is a valid
  box, and every source position inside the source box converts successfully to a local
  position inside it: rounding and axis flips cannot push a point out of its converted bounds.
\<close>

theorem local_bounds_contain_points:
  assumes "TryToLocal_bounds g src l0 = (True, lb)" "in_bounds src p"
  shows "SpatialBounds_IsValid lb \<and> (\<exists>q. TryToLocal g p z0 = (True, q) \<and> in_bounds lb q)"
proof -
  let ?o = "localOrigin g"
  let ?T = "\<lambda>x y z. TransformAxes (vec (dsub x (vx ?o)) (dsub y (vy ?o)) (dsub z (vz ?o)))
      (sourceUpAxis g) (stageUpAxis g)"
  have g: "GeoReference_IsValid g" and v: "SpatialBounds_IsValid src"
    and e: "foldl (corner_step g) (True, SpatialBounds_Empty) (bounds_corners src) = (True, lb)"
    and vl: "SpatialBounds_IsValid lb"
    using assms(1) by (auto simp: TryToLocal_bounds_def split: if_splits prod.splits)
  have ok: "SpatialBounds_IsValid lb"
    "\<And>c. c \<in> set (bounds_corners src) \<Longrightarrow> \<exists>q. TryToLocal g c zero_vec = (True, q) \<and> in_bounds lb q"
    using corner_steps_ok [OF e] vl by auto
  have fo: "is_finite (vx ?o)" "is_finite (vy ?o)" "is_finite (vz ?o)"
    and ax: "IsUpAxis (sourceUpAxis g)" "IsUpAxis (stageUpAxis g)"
    using g by (auto simp: GeoReference_IsValid_def Vec3d_IsFinite_def Let_def)
  have fp: "is_finite (vx p)" "is_finite (vy p)" "is_finite (vz p)"
    using assms(2) v by (auto simp: in_bounds_def SpatialBounds_IsValid_def intro: is_finite_between)
  have loc: "TryToLocal g (vec x y z) l = (Vec3d_IsFinite (?T x y z), ?T x y z)"
    if "is_finite x" "is_finite y" "is_finite z" for x y z l
    using that g by (simp add: TryToLocal_def Let_def Vec3d_IsFinite_def)
  have corner: "in_bounds lb (?T x y z)"
    if "x \<in> {vx (minimum src), vx (maximum src)}" "y \<in> {vy (minimum src), vy (maximum src)}"
      "z \<in> {vz (minimum src), vz (maximum src)}" for x y z
  proof -
    have "vec x y z \<in> set (bounds_corners src)" using that by (auto simp: bounds_corners_def)
    moreover have "is_finite x" "is_finite y" "is_finite z"
      using that v by (auto simp: SpatialBounds_IsValid_def)
    ultimately show ?thesis using ok(2) [of "vec x y z"] loc by auto
  qed
  have fs: "is_finite (vx (minimum src))" "is_finite (vx (maximum src))" "is_finite (vy (minimum src))"
    "is_finite (vy (maximum src))" "is_finite (vz (minimum src))" "is_finite (vz (maximum src))"
    using v by (simp_all add: SpatialBounds_IsValid_def)
  have ib: "fle (vx (minimum src)) (vx p)" "fle (vx p) (vx (maximum src))"
    "fle (vy (minimum src)) (vy p)" "fle (vy p) (vy (maximum src))"
    "fle (vz (minimum src)) (vz p)" "fle (vz p) (vz (maximum src))"
    using assms(2) by (simp_all add: in_bounds_def)
  have q: "in_bounds lb (?T (vx p) (vy p) (vz p))"
    by (rule TransformAxes_between [OF ax _ dsub_mono [OF fs(1) fp(1) fo(1) ib(1)]
          dsub_mono [OF fp(1) fs(2) fo(1) ib(2)] dsub_mono [OF fs(3) fp(2) fo(2) ib(3)]
          dsub_mono [OF fp(2) fs(4) fo(2) ib(4)] dsub_mono [OF fs(5) fp(3) fo(3) ib(5)]
          dsub_mono [OF fp(3) fs(6) fo(3) ib(6)]]) (use corner in blast)
  then have "Vec3d_IsFinite (?T (vx p) (vy p) (vz p))"
    using ok(1) is_finite_between
    unfolding in_bounds_def SpatialBounds_IsValid_def Vec3d_IsFinite_def by blast
  moreover have "vec (vx p) (vy p) (vz p) = p" by simp
  ultimately show ?thesis using ok(1) q loc [of "vx p" "vy p" "vz p" z0] fp by metis
qed

definition sample_box :: SpatialBounds where
  "sample_box = bounds_of (vec (F_Fin 990) (F_Fin 2000) (F_Fin 20)) (vec (F_Fin 1010) (F_Fin 2020) (F_Fin 60))"

definition sample_local_box :: SpatialBounds where
  "sample_local_box = bounds_of (vec (F_Fin (- 10)) (F_Fin (- 10)) (F_Fin (- 20))) (vec (F_Fin 10) (F_Fin 30) F_NegZero)"

lemma sample_local: "TryToLocal_bounds sample_reference sample_box sample_box = (True, sample_local_box)"
  by code_simp

theorem local_bounds_contain_points_witness:
  "SpatialBounds_IsValid sample_local_box \<and>
   (\<exists>q. TryToLocal sample_reference (vec (F_Fin 1000) (F_Fin 2010) (F_Fin 33)) zero_vec = (True, q) \<and>
        in_bounds sample_local_box q)"
  by (rule local_bounds_contain_points [OF sample_local]) (simp add: in_bounds_def sample_box_def)

section \<open>Tile identifiers are determined by their text\<close>

lemma slash_not_digit [simp]: "\<not> is_digit (CHR ''/'')" "\<not> is_digit (CHR '':'')"
  by (simp_all add: is_digit_def)

lemma slash_not_in_show_int: "CHR ''/'' \<notin> set (show_int i)"
  using set_show_int [of "CHR ''/''" i] by auto

lemma slash_split:
  assumes "show_int i @ CHR ''/'' # s = show_int j @ CHR ''/'' # t"
  shows "i = j \<and> s = t"
proof -
  have *: "takeWhile (\<lambda>c. c \<noteq> CHR ''/'') (show_int k @ CHR ''/'' # w) = show_int k" for k w
    using slash_not_in_show_int [of k] by (auto simp: takeWhile_append)
  have "show_int i = show_int j" using * [of i s] * [of j t] assms by metis
  with assms show ?thesis by simp
qed

text \<open>
  Two valid tile identifiers have the same text exactly when they are equal, so the
  text may serve as a key, as it does where the tile plan is built.
\<close>

theorem tile_text_injective:
  assumes "TileId_IsValid a" "TileId_IsValid b"
  shows "TileId_ToString a = TileId_ToString b \<longleftrightarrow> a = b"
proof
  assume "TileId_ToString a = TileId_ToString b"
  then have "show_int (level a) @ CHR ''/'' # show_int (tx a) @ CHR ''/'' # show_int (ty a) @ CHR ''/'' # show_int (tz a)
    = show_int (level b) @ CHR ''/'' # show_int (tx b) @ CHR ''/'' # show_int (ty b) @ CHR ''/'' # show_int (tz b)"
    using assms by (simp add: TileId_ToString_def)
  then have "level a = level b \<and> tx a = tx b \<and> ty a = ty b \<and> tz a = tz b"
    by (auto dest!: slash_split)
  then show "a = b" by simp
qed simp

theorem tile_text_injective_witness:
  "TileId_ToString (tile_id 3 (- 4) 12 0) \<noteq> TileId_ToString (tile_id 3 (- 41) 2 0)"
  using tile_text_injective [of "tile_id 3 (- 4) 12 0" "tile_id 3 (- 41) 2 0"]
  by (simp add: TileId_IsValid_def tile_id_def)

section \<open>The cache key depends on the normalised arguments only\<close>

interpretation pair_order: total_comparator pair_less
  by unfold_locales (auto simp: pair_less_def prod_eq_iff)

lemma digits_prefix_unique:
  assumes "show_nat m @ c # u = show_nat n @ d # v" "\<not> is_digit c" "\<not> is_digit d"
  shows "m = n \<and> c # u = d # v"
proof -
  have *: "takeWhile is_digit (show_nat k @ e # w) = show_nat k" if "\<not> is_digit e" for k e w
    using that show_nat_digits [of k] by (simp add: list_all_iff)
  have "show_nat m = show_nat n"
    using * [OF assms(2)] * [OF assms(3)] assms(1) by metis
  with assms(1) show ?thesis by simp
qed

lemma encode_argument_prefix:
  assumes "encode_argument p @ s = encode_argument q @ t"
  shows "p = q \<and> s = t"
proof -
  obtain a b c d where pq: "p = (a, b)" "q = (c, d)" by (cases p, cases q)
  from assms have 1: "show_nat (length a) @ CHR '':'' # a @ show_nat (length b) @ CHR '':'' # b @ CHR '';'' # s
      = show_nat (length c) @ CHR '':'' # c @ show_nat (length d) @ CHR '':'' # d @ CHR '';'' # t"
    by (simp add: encode_argument_def pq)
  from digits_prefix_unique [OF 1] have "length a = length c"
    and "a @ show_nat (length b) @ CHR '':'' # b @ CHR '';'' # s =
         c @ show_nat (length d) @ CHR '':'' # d @ CHR '';'' # t" by simp_all
  then have ac: "a = c" and 2: "show_nat (length b) @ CHR '':'' # b @ CHR '';'' # s =
         show_nat (length d) @ CHR '':'' # d @ CHR '';'' # t" by auto
  from digits_prefix_unique [OF 2] have "length b = length d"
    and "b @ CHR '';'' # s = d @ CHR '';'' # t" by simp_all
  with ac pq show ?thesis by auto
qed

lemma encode_argument_nonempty [simp]: "encode_argument p \<noteq> []"
  by (simp add: encode_argument_def)

lemma encode_arguments_injective:
  "concat (map encode_argument ps) = concat (map encode_argument qs) \<Longrightarrow> ps = qs"
proof (induction ps arbitrary: qs)
  case Nil
  then show ?case by (cases qs) auto
next
  case (Cons p ps)
  then obtain q qs' where qs: "qs = q # qs'" by (cases qs) auto
  with Cons.prems have "p = q \<and> concat (map encode_argument ps) = concat (map encode_argument qs')"
    by (intro encode_argument_prefix) simp
  with Cons.IH qs show ?case by simp
qed

text \<open>
  Two argument lists normalise to the same text exactly when their pairs, with names
  trimmed and lower-cased and values trimmed, are the same up to order: reordering, letter case
  of names and surrounding blanks never change the text, and nothing else is conflated.
\<close>

theorem normalized_arguments_exact:
  "NormalizeCacheArguments a = NormalizeCacheArguments b \<longleftrightarrow>
   mset (normalized_pairs a) = mset (normalized_pairs b)"
proof
  assume "NormalizeCacheArguments a = NormalizeCacheArguments b"
  then have "sort_by pair_less (normalized_pairs a) = sort_by pair_less (normalized_pairs b)"
    unfolding NormalizeCacheArguments_def by (rule encode_arguments_injective)
  then show "mset (normalized_pairs a) = mset (normalized_pairs b)" by (metis mset_sort_by)
next
  assume "mset (normalized_pairs a) = mset (normalized_pairs b)"
  then show "NormalizeCacheArguments a = NormalizeCacheArguments b"
    unfolding NormalizeCacheArguments_def using pair_order.sort_by_perm by metis
qed

lemma length_StableCacheKey [simp]: "length (StableCacheKey a) = 16"
  by (simp add: StableCacheKey_def)

lemma StableCacheKey_cong: "mset (normalized_pairs a) = mset (normalized_pairs b) \<Longrightarrow>
   StableCacheKey a = StableCacheKey b"
  unfolding StableCacheKey_def NormalizeCacheArguments_def
  using pair_order.sort_by_perm by metis

lemma StableCacheKey_eq_hash:
  "StableCacheKey a = StableCacheKey b \<longleftrightarrow>
   fnv1a 14695981039346656037 (NormalizeCacheArguments a) =
   fnv1a 14695981039346656037 (NormalizeCacheArguments b)"
proof -
  have "unat (w :: u64) < 16 ^ 16" for w
    using unsigned_less [of w] by simp
  then show ?thesis
    unfolding StableCacheKey_def by (metis show_hex_inj word_unat_eq_iff)
qed

end
