(* ===== verification/Number_Text.thy ===== *)
theory Number_Text
  imports Geo_Core
begin

text \<open>
  The conversions between text and \<^verbatim>\<open>double\<close> the program uses from the C library:
  \<^verbatim>\<open>std::isspace\<close>, \<^verbatim>\<open>strtod\<close> in the C locale (longest prefix, decimal and hexadecimal
  numerals, infinities and NaNs, correctly rounded to binary64) and \<^verbatim>\<open>std::to_string\<close>
  of a \<^verbatim>\<open>double\<close>, which prints six decimals.
\<close>

section \<open>Characters and C strings\<close>

definition c_isspace :: "char \<Rightarrow> bool" where
  "c_isspace c \<longleftrightarrow> (let n = (of_char c :: nat) in n = 32 \<or> (9 \<le> n \<and> n \<le> 13))"

text \<open>\<^verbatim>\<open>c_str()\<close> read as a C string ends at the first NUL.\<close>

definition c_string :: "string \<Rightarrow> string" where
  "c_string s = takeWhile (\<lambda>c. c \<noteq> CHR 0x00) s"

definition char_value :: "char \<Rightarrow> nat" where
  "char_value c = (if is_digit c then digit_value c
     else let n = (of_char (tolower c) :: nat) in if 97 \<le> n \<and> n \<le> 102 then n - 87 else 99)"

definition digit_in :: "nat \<Rightarrow> char \<Rightarrow> bool" where
  "digit_in b c \<longleftrightarrow> char_value c < b"

definition number_of :: "nat \<Rightarrow> string \<Rightarrow> nat" where
  "number_of b = foldl (\<lambda>a c. b * a + char_value c) 0"

section \<open>strtod\<close>

definition has_sign :: "string \<Rightarrow> bool" where
  "has_sign s \<longleftrightarrow> s \<noteq> [] \<and> (hd s = CHR ''-'' \<or> hd s = CHR ''+'')"

definition exponent_part :: "char \<Rightarrow> string \<Rightarrow> int \<times> string" where
  "exponent_part e s = (case s of [] \<Rightarrow> (0, [])
   | c # r \<Rightarrow>
       if tolower c \<noteq> e then (0, s)
       else let u = (if has_sign r then tl r else r); ds = takeWhile is_digit u
            in if ds = [] then (0, s)
               else ((if has_sign r \<and> hd r = CHR ''-'' then - int (digits_value ds)
                      else int (digits_value ds)), dropWhile is_digit u))"

definition mantissa :: "nat \<Rightarrow> string \<Rightarrow> (nat \<times> nat \<times> string) option" where
  "mantissa b s =
     (let ip = takeWhile (digit_in b) s; r = dropWhile (digit_in b) s;
          dot = (r \<noteq> [] \<and> hd r = CHR ''.'');
          fp = (if dot then takeWhile (digit_in b) (tl r) else []);
          rest = (if dot then dropWhile (digit_in b) (tl r) else r)
      in if ip = [] \<and> fp = [] then None else Some (number_of b (ip @ fp), length fp, rest))"

definition scale_by :: "nat \<Rightarrow> int \<Rightarrow> rat \<Rightarrow> rat" where
  "scale_by b k q = (if 0 \<le> k then q * of_nat b ^ nat k else q / of_nat b ^ nat (- k))"

definition signed :: "bool \<Rightarrow> rat \<Rightarrow> fl" where
  "signed neg q = fround binary64 neg (if neg then - q else q)"

definition nan_rest :: "string \<Rightarrow> string" where
  "nan_rest s =
     (if s \<noteq> [] \<and> hd s = CHR ''('' then
        (let r = dropWhile (\<lambda>c. let n = (of_char c :: nat) in is_digit c \<or> (65 \<le> n \<and> n \<le> 90) \<or>
                (97 \<le> n \<and> n \<le> 122) \<or> n = 95) (tl s)
         in if r \<noteq> [] \<and> hd r = CHR '')'' then tl r else s)
      else s)"

definition strtod_unsigned :: "bool \<Rightarrow> string \<Rightarrow> (fl \<times> string) option" where
  "strtod_unsigned neg s =
     (let inf = (if neg then F_NegInf else F_PosInf) in
      if map tolower (take 8 s) = ''infinity'' then Some (inf, drop 8 s)
      else if map tolower (take 3 s) = ''inf'' then Some (inf, drop 3 s)
      else if map tolower (take 3 s) = ''nan'' then Some (F_NaN, nan_rest (drop 3 s))
      else if map tolower (take 2 s) = ''0x'' \<and> mantissa 16 (drop 2 s) \<noteq> None then
        (case mantissa 16 (drop 2 s) of None \<Rightarrow> None
         | Some (m, k, r) \<Rightarrow>
             (case exponent_part (CHR ''p'') r of (e, rest) \<Rightarrow>
                Some (signed neg (scale_by 2 (e - 4 * int k) (of_nat m)), rest)))
      else
        (case mantissa 10 s of None \<Rightarrow> None
         | Some (m, k, r) \<Rightarrow>
             (case exponent_part (CHR ''e'') r of (e, rest) \<Rightarrow>
                Some (signed neg (scale_by 10 (e - int k) (of_nat m)), rest))))"

text \<open>The value and the text after the converted prefix; the whole text when nothing converts.\<close>

definition strtod :: "string \<Rightarrow> fl \<times> string" where
  "strtod text =
     (let s = dropWhile c_isspace text;
          u = (if has_sign s then tl s else s)
      in case strtod_unsigned (has_sign s \<and> hd s = CHR ''-'') u of
           None \<Rightarrow> (F_Fin 0, text)
         | Some (x, rest) \<Rightarrow> (x, rest))"

text \<open>The value when the whole C string is one numeral, as the callers test it.\<close>

definition whole_double :: "string \<Rightarrow> fl \<times> bool" where
  "whole_double value =
     (case strtod (c_string value) of (x, rest) \<Rightarrow>
        (x, length rest \<noteq> length (c_string value) \<and> rest = [] \<and> is_finite x))"

section \<open>std::to_string of a double\<close>

definition show_padded :: "nat \<Rightarrow> nat \<Rightarrow> string" where
  "show_padded w n = replicate (w - length (show_nat n)) (CHR ''0'') @ show_nat n"

definition show_fixed :: "nat \<Rightarrow> rat \<Rightarrow> string" where
  \<comment> \<open>\<open>k\<close> decimals of a non-negative number, ties to even\<close>
  "show_fixed k q = (let m = nat (rne (q * 10 ^ k)) in
     show_nat (m div 10 ^ k) @ ''.'' @ show_padded k (m mod 10 ^ k))"

fun to_string_double :: "fl \<Rightarrow> string" where
  "to_string_double F_NaN = ''nan''"
| "to_string_double F_PosInf = ''inf''"
| "to_string_double F_NegInf = ''-inf''"
| "to_string_double F_NegZero = ''-0.000000''"
| "to_string_double (F_Fin q) = (if q < 0 then ''-'' else []) @ show_fixed 6 \<bar>q\<bar>"

lemma whole_double_finite: "whole_double v = (x, True) \<Longrightarrow> is_finite x"
  by (auto simp: whole_double_def split: prod.splits)

section \<open>Stream output of a double\<close>

text \<open>
  \<^verbatim>\<open>operator<<\<close> with \<^verbatim>\<open>setprecision(n)\<close> in the default notation prints as \<^verbatim>\<open>%g\<close>: \<open>n\<close> significant
  digits, correctly rounded, without trailing zeros, in scientific notation when the decimal
  exponent is below -4 or at least \<open>n\<close>.
\<close>

definition dec_exp :: "rat \<Rightarrow> int" where
  "dec_exp q = (if 1 \<le> q then int (length (show_nat (nat \<lfloor>q\<rfloor>))) - 1
     else - int (length (show_nat (nat (\<lceil>1 / q\<rceil> - 1)))))"

definition strip_zeros :: "string \<Rightarrow> string" where
  "strip_zeros s = rev (dropWhile (\<lambda>c. c = CHR ''0'') (rev s))"

definition with_fraction :: "string \<Rightarrow> string \<Rightarrow> string" where
  "with_fraction ip fp = (if strip_zeros fp = [] then ip else ip @ ''.'' @ strip_zeros fp)"

definition significant :: "nat \<Rightarrow> rat \<Rightarrow> nat \<times> int" where
  "significant n q = (let e = dec_exp q; m = nat (rne (scale_by 10 (int n - 1 - e) q))
     in if m = 10 ^ n then (10 ^ (n - 1), e + 1) else (m, e))"

definition show_general :: "nat \<Rightarrow> rat \<Rightarrow> string" where
  "show_general n q =
     (case significant n q of (m, e) \<Rightarrow>
      let ds = show_nat m in
      if e < - 4 \<or> int n \<le> e
      then with_fraction (take 1 ds) (drop 1 ds) @ ''e'' @ (if e < 0 then ''-'' else ''+'') @
             show_padded 2 (nat \<bar>e\<bar>)
      else if 0 \<le> e then with_fraction (take (nat e + 1) ds) (drop (nat e + 1) ds)
      else with_fraction ''0'' (replicate (nat (- e) - 1) (CHR ''0'') @ ds))"

fun stream_double :: "fl \<Rightarrow> string" where
  "stream_double F_NaN = ''nan''"
| "stream_double F_PosInf = ''inf''"
| "stream_double F_NegInf = ''-inf''"
| "stream_double F_NegZero = ''-0''"
| "stream_double (F_Fin q) = (if q = 0 then ''0''
     else (if q < 0 then ''-'' else []) @ show_general 17 \<bar>q\<bar>)"

end
