(* ===== verification/Point_Cloud.thy ===== *)
theory Point_Cloud
  imports Geo_Core
begin

text \<open>
  The data model of \<^verbatim>\<open>usd-pointcloud-core\<close> (\<^verbatim>\<open>PointCloud.h\<close>, \<^verbatim>\<open>PointCloud.cpp\<close>): point
  attributes, chunks and columns, their validity, the attribute list of a chunk, the
  normalisation of Extra Bytes names, posed scans and collections.  A column
  \<^verbatim>\<open>std::vector<T>\<close> is a list; \<^verbatim>\<open>float\<close> and \<^verbatim>\<open>double\<close> elements are IEEE values; a size
  is a natural number, with the 64-bit bound written out where the code tests it.
\<close>

section \<open>Attributes and chunks\<close>

datatype PointAttributeType = Int32 | Int16 | UInt8 | UInt16 | UInt32 | UInt64
  | Float32 | Float64 | Float64Vec2 | Float64Vec3

record PointAttribute =
  attr_name :: string
  attr_type :: PointAttributeType

definition attribute :: "string \<Rightarrow> PointAttributeType \<Rightarrow> PointAttribute" where
  "attribute n t = \<lparr>attr_name = n, attr_type = t\<rparr>"

definition PointAttribute_IsValid :: "PointAttribute \<Rightarrow> bool" where
  "PointAttribute_IsValid a \<longleftrightarrow> attr_name a \<noteq> []"

record PointChunk =
  chunk_pointCount :: nat
  chunk_bounds :: SpatialBounds
  chunk_attributes :: "PointAttribute list"

definition empty_chunk :: PointChunk where
  "empty_chunk = \<lparr>chunk_pointCount = 0, chunk_bounds = SpatialBounds_Empty, chunk_attributes = []\<rparr>"

primrec names_unique :: "PointAttribute list \<Rightarrow> bool" where
  "names_unique [] = True"
| "names_unique (first # rest) =
     (\<not> list_ex (\<lambda>other. attr_name other = attr_name first) rest \<and> names_unique rest)"

definition PointChunk_IsValid :: "PointChunk \<Rightarrow> bool" where
  "PointChunk_IsValid c \<longleftrightarrow>
     (if chunk_pointCount c = 0
      then \<not> SpatialBounds_IsValid (chunk_bounds c) \<and> chunk_attributes c = []
      else SpatialBounds_IsValid (chunk_bounds c) \<and>
           list_all PointAttribute_IsValid (chunk_attributes c) \<and>
           names_unique (chunk_attributes c))"

lemma names_unique_distinct: "names_unique as \<longleftrightarrow> distinct (map attr_name as)"
proof (induction as)
  case (Cons a as)
  have "list_ex (\<lambda>other. attr_name other = attr_name a) as \<longleftrightarrow> attr_name a \<in> attr_name ` set as"
    by (simp add: list_ex_iff image_iff) metis
  with Cons show ?case by simp
qed simp

section \<open>Point columns\<close>

record PointData =
  positions :: "Vec3d list"
  intensity :: "u16 list"
  returnNumber :: "u8 list"
  numberOfReturns :: "u8 list"
  classification :: "u8 list"
  classificationFlags :: "u8 list"
  scannerChannel :: "u8 list"
  scanDirectionFlag :: "u8 list"
  edgeOfFlightLine :: "u8 list"
  userData :: "u8 list"
  scanAngle :: "u16 list"
  pointSourceId :: "u16 list"
  red :: "u16 list"
  green :: "u16 list"
  blue :: "u16 list"
  colorBitDepth :: nat
  nir :: "u16 list"
  gpsTime :: "fl list"
  waveformDescriptorIndex :: "u8 list"
  waveformDataOffset :: "u64 list"
  waveformPacketSize :: "u32 list"
  returnPointWaveformLocation :: "fl list"
  waveformXt :: "fl list"
  waveformYt :: "fl list"
  waveformZt :: "fl list"
  waveformDataExternal :: "u8 list"
  waveformDataFile :: string
  extraByteNames :: "string list"
  extraByteComponentCounts :: "nat list"
  extraBytes :: "fl list list"

definition empty_data :: PointData where
  "empty_data = \<lparr>positions = [], intensity = [], returnNumber = [], numberOfReturns = [],
     classification = [], classificationFlags = [], scannerChannel = [], scanDirectionFlag = [],
     edgeOfFlightLine = [], userData = [], scanAngle = [], pointSourceId = [], red = [],
     green = [], blue = [], colorBitDepth = 16, nir = [], gpsTime = [],
     waveformDescriptorIndex = [], waveformDataOffset = [], waveformPacketSize = [],
     returnPointWaveformLocation = [], waveformXt = [], waveformYt = [], waveformZt = [],
     waveformDataExternal = [], waveformDataFile = [], extraByteNames = [],
     extraByteComponentCounts = [], extraBytes = []\<rparr>"

definition HasPointCountOrIsEmpty :: "'a list \<Rightarrow> nat \<Rightarrow> bool" where
  "HasPointCountOrIsEmpty values pointCount \<longleftrightarrow> values = [] \<or> length values = pointCount"

definition component_count :: "PointData \<Rightarrow> nat \<Rightarrow> nat" where
  "component_count d index =
     (if extraByteComponentCounts d = [] then 1 else extraByteComponentCounts d ! index)"

definition extra_values_valid :: "nat \<Rightarrow> nat \<Rightarrow> fl list \<Rightarrow> bool" where
  "extra_values_valid pointCount componentCount values \<longleftrightarrow>
     1 \<le> componentCount \<and> componentCount \<le> 3 \<and>
     (values = [] \<or> (pointCount \<le> u64_max div componentCount \<and>
                    length values = pointCount * componentCount))"

definition extra_bytes_valid :: "PointData \<Rightarrow> bool" where
  "extra_bytes_valid d \<longleftrightarrow>
     (extraByteComponentCounts d = [] \<or>
      length (extraByteComponentCounts d) = length (extraBytes d)) \<and>
     list_all (\<lambda>index. extra_values_valid (length (positions d)) (component_count d index)
        (extraBytes d ! index)) [0..<length (extraBytes d)]"

definition PointData_IsValid :: "PointData \<Rightarrow> bool" where
  "PointData_IsValid d \<longleftrightarrow>
     (let n = length (positions d) in
      (colorBitDepth d = 8 \<or> colorBitDepth d = 16) \<and>
      HasPointCountOrIsEmpty (intensity d) n \<and>
      HasPointCountOrIsEmpty (returnNumber d) n \<and>
      HasPointCountOrIsEmpty (numberOfReturns d) n \<and>
      HasPointCountOrIsEmpty (classification d) n \<and>
      HasPointCountOrIsEmpty (classificationFlags d) n \<and>
      HasPointCountOrIsEmpty (scannerChannel d) n \<and>
      HasPointCountOrIsEmpty (scanDirectionFlag d) n \<and>
      HasPointCountOrIsEmpty (edgeOfFlightLine d) n \<and>
      HasPointCountOrIsEmpty (userData d) n \<and>
      HasPointCountOrIsEmpty (scanAngle d) n \<and>
      HasPointCountOrIsEmpty (pointSourceId d) n \<and>
      HasPointCountOrIsEmpty (red d) n \<and>
      HasPointCountOrIsEmpty (green d) n \<and>
      HasPointCountOrIsEmpty (blue d) n \<and>
      HasPointCountOrIsEmpty (nir d) n \<and>
      HasPointCountOrIsEmpty (gpsTime d) n \<and>
      HasPointCountOrIsEmpty (waveformDescriptorIndex d) n \<and>
      HasPointCountOrIsEmpty (waveformDataOffset d) n \<and>
      HasPointCountOrIsEmpty (waveformPacketSize d) n \<and>
      HasPointCountOrIsEmpty (returnPointWaveformLocation d) n \<and>
      HasPointCountOrIsEmpty (waveformXt d) n \<and>
      HasPointCountOrIsEmpty (waveformYt d) n \<and>
      HasPointCountOrIsEmpty (waveformZt d) n \<and>
      HasPointCountOrIsEmpty (waveformDataExternal d) n \<and>
      length (extraByteNames d) = length (extraBytes d) \<and>
      extra_bytes_valid d \<and>
      (returnNumber d = [] \<longleftrightarrow> numberOfReturns d = []) \<and>
      (red d = [] \<longleftrightarrow> green d = []) \<and> (red d = [] \<longleftrightarrow> blue d = []) \<and>
      (waveformDescriptorIndex d = [] \<longleftrightarrow> waveformDataOffset d = []) \<and>
      (waveformDescriptorIndex d = [] \<longleftrightarrow> waveformPacketSize d = []) \<and>
      (waveformDescriptorIndex d = [] \<longleftrightarrow> returnPointWaveformLocation d = []) \<and>
      (waveformDescriptorIndex d = [] \<longleftrightarrow> waveformXt d = []) \<and>
      (waveformDescriptorIndex d = [] \<longleftrightarrow> waveformYt d = []) \<and>
      (waveformDescriptorIndex d = [] \<longleftrightarrow> waveformZt d = []) \<and>
      (waveformDescriptorIndex d = [] \<longleftrightarrow> waveformDataExternal d = []))"

record PointCloudAsset =
  asset_reference :: GeoReference
  asset_bounds :: SpatialBounds
  asset_chunk :: PointChunk
  asset_data :: PointData

definition PointCloudAsset_IsValid :: "PointCloudAsset \<Rightarrow> bool" where
  "PointCloudAsset_IsValid a \<longleftrightarrow>
     GeoReference_IsValid (asset_reference a) \<and> SpatialBounds_IsValid (asset_bounds a) \<and>
     PointData_IsValid (asset_data a) \<and> PointChunk_IsValid (asset_chunk a) \<and>
     chunk_pointCount (asset_chunk a) = length (positions (asset_data a))"

section \<open>Extra Bytes names\<close>

definition IsAsciiDigit :: "char \<Rightarrow> bool" where
  "IsAsciiDigit c \<longleftrightarrow> 48 \<le> (of_char c :: nat) \<and> (of_char c :: nat) \<le> 57"

definition IsAsciiAlphaNumeric :: "char \<Rightarrow> bool" where
  "IsAsciiAlphaNumeric c \<longleftrightarrow> (let n = (of_char c :: nat) in
     (65 \<le> n \<and> n \<le> 90) \<or> (97 \<le> n \<and> n \<le> 122) \<or> (48 \<le> n \<and> n \<le> 57))"

definition NormalizeExtraByteName :: "string \<Rightarrow> string" where
  "NormalizeExtraByteName name =
     (let result = map (\<lambda>c. if IsAsciiAlphaNumeric c \<or> c = CHR ''_'' then c else CHR ''_'') name
      in if result = [] then ''extra''
         else if IsAsciiDigit (hd result) then CHR ''_'' # result
         else result)"

definition ReservedPointAttributeNames :: "string list" where
  "ReservedPointAttributeNames =
     [''xyz'', ''intensity'', ''returnNumber'', ''numberOfReturns'',
      ''classification'', ''classificationFlags'', ''scannerChannel'',
      ''scanDirectionFlag'', ''edgeOfFlightLine'', ''userData'',
      ''scanAngle'', ''pointSourceId'', ''red'', ''green'', ''blue'',
      ''nir'', ''gpsTime'', ''waveformDescriptorIndex'',
      ''waveformDataOffset'', ''waveformPacketSize'',
      ''returnPointWaveformLocation'', ''waveformXt'', ''waveformYt'',
      ''waveformZt'', ''waveformDataExternal'', ''waveformDataFile'']"

definition suffixed_name :: "string \<Rightarrow> nat \<Rightarrow> string" where
  "suffixed_name base suffix = base @ ''_'' @ show_nat suffix"

lemma suffixed_name_eq_iff [simp]: "suffixed_name b i = suffixed_name b j \<longleftrightarrow> i = j"
  by (simp add: suffixed_name_def)

text \<open>
  The search loop for an unused name.  It ends because only finitely many names are in use
  and the candidates are pairwise different.
\<close>

function unused_suffix :: "string list \<Rightarrow> string \<Rightarrow> nat \<Rightarrow> string" where
  "unused_suffix used base suffix =
     (if suffixed_name base suffix \<in> set used then unused_suffix used base (Suc suffix)
      else suffixed_name base suffix)"
  by pat_completeness auto
termination
proof (relation "measure (\<lambda>(used, base, suffix). card {i. suffix \<le> i \<and> suffixed_name base i \<in> set used})")
  fix used base suffix
  assume a: "suffixed_name base suffix \<in> set used"
  have "finite {i. suffix \<le> i \<and> suffixed_name base i \<in> set used}"
    by (rule finite_subset [of _ "{i. suffixed_name base i \<in> set used}"])
      (auto intro!: finite_vimageI [unfolded vimage_def] simp: inj_def)
  moreover have "suffix \<in> {i. suffix \<le> i \<and> suffixed_name base i \<in> set used}"
    using a by simp
  moreover have "{i. Suc suffix \<le> i \<and> suffixed_name base i \<in> set used}
      = {i. suffix \<le> i \<and> suffixed_name base i \<in> set used} - {suffix}" by auto
  ultimately have "card {i. Suc suffix \<le> i \<and> suffixed_name base i \<in> set used}
      < card {i. suffix \<le> i \<and> suffixed_name base i \<in> set used}"
    by (metis (no_types, lifting) card_Diff1_less)
  then show "((used, base, Suc suffix), (used, base, suffix))
      \<in> measure (\<lambda>(used, base, suffix). card {i. suffix \<le> i \<and> suffixed_name base i \<in> set used})"
    by simp
qed simp

declare unused_suffix.simps [simp del]

definition unused_name :: "string list \<Rightarrow> string \<Rightarrow> string" where
  "unused_name used base = (if base \<in> set used then unused_suffix used base 2 else base)"

primrec normalize_names :: "string list \<Rightarrow> string list \<Rightarrow> string list" where
  "normalize_names used [] = []"
| "normalize_names used (name # names) =
     (let normalizedName = unused_name used (NormalizeExtraByteName name)
      in normalizedName # normalize_names (normalizedName # used) names)"

definition NormalizeExtraByteNames :: "string list \<Rightarrow> string list" where
  "NormalizeExtraByteNames names = normalize_names ReservedPointAttributeNames names"

section \<open>The attribute list of a chunk\<close>

definition fixed_attributes :: "PointData \<Rightarrow> (string \<times> PointAttributeType \<times> nat) list" where
  "fixed_attributes d =
     [(''intensity'', UInt16, length (intensity d)),
      (''returnNumber'', UInt8, length (returnNumber d)),
      (''numberOfReturns'', UInt8, length (numberOfReturns d)),
      (''classification'', UInt8, length (classification d)),
      (''classificationFlags'', UInt8, length (classificationFlags d)),
      (''scannerChannel'', UInt8, length (scannerChannel d)),
      (''scanDirectionFlag'', UInt8, length (scanDirectionFlag d)),
      (''edgeOfFlightLine'', UInt8, length (edgeOfFlightLine d)),
      (''userData'', UInt8, length (userData d)),
      (''scanAngle'', Int16, length (scanAngle d)),
      (''pointSourceId'', UInt16, length (pointSourceId d)),
      (''red'', UInt16, length (red d)),
      (''green'', UInt16, length (green d)),
      (''blue'', UInt16, length (blue d)),
      (''nir'', UInt16, length (nir d)),
      (''gpsTime'', Float64, length (gpsTime d)),
      (''waveformDescriptorIndex'', UInt8, length (waveformDescriptorIndex d)),
      (''waveformDataOffset'', UInt64, length (waveformDataOffset d)),
      (''waveformPacketSize'', UInt32, length (waveformPacketSize d)),
      (''returnPointWaveformLocation'', Float32, length (returnPointWaveformLocation d)),
      (''waveformXt'', Float32, length (waveformXt d)),
      (''waveformYt'', Float32, length (waveformYt d)),
      (''waveformZt'', Float32, length (waveformZt d)),
      (''waveformDataExternal'', UInt8, length (waveformDataExternal d))]"

definition add_attribute :: "string \<times> PointAttributeType \<times> nat \<Rightarrow> PointAttribute list" where
  "add_attribute nts = (case nts of (n, t, sz) \<Rightarrow> if sz \<noteq> 0 then [attribute n t] else [])"

definition extra_attribute :: "PointData \<Rightarrow> string list \<Rightarrow> nat \<Rightarrow> PointAttribute list" where
  "extra_attribute d names index =
     (if extraBytes d ! index \<noteq> [] \<and> index < length names then
        (let componentCount =
           (if extraByteComponentCounts d = [] then 1
            else if index < length (extraByteComponentCounts d) then extraByteComponentCounts d ! index
            else 0)
         in if componentCount < 1 \<or> 3 < componentCount then []
            else [attribute (names ! index)
                   (if componentCount = 1 then Float64
                    else if componentCount = 2 then Float64Vec2 else Float64Vec3)])
      else [])"

definition MakePointChunk :: "PointData \<Rightarrow> SpatialBounds \<Rightarrow> PointChunk" where
  "MakePointChunk d b =
     (let names = NormalizeExtraByteNames (extraByteNames d)
      in \<lparr>chunk_pointCount = length (positions d), chunk_bounds = b,
          chunk_attributes = concat (map add_attribute (fixed_attributes d)) @
            concat (map (extra_attribute d names) [0..<length (extraBytes d)])\<rparr>)"

section \<open>Ranges and read options\<close>

record PointRange =
  firstPoint :: nat
  range_pointCount :: nat

definition PointRange_IsValid :: "PointRange \<Rightarrow> bool" where
  "PointRange_IsValid r \<longleftrightarrow>
     range_pointCount r = 0 \<or> firstPoint r \<le> u64_max - range_pointCount r"

record PointReadOptions =
  chunkPointLimit :: nat
  memoryBudgetBytes :: nat
  range :: PointRange
  opt_bounds :: "SpatialBounds option"
  classifications :: "nat list"

definition default_read_options :: PointReadOptions where
  "default_read_options = \<lparr>chunkPointLimit = 65536, memoryBudgetBytes = 64 * 1024 * 1024,
     range = \<lparr>firstPoint = 0, range_pointCount = 0\<rparr>, opt_bounds = None, classifications = []\<rparr>"

definition PointReadOptions_IsValid :: "PointReadOptions \<Rightarrow> bool" where
  "PointReadOptions_IsValid p \<longleftrightarrow>
     chunkPointLimit p \<noteq> 0 \<and> memoryBudgetBytes p \<noteq> 0 \<and> PointRange_IsValid (range p) \<and>
     (case opt_bounds p of None \<Rightarrow> True | Some b \<Rightarrow> SpatialBounds_IsValid b)"

section \<open>Posed scans and collections\<close>

record PointCloudScan =
  scan_id :: string
  scan_asset :: PointCloudAsset
  pose :: "fl list"

definition identity_pose :: "fl list" where
  "identity_pose = [F_Fin 1, fzero, fzero, fzero, fzero, F_Fin 1, fzero, fzero,
     fzero, fzero, F_Fin 1, fzero, fzero, fzero, fzero, F_Fin 1]"

record PointCloudCollection =
  coll_reference :: GeoReference
  coll_bounds :: SpatialBounds
  scans :: "PointCloudScan list"

definition kPoseTolerance :: fl where
  "kPoseTolerance = fround binary64 False (1 / 1000000000)"

definition feq_vec :: "Vec3d \<Rightarrow> Vec3d \<Rightarrow> bool" where
  "feq_vec a b \<longleftrightarrow> feq (vx a) (vx b) \<and> feq (vy a) (vy b) \<and> feq (vz a) (vz b)"

definition HasSameGeoReference :: "GeoReference \<Rightarrow> GeoReference \<Rightarrow> bool" where
  "HasSameGeoReference a b \<longleftrightarrow>
     epsgCode a = epsgCode b \<and> wkt a = wkt b \<and> projJson a = projJson b \<and>
     linearUnit a = linearUnit b \<and> sourceUpAxis a = sourceUpAxis b \<and>
     stageUpAxis a = stageUpAxis b \<and> feq_vec (localOrigin a) (localOrigin b)"

definition pose_dot :: "fl list \<Rightarrow> nat \<Rightarrow> nat \<Rightarrow> fl" where
  "pose_dot p firstRow secondRow =
     foldl (\<lambda>result column. dadd result (dmul (p ! (firstRow * 4 + column)) (p ! (secondRow * 4 + column))))
       fzero [0, 1, 2]"

definition pose_determinant :: "fl list \<Rightarrow> fl" where
  "pose_determinant p =
     dadd (dsub (dmul (p ! 0) (dsub (dmul (p ! 5) (p ! 10)) (dmul (p ! 6) (p ! 9))))
                (dmul (p ! 1) (dsub (dmul (p ! 4) (p ! 10)) (dmul (p ! 6) (p ! 8)))))
          (dmul (p ! 2) (dsub (dmul (p ! 4) (p ! 9)) (dmul (p ! 5) (p ! 8))))"

definition beyond_tolerance :: "fl \<Rightarrow> bool" where
  "beyond_tolerance x \<longleftrightarrow> flt kPoseTolerance (fabs x)"

definition IsRigidPose :: "fl list \<Rightarrow> bool" where
  "IsRigidPose p \<longleftrightarrow>
     (if \<not> list_all is_finite p \<or> beyond_tolerance (p ! 12) \<or> beyond_tolerance (p ! 13) \<or>
         beyond_tolerance (p ! 14) \<or> beyond_tolerance (dsub (p ! 15) (F_Fin 1))
      then False
      else if list_ex (\<lambda>row. beyond_tolerance (dsub (pose_dot p row row) (F_Fin 1)) \<or>
                list_ex (\<lambda>otherRow. beyond_tolerance (pose_dot p row otherRow)) [Suc row..<3]) [0, 1, 2]
      then False
      else fle (fabs (dsub (pose_determinant p) (F_Fin 1))) kPoseTolerance)"

definition pose_row :: "fl list \<Rightarrow> nat \<Rightarrow> Vec3d \<Rightarrow> fl" where
  "pose_row p i v = dadd (dadd (dadd (dmul (p ! i) (vx v)) (dmul (p ! (i + 1)) (vy v)))
     (dmul (p ! (i + 2)) (vz v))) (p ! (i + 3))"

definition ApplyPose :: "fl list \<Rightarrow> Vec3d \<Rightarrow> Vec3d" where
  "ApplyPose p v = vec (pose_row p 0 v) (pose_row p 4 v) (pose_row p 8 v)"

definition bounds_tolerance :: "SpatialBounds \<Rightarrow> Vec3d \<Rightarrow> fl" where
  "bounds_tolerance c t = dmul kPoseTolerance
     (foldl fmax (F_Fin 1) (map fabs [vx (minimum c), vy (minimum c), vz (minimum c),
        vx (maximum c), vy (maximum c), vz (maximum c), vx t, vy t, vz t]))"

definition corner_outside :: "SpatialBounds \<Rightarrow> fl list \<Rightarrow> Vec3d \<Rightarrow> bool" where
  "corner_outside c p corner =
     (let t = ApplyPose p corner; tolerance = bounds_tolerance c t in
      flt (vx t) (dsub (vx (minimum c)) tolerance) \<or> flt (vy t) (dsub (vy (minimum c)) tolerance) \<or>
      flt (vz t) (dsub (vz (minimum c)) tolerance) \<or> flt (dadd (vx (maximum c)) tolerance) (vx t) \<or>
      flt (dadd (vy (maximum c)) tolerance) (vy t) \<or> flt (dadd (vz (maximum c)) tolerance) (vz t))"

definition ContainsTransformedBounds :: "SpatialBounds \<Rightarrow> PointCloudScan \<Rightarrow> bool" where
  "ContainsTransformedBounds container scan \<longleftrightarrow>
     \<not> list_ex (corner_outside container (pose scan)) (bounds_corners (asset_bounds (scan_asset scan)))"

definition PointCloudScan_IsValid :: "PointCloudScan \<Rightarrow> bool" where
  "PointCloudScan_IsValid s \<longleftrightarrow>
     scan_id s \<noteq> [] \<and> PointCloudAsset_IsValid (scan_asset s) \<and> IsRigidPose (pose s)"

fun scans_valid :: "PointCloudCollection \<Rightarrow> string list \<Rightarrow> PointCloudScan list \<Rightarrow> bool" where
  "scans_valid c ids [] = True"
| "scans_valid c ids (scan # rest) =
     (if \<not> PointCloudScan_IsValid scan \<or>
         \<not> HasSameGeoReference (coll_reference c) (asset_reference (scan_asset scan)) \<or>
         scan_id scan \<in> set ids \<or>
         \<not> ContainsTransformedBounds (coll_bounds c) scan
      then False else scans_valid c (scan_id scan # ids) rest)"

definition PointCloudCollection_IsValid :: "PointCloudCollection \<Rightarrow> bool" where
  "PointCloudCollection_IsValid c \<longleftrightarrow>
     (if \<not> GeoReference_IsValid (coll_reference c) \<or> \<not> SpatialBounds_IsValid (coll_bounds c) \<or>
         scans c = []
      then False else scans_valid c [] (scans c))"

section \<open>Normalised names are unique identifiers\<close>

definition is_identifier :: "string \<Rightarrow> bool" where
  "is_identifier s \<longleftrightarrow> s \<noteq> [] \<and> (\<forall>c \<in> set s. IsAsciiAlphaNumeric c \<or> c = CHR ''_'') \<and>
     \<not> IsAsciiDigit (hd s)"

lemma identifier_NormalizeExtraByteName: "is_identifier (NormalizeExtraByteName name)"
  by (auto simp: is_identifier_def NormalizeExtraByteName_def Let_def IsAsciiAlphaNumeric_def
      IsAsciiDigit_def)

lemma identifier_suffixed: "is_identifier base \<Longrightarrow> is_identifier (suffixed_name base n)"
  using show_nat_digits [of n]
  by (auto simp: is_identifier_def suffixed_name_def list_all_iff is_digit_def
      IsAsciiAlphaNumeric_def Let_def)

lemma unused_suffix_fresh: "unused_suffix used base k \<notin> set used"
  by (induction used base k rule: unused_suffix.induct) (simp add: unused_suffix.simps)

lemma unused_suffix_form: "\<exists>j \<ge> k. unused_suffix used base k = suffixed_name base j"
proof (induction used base k rule: unused_suffix.induct)
  case (1 used base k)
  then show ?case
    by (cases "suffixed_name base k \<in> set used")
      (auto simp: unused_suffix.simps [of used base k] intro: Suc_leD)
qed

lemma unused_name_fresh: "unused_name used base \<notin> set used"
  by (simp add: unused_name_def unused_suffix_fresh)

lemma identifier_unused_name: "is_identifier base \<Longrightarrow> is_identifier (unused_name used base)"
  using unused_suffix_form [of 2 used base] by (auto simp: unused_name_def identifier_suffixed)

lemma normalize_names_props:
  "length (normalize_names used names) = length names \<and>
   distinct (normalize_names used names) \<and>
   set (normalize_names used names) \<inter> set used = {} \<and>
   list_all is_identifier (normalize_names used names)"
proof (induction names arbitrary: used)
  case Nil
  then show ?case by simp
next
  case (Cons name names)
  let ?n = "unused_name used (NormalizeExtraByteName name)"
  show ?case
    using Cons.IH [of "?n # used"] unused_name_fresh [of used "NormalizeExtraByteName name"]
      identifier_unused_name [OF identifier_NormalizeExtraByteName, of used name]
    by (auto simp: Let_def)
qed

lemmas normalized_names =
  normalize_names_props [of ReservedPointAttributeNames, folded NormalizeExtraByteNames_def]

text \<open>
  Claim C16: The normalised Extra Bytes names are as many as the given names, pairwise distinct,
  none of them a reserved attribute name, and each an ASCII identifier (letters, digits and
  underscores, not starting with a digit), whatever bytes the given names hold.
\<close>

theorem normalized_names_unique_identifiers:
  "length (NormalizeExtraByteNames names) = length names \<and>
   distinct (NormalizeExtraByteNames names) \<and>
   set (NormalizeExtraByteNames names) \<inter> set ReservedPointAttributeNames = {} \<and>
   list_all is_identifier (NormalizeExtraByteNames names)"
  by (rule normalized_names)

section \<open>The chunk description of valid data is valid\<close>

lemma add_attribute_names:
  "map attr_name (concat (map add_attribute xs)) = map fst (filter (\<lambda>x. snd (snd x) \<noteq> 0) xs)"
  by (induction xs) (auto simp: add_attribute_def attribute_def split: prod.splits)

lemma fixed_attribute_names:
  "distinct (map fst (fixed_attributes d))"
  "set (map fst (fixed_attributes d)) \<subseteq> set ReservedPointAttributeNames"
  "[] \<notin> set (map fst (fixed_attributes d))"
  by (simp_all add: fixed_attributes_def ReservedPointAttributeNames_def)

lemma extra_attribute_names:
  "map attr_name (extra_attribute d names i) = [] \<or>
   (i < length names \<and> map attr_name (extra_attribute d names i) = [names ! i])"
  by (simp add: extra_attribute_def attribute_def Let_def)

lemma extra_attributes_names:
  assumes "distinct names"
  shows "distinct (map attr_name (concat (map (extra_attribute d names) [0..<n]))) \<and>
    set (map attr_name (concat (map (extra_attribute d names) [0..<n]))) \<subseteq> set (take n names)"
proof (induction n)
  case 0
  then show ?case by simp
next
  case (Suc n)
  let ?A = "map attr_name (concat (map (extra_attribute d names) [0..<n]))"
  have new: "n < length names \<Longrightarrow> names ! n \<notin> set (take n names)"
    using assms by (auto simp: distinct_conv_nth in_set_conv_nth)
  have split: "map attr_name (concat (map (extra_attribute d names) [0..<Suc n])) =
      ?A @ map attr_name (extra_attribute d names n)" by simp
  from extra_attribute_names [of d names n] show ?case
  proof
    assume "map attr_name (extra_attribute d names n) = []"
    then show ?thesis using Suc set_take_subset_set_take [of n "Suc n" names] unfolding split by auto
  next
    assume e: "n < length names \<and> map attr_name (extra_attribute d names n) = [names ! n]"
    then have "set (take (Suc n) names) = insert (names ! n) (set (take n names))"
      by (simp add: take_Suc_conv_app_nth)
    then show ?thesis using e new Suc unfolding split by auto
  qed
qed

lemma chunk_of_valid_data:
  assumes "PointData_IsValid d" "positions d \<noteq> []" "SpatialBounds_IsValid b"
  shows "PointChunk_IsValid (MakePointChunk d b) \<and>
    chunk_pointCount (MakePointChunk d b) = length (positions d)"
proof -
  let ?names = "NormalizeExtraByteNames (extraByteNames d)"
  let ?F = "concat (map add_attribute (fixed_attributes d))"
  let ?E = "concat (map (extra_attribute d ?names) [0..<length (extraBytes d)])"
  note nn = normalized_names [of "extraByteNames d"]
  note e = extra_attributes_names [of ?names d "length (extraBytes d)"]
  have F: "distinct (map attr_name ?F)" "set (map attr_name ?F) \<subseteq> set ReservedPointAttributeNames"
    "[] \<notin> set (map attr_name ?F)"
    using fixed_attribute_names [of d] unfolding add_attribute_names
    by (auto simp: distinct_map_filter)
  have E: "distinct (map attr_name ?E)" "set (map attr_name ?E) \<subseteq> set ?names"
    using e nn set_take_subset [of "length (extraBytes d)" ?names] by blast+
  then have "[] \<notin> set (map attr_name ?E)"
    using nn by (auto simp: list_all_iff is_identifier_def)
  with F have "list_all PointAttribute_IsValid (?F @ ?E)"
    unfolding list_all_iff PointAttribute_IsValid_def by (metis Un_iff image_eqI set_append set_map)
  moreover have "distinct (map attr_name (?F @ ?E))"
    using F E nn unfolding map_append distinct_append by blast
  ultimately show ?thesis
    using assms(2,3)
    by (simp add: PointChunk_IsValid_def MakePointChunk_def Let_def names_unique_distinct)
qed

text \<open>
  Claim C17: The chunk description made from valid, non-empty point data and valid bounds is
  itself valid: it counts the points, and its attributes have non-empty, pairwise distinct
  names, Extra Bytes with clashing or reserved names included.
\<close>

theorem make_chunk_valid:
  assumes "PointData_IsValid d" "positions d \<noteq> []" "SpatialBounds_IsValid b"
  shows "PointChunk_IsValid (MakePointChunk d b) \<and>
    chunk_pointCount (MakePointChunk d b) = length (positions d)"
  using assms by (rule chunk_of_valid_data)

definition sample_data :: PointData where
  "sample_data = empty_data\<lparr>positions := [vec (F_Fin 1) (F_Fin 2) (F_Fin 3), vec (F_Fin 4) (F_Fin 5) (F_Fin 6)],
     intensity := [7, 9], returnNumber := [1, 1], numberOfReturns := [1, 2],
     extraByteNames := [''red'', ''red''], extraBytes := [[F_Fin 1, F_Fin 2], [F_Fin 3, F_Fin 4]]\<rparr>"

definition sample_bounds :: SpatialBounds where
  "sample_bounds = bounds_of (vec (F_Fin 1) (F_Fin 2) (F_Fin 3)) (vec (F_Fin 4) (F_Fin 5) (F_Fin 6))"

lemma sample_data_valid: "PointData_IsValid sample_data"
  by (simp add: sample_data_def empty_data_def PointData_IsValid_def HasPointCountOrIsEmpty_def
      extra_bytes_valid_def extra_values_valid_def component_count_def upt_rec)

lemma sample_bounds_valid: "SpatialBounds_IsValid sample_bounds"
  by code_simp

theorem make_chunk_valid_witness:
  "PointChunk_IsValid (MakePointChunk sample_data sample_bounds) \<and>
   chunk_pointCount (MakePointChunk sample_data sample_bounds) = 2"
  using make_chunk_valid [OF sample_data_valid _ sample_bounds_valid]
  by (simp add: sample_data_def)

section \<open>What a valid collection guarantees\<close>

lemma scans_valid_iff:
  "scans_valid c ids ss \<longleftrightarrow>
     (\<forall>s \<in> set ss. PointCloudScan_IsValid s \<and>
        HasSameGeoReference (coll_reference c) (asset_reference (scan_asset s)) \<and>
        ContainsTransformedBounds (coll_bounds c) s \<and> scan_id s \<notin> set ids) \<and>
     distinct (map scan_id ss)"
proof (induction c ids ss rule: scans_valid.induct)
  case (1 c ids)
  show ?case by simp
next
  case (2 c ids scan rest)
  have "(\<forall>s \<in> set rest. scan_id s \<notin> set (scan_id scan # ids)) \<longleftrightarrow>
      (\<forall>s \<in> set rest. scan_id s \<notin> set ids) \<and> scan_id scan \<notin> set (map scan_id rest)"
    by (simp add: image_iff) metis
  then show ?case using 2 unfolding scans_valid.simps by (simp split: if_splits) blast
qed

lemma collection_valid_iff:
  "PointCloudCollection_IsValid c \<longleftrightarrow>
     GeoReference_IsValid (coll_reference c) \<and> SpatialBounds_IsValid (coll_bounds c) \<and>
     scans c \<noteq> [] \<and> distinct (map scan_id (scans c)) \<and>
     (\<forall>s \<in> set (scans c). scan_id s \<noteq> [] \<and> PointCloudAsset_IsValid (scan_asset s) \<and>
        IsRigidPose (pose s) \<and>
        HasSameGeoReference (coll_reference c) (asset_reference (scan_asset s)) \<and>
        (\<forall>corner \<in> set (bounds_corners (asset_bounds (scan_asset s))).
           \<not> corner_outside (coll_bounds c) (pose s) corner))"
  by (auto simp: PointCloudCollection_IsValid_def scans_valid_iff PointCloudScan_IsValid_def
      ContainsTransformedBounds_def list_ex_iff)

lemma identity_pose_rigid: "IsRigidPose identity_pose"
  by code_simp

definition sample_asset :: PointCloudAsset where
  "sample_asset = \<lparr>asset_reference = sample_reference, asset_bounds = sample_bounds,
     asset_chunk = MakePointChunk sample_data sample_bounds, asset_data = sample_data\<rparr>"

definition sample_scan :: PointCloudScan where
  "sample_scan = \<lparr>scan_id = ''scan-0'', scan_asset = sample_asset, pose = identity_pose\<rparr>"

definition sample_collection :: PointCloudCollection where
  "sample_collection = \<lparr>coll_reference = sample_reference, coll_bounds = sample_bounds,
     scans = [sample_scan]\<rparr>"

lemma sample_asset_valid: "PointCloudAsset_IsValid sample_asset"
proof -
  have "positions sample_data \<noteq> []" by (simp add: sample_data_def)
  then show ?thesis
    using chunk_of_valid_data [OF sample_data_valid _ sample_bounds_valid]
    by (simp add: PointCloudAsset_IsValid_def sample_asset_def sample_reference_valid
        sample_bounds_valid sample_data_valid)
qed

lemma sample_corners_posed:
  "list_all (\<lambda>v. ApplyPose identity_pose v = v) (bounds_corners sample_bounds)"
  by code_simp

lemma sample_tolerance:
  "list_all (\<lambda>v. bounds_tolerance sample_bounds v = F_Fin (226673591177743 / 37778931862957161709568))
     (bounds_corners sample_bounds)"
proof -
  have "kPoseTolerance = F_Fin (4835703278458517 / 4835703278458516698824704)" by code_simp
  moreover have "dmul (F_Fin (4835703278458517 / 4835703278458516698824704)) (F_Fin 6) = F_Fin (226673591177743 / 37778931862957161709568)"
    by code_simp
  moreover have "list_all (\<lambda>t. foldl fmax (F_Fin 1) (map fabs
      [vx (minimum sample_bounds), vy (minimum sample_bounds), vz (minimum sample_bounds),
       vx (maximum sample_bounds), vy (maximum sample_bounds), vz (maximum sample_bounds),
       vx t, vy t, vz t]) = F_Fin 6) (bounds_corners sample_bounds)"
    by code_simp
  ultimately show ?thesis by (simp add: bounds_tolerance_def list_all_iff)
qed

definition outside_by :: "fl \<Rightarrow> SpatialBounds \<Rightarrow> Vec3d \<Rightarrow> bool" where
  "outside_by tolerance c t \<longleftrightarrow>
      flt (vx t) (dsub (vx (minimum c)) tolerance) \<or> flt (vy t) (dsub (vy (minimum c)) tolerance) \<or>
      flt (vz t) (dsub (vz (minimum c)) tolerance) \<or> flt (dadd (vx (maximum c)) tolerance) (vx t) \<or>
      flt (dadd (vy (maximum c)) tolerance) (vy t) \<or> flt (dadd (vz (maximum c)) tolerance) (vz t)"

lemma sample_tolerance_sums:
  "dsub (F_Fin 1) (F_Fin (226673591177743 / 37778931862957161709568)) = F_Fin (2251799800174449 / 2251799813685248)"
  "dsub (F_Fin 2) (F_Fin (226673591177743 / 37778931862957161709568)) = F_Fin (4503599613859697 / 2251799813685248)"
  "dsub (F_Fin 3) (F_Fin (226673591177743 / 37778931862957161709568)) = F_Fin (6755399427544945 / 2251799813685248)"
  "dadd (F_Fin 4) (F_Fin (226673591177743 / 37778931862957161709568)) = F_Fin (4503599634125895 / 1125899906842624)"
  "dadd (F_Fin 5) (F_Fin (226673591177743 / 37778931862957161709568)) = F_Fin (5629499540968519 / 1125899906842624)"
  "dadd (F_Fin 6) (F_Fin (226673591177743 / 37778931862957161709568)) = F_Fin (6755399447811143 / 1125899906842624)"
  by code_simp+

lemma sample_not_outside:
  "list_all (\<lambda>v. \<not> outside_by (F_Fin (226673591177743 / 37778931862957161709568)) sample_bounds v) (bounds_corners sample_bounds)"
  using sample_tolerance_sums by (simp add: outside_by_def sample_bounds_def bounds_corners_def)

lemma sample_corners_inside:
  "list_all (\<lambda>v. \<not> corner_outside sample_bounds identity_pose v) (bounds_corners sample_bounds)"
  using sample_not_outside sample_tolerance sample_corners_posed
  by (simp add: list_all_iff corner_outside_def outside_by_def Let_def)

lemma sample_reference_same: "HasSameGeoReference sample_reference sample_reference"
  by code_simp

lemma sample_collection_valid: "PointCloudCollection_IsValid sample_collection"
  using collection_valid_iff [of sample_collection] sample_corners_inside
  by (simp add: sample_collection_def sample_scan_def sample_asset_valid sample_reference_valid
      sample_bounds_valid identity_pose_rigid sample_reference_same list_all_iff)
    (simp add: sample_asset_def sample_reference_same sample_asset_valid [unfolded sample_asset_def])

end
