(* ===== verification/Lod.thy ===== *)
theory Lod
  imports Point_Cloud
begin

text \<open>
  Levels of detail (\<^verbatim>\<open>Lod.h\<close>, \<^verbatim>\<open>Lod.cpp\<close>): the hierarchy of a tile, its validity
  predicates and the validators that report what is wrong.  The main result is that the
  validators and the predicates agree.
\<close>

section \<open>Hierarchies and tiles\<close>

type_synonym PointTileId = TileId

record PointLodItem =
  item_index :: nat
  item_pointCount :: nat
  item_bounds :: SpatialBounds
  sourceRange :: PointRange
  spacing :: fl

record PointLodHierarchy =
  lod_bounds :: SpatialBounds
  items :: "PointLodItem list"
  defaultIndex :: nat
  screenSizeThresholds :: "fl list"

record PointTile =
  tile_id_of :: PointTileId
  tile_bounds :: SpatialBounds
  children :: "PointTileId list"
  lod :: PointLodHierarchy

definition empty_hierarchy :: PointLodHierarchy where
  "empty_hierarchy = \<lparr>lod_bounds = bounds_of zero_vec zero_vec, items = [], defaultIndex = 0,
     screenSizeThresholds = []\<rparr>"

definition SameBounds :: "SpatialBounds \<Rightarrow> SpatialBounds \<Rightarrow> bool" where
  "SameBounds l r \<longleftrightarrow> feq_vec (minimum l) (minimum r) \<and> feq_vec (maximum l) (maximum r)"

definition ContainsBounds :: "SpatialBounds \<Rightarrow> SpatialBounds \<Rightarrow> bool" where
  "ContainsBounds outer inner \<longleftrightarrow>
     fle (vx (minimum outer)) (vx (minimum inner)) \<and> fle (vy (minimum outer)) (vy (minimum inner)) \<and>
     fle (vz (minimum outer)) (vz (minimum inner)) \<and> fle (vx (maximum inner)) (vx (maximum outer)) \<and>
     fle (vy (maximum inner)) (vy (maximum outer)) \<and> fle (vz (maximum inner)) (vz (maximum outer))"

definition SameTileId :: "PointTileId \<Rightarrow> PointTileId \<Rightarrow> bool" where
  "SameTileId l r \<longleftrightarrow> level l = level r \<and> tx l = tx r \<and> ty l = ty r \<and> tz l = tz r"

definition threshold_bad :: "fl list \<Rightarrow> nat \<Rightarrow> bool" where
  "threshold_bad thresholds index \<longleftrightarrow>
     \<not> is_finite (thresholds ! index) \<or> fle (thresholds ! index) fzero \<or>
     (index \<noteq> 0 \<and> fle (thresholds ! (index - 1)) (thresholds ! index))"

definition ValidThresholds :: "fl list \<Rightarrow> bool" where
  "ValidThresholds thresholds \<longleftrightarrow> \<not> list_ex (threshold_bad thresholds) [0..<length thresholds]"

definition PointLodItem_IsValid :: "PointLodItem \<Rightarrow> bool" where
  "PointLodItem_IsValid i \<longleftrightarrow>
     item_pointCount i \<noteq> 0 \<and> SpatialBounds_IsValid (item_bounds i) \<and>
     PointRange_IsValid (sourceRange i) \<and> is_finite (spacing i) \<and> fle fzero (spacing i)"

definition item_bad :: "PointLodHierarchy \<Rightarrow> nat \<Rightarrow> bool" where
  "item_bad h index \<longleftrightarrow>
     (let item = items h ! index in
      \<not> PointLodItem_IsValid item \<or> item_index item \<noteq> index \<or>
      \<not> ContainsBounds (lod_bounds h) (item_bounds item) \<or>
      (index \<noteq> 0 \<and> item_pointCount (items h ! (index - 1)) < item_pointCount item))"

definition PointLodHierarchy_IsValid :: "PointLodHierarchy \<Rightarrow> bool" where
  "PointLodHierarchy_IsValid h \<longleftrightarrow>
     (if \<not> SpatialBounds_IsValid (lod_bounds h) \<or> items h = [] \<or>
         length (items h) \<le> defaultIndex h \<or>
         length (screenSizeThresholds h) + 1 \<noteq> length (items h) \<or>
         \<not> ValidThresholds (screenSizeThresholds h)
      then False
      else \<not> list_ex (item_bad h) [0..<length (items h)])"

definition child_bad :: "PointTileId list \<Rightarrow> nat \<Rightarrow> bool" where
  "child_bad cs index \<longleftrightarrow>
     \<not> TileId_IsValid (cs ! index) \<or> list_ex (\<lambda>previous. SameTileId (cs ! index) (cs ! previous)) [0..<index]"

definition PointTile_IsValid :: "PointTile \<Rightarrow> bool" where
  "PointTile_IsValid t \<longleftrightarrow>
     (if \<not> TileId_IsValid (tile_id_of t) \<or> \<not> SpatialBounds_IsValid (tile_bounds t) \<or>
         \<not> PointLodHierarchy_IsValid (lod t) \<or> \<not> SameBounds (tile_bounds t) (lod_bounds (lod t))
      then False
      else \<not> list_ex (child_bad (children t)) [0..<length (children t)])"

section \<open>The validators\<close>

definition report_if :: "bool \<Rightarrow> DiagnosticCode \<Rightarrow> string \<Rightarrow> Diagnostic list" where
  "report_if b c m = (if b then [error_diag c m] else [])"

definition item_reports :: "PointLodHierarchy \<Rightarrow> nat \<Rightarrow> Diagnostic list" where
  "item_reports h index =
     (let item = items h ! index in
      report_if (\<not> PointRange_IsValid (sourceRange item)) InvalidPointSourceRange
        ''LOD item source range is invalid'' @
      (if \<not> PointLodItem_IsValid item
       then [error_diag InvalidLodItem (''LOD item is invalid at index '' @ show_nat index)]
       else if item_index item \<noteq> index
       then [error_diag InvalidLodItem ''LOD item index does not match its position'']
       else if \<not> ContainsBounds (lod_bounds h) (item_bounds item)
       then [error_diag InvalidLodItem ''LOD item bounds are outside the hierarchy bounds'']
       else []) @
      report_if (index \<noteq> 0 \<and> item_pointCount (items h ! (index - 1)) < item_pointCount item)
        InvalidLodHierarchy ''LOD point counts must not increase at lower detail'')"

definition ValidatePointLodHierarchy :: "PointLodHierarchy \<Rightarrow> bool \<times> Diagnostic list" where
  "ValidatePointLodHierarchy h =
     (let diagnostics =
        report_if (\<not> SpatialBounds_IsValid (lod_bounds h)) InvalidLodHierarchy
          ''LOD hierarchy bounds are invalid'' @
        report_if (items h = []) InvalidLodHierarchy
          ''LOD hierarchy must contain at least one item'' @
        report_if (length (items h) \<le> defaultIndex h) InvalidLodHierarchy
          ''LOD hierarchy default index is out of range'' @
        report_if (length (screenSizeThresholds h) + 1 \<noteq> length (items h)) InvalidLodHierarchy
          ''LOD threshold count must equal item count minus one'' @
        report_if (\<not> ValidThresholds (screenSizeThresholds h)) InvalidLodHierarchy
          ''LOD thresholds must be finite, positive, and descending'' @
        concat (map (item_reports h) [0..<length (items h)])
      in (diagnostics = [], diagnostics))"

definition child_reports :: "PointTileId list \<Rightarrow> nat \<Rightarrow> Diagnostic list" where
  "child_reports cs index =
     report_if (\<not> TileId_IsValid (cs ! index)) InvalidPointTileId ''point tile child ID is invalid'' @
     report_if (list_ex (\<lambda>previous. SameTileId (cs ! index) (cs ! previous)) [0..<index])
       InvalidPointTile ''point tile child IDs must be unique''"

definition ValidatePointTile :: "PointTile \<Rightarrow> bool \<times> Diagnostic list" where
  "ValidatePointTile t =
     (case ValidatePointLodHierarchy (lod t) of (hierarchyValid, lodDiagnostics) \<Rightarrow>
        let diagnostics = lodDiagnostics @
          report_if (\<not> TileId_IsValid (tile_id_of t)) InvalidPointTileId ''point tile ID is invalid'' @
          report_if (\<not> SpatialBounds_IsValid (tile_bounds t)) InvalidPointTile
            ''point tile bounds are invalid'' @
          report_if (\<not> SameBounds (tile_bounds t) (lod_bounds (lod t))) InvalidPointTile
            ''point tile bounds do not match the LOD hierarchy bounds'' @
          concat (map (child_reports (children t)) [0..<length (children t)])
        in (hierarchyValid \<and> diagnostics = [], diagnostics))"

section \<open>Validators and predicates agree\<close>

lemma report_if_Nil [simp, diag_simps]: "report_if b c m = [] \<longleftrightarrow> \<not> b"
  by (simp add: report_if_def)

lemma item_reports_Nil: "item_reports h i = [] \<longleftrightarrow> \<not> item_bad h i"
  by (auto simp: item_reports_def item_bad_def Let_def PointLodItem_IsValid_def)

lemma child_reports_Nil: "child_reports cs i = [] \<longleftrightarrow> \<not> child_bad cs i"
  by (auto simp: child_reports_def child_bad_def)

lemma validate_hierarchy_result:
  "ValidatePointLodHierarchy h = (PointLodHierarchy_IsValid h, snd (ValidatePointLodHierarchy h)) \<and>
   (snd (ValidatePointLodHierarchy h) = [] \<longleftrightarrow> PointLodHierarchy_IsValid h)"
  by (auto simp: ValidatePointLodHierarchy_def PointLodHierarchy_IsValid_def Let_def
      item_reports_Nil list_ex_iff)

text \<open>
  The validator of a tile accepts exactly the valid tiles, reports at least one
  diagnostic for every other tile and none for a valid one; the validator of a LOD hierarchy
  does the same for hierarchies.
\<close>

theorem tile_validators_agree:
  "fst (ValidatePointTile t) = PointTile_IsValid t \<and>
   (snd (ValidatePointTile t) = [] \<longleftrightarrow> PointTile_IsValid t) \<and>
   fst (ValidatePointLodHierarchy h) = PointLodHierarchy_IsValid h \<and>
   (snd (ValidatePointLodHierarchy h) = [] \<longleftrightarrow> PointLodHierarchy_IsValid h)"
proof -
  obtain ds where lod: "ValidatePointLodHierarchy (lod t) = (PointLodHierarchy_IsValid (lod t), ds)"
    and ds: "ds = [] \<longleftrightarrow> PointLodHierarchy_IsValid (lod t)"
    using validate_hierarchy_result [of "lod t"] by auto
  have "fst (ValidatePointTile t) = PointTile_IsValid t \<and>
      (snd (ValidatePointTile t) = [] \<longleftrightarrow> PointTile_IsValid t)"
    using ds by (auto simp: ValidatePointTile_def lod PointTile_IsValid_def Let_def
        child_reports_Nil list_ex_iff)
  moreover have "fst (ValidatePointLodHierarchy h) = PointLodHierarchy_IsValid h"
    using validate_hierarchy_result [of h] by (metis fst_conv)
  ultimately show ?thesis using validate_hierarchy_result [of h] by simp
qed

lemma SameTileId_eq [simp]: "SameTileId a b \<longleftrightarrow> a = b"
  by (auto simp: SameTileId_def)

lemma ContainsBounds_refl: "SpatialBounds_IsValid b \<Longrightarrow> ContainsBounds b b"
  by (simp add: ContainsBounds_def SpatialBounds_IsValid_def)

end
