(* ===== verification/Sampling.thy ===== *)
theory Sampling
  imports Lod
begin

text \<open>
  Fixed-stride sampling (\<^verbatim>\<open>Sampling.h\<close>, \<^verbatim>\<open>Sampling.cpp\<close>): the sampling options, the
  selection of every column at the same source indices, the LOD assets built from it, and
  the cache arguments of a sampling.  The index is computed in 64-bit unsigned arithmetic,
  with its wrap-around written out.
\<close>

section \<open>Options and cache arguments\<close>

record PointSamplingOptions =
  targetPointCount :: nat
  algorithm :: string
  algorithmVersion :: nat

definition fixed_stride :: "nat \<Rightarrow> PointSamplingOptions" where
  "fixed_stride n = \<lparr>targetPointCount = n, algorithm = ''fixed-stride'', algorithmVersion = 1\<rparr>"

definition PointSamplingOptions_IsValid :: "PointSamplingOptions \<Rightarrow> nat \<Rightarrow> bool" where
  "PointSamplingOptions_IsValid opts sourcePointCount \<longleftrightarrow>
     targetPointCount opts \<noteq> 0 \<and> targetPointCount opts \<le> sourcePointCount \<and>
     algorithm opts = ''fixed-stride'' \<and> algorithmVersion opts = 1"

definition MakeSamplingCacheArguments :: "PointSamplingOptions \<Rightarrow> CacheArguments" where
  "MakeSamplingCacheArguments opts =
     [(''samplingAlgorithm'', algorithm opts),
      (''samplingAlgorithmVersion'', show_nat (algorithmVersion opts)),
      (''samplingTargetPointCount'', show_nat (targetPointCount opts))]"

section \<open>Sampling the columns\<close>

definition sample_index :: "nat \<Rightarrow> nat \<Rightarrow> nat \<Rightarrow> nat" where
  "sample_index sourcePointCount target index = (index * sourcePointCount mod 2 ^ 64) div target"

definition sample_indices :: "nat \<Rightarrow> nat \<Rightarrow> nat list" where
  "sample_indices sourcePointCount target = map (sample_index sourcePointCount target) [0..<target]"

definition SampleAttribute :: "'a list \<Rightarrow> nat list \<Rightarrow> 'a list" where
  "SampleAttribute source indices = (if source = [] then [] else map (\<lambda>i. source ! i) indices)"

definition SampleExtraByteAttribute :: "fl list \<Rightarrow> nat \<Rightarrow> nat list \<Rightarrow> fl list" where
  "SampleExtraByteAttribute source componentCount indices =
     (if source = [] then []
      else concat (map (\<lambda>i. take componentCount (drop (i * componentCount) source)) indices))"

definition sampled_columns :: "PointData \<Rightarrow> nat list \<Rightarrow> PointData" where
  "sampled_columns s ix =
     \<lparr>positions = SampleAttribute (positions s) ix,
      intensity = SampleAttribute (intensity s) ix,
      returnNumber = SampleAttribute (returnNumber s) ix,
      numberOfReturns = SampleAttribute (numberOfReturns s) ix,
      classification = SampleAttribute (classification s) ix,
      classificationFlags = SampleAttribute (classificationFlags s) ix,
      scannerChannel = SampleAttribute (scannerChannel s) ix,
      scanDirectionFlag = SampleAttribute (scanDirectionFlag s) ix,
      edgeOfFlightLine = SampleAttribute (edgeOfFlightLine s) ix,
      userData = SampleAttribute (userData s) ix,
      scanAngle = SampleAttribute (scanAngle s) ix,
      pointSourceId = SampleAttribute (pointSourceId s) ix,
      red = SampleAttribute (red s) ix,
      green = SampleAttribute (green s) ix,
      blue = SampleAttribute (blue s) ix,
      colorBitDepth = colorBitDepth s,
      nir = SampleAttribute (nir s) ix,
      gpsTime = SampleAttribute (gpsTime s) ix,
      waveformDescriptorIndex = SampleAttribute (waveformDescriptorIndex s) ix,
      waveformDataOffset = SampleAttribute (waveformDataOffset s) ix,
      waveformPacketSize = SampleAttribute (waveformPacketSize s) ix,
      returnPointWaveformLocation = SampleAttribute (returnPointWaveformLocation s) ix,
      waveformXt = SampleAttribute (waveformXt s) ix,
      waveformYt = SampleAttribute (waveformYt s) ix,
      waveformZt = SampleAttribute (waveformZt s) ix,
      waveformDataExternal = SampleAttribute (waveformDataExternal s) ix,
      waveformDataFile = waveformDataFile s,
      extraByteNames = extraByteNames s,
      extraByteComponentCounts = extraByteComponentCounts s,
      extraBytes = map (\<lambda>i. SampleExtraByteAttribute (extraBytes s ! i) (component_count s i) ix)
        [0..<length (extraBytes s)]\<rparr>"

text \<open>
  \<open>aliased\<close> stands for the address comparison of the two arguments.  The result holds the
  flag, the new value of \<^verbatim>\<open>sampled\<close> and the extended diagnostics.
\<close>

definition SamplePointData ::
  "bool \<Rightarrow> PointData \<Rightarrow> PointSamplingOptions \<Rightarrow> PointData \<Rightarrow> Diagnostic list
   \<Rightarrow> bool \<times> PointData \<times> Diagnostic list" where
  "SamplePointData aliased source opts sampled diagnostics =
     (if aliased then
        (False, sampled, diagnostics @
           [error_diag InvalidLodItem ''source and sampled point data must be distinct''])
      else if \<not> PointData_IsValid source then
        (False, sampled, diagnostics @ [error_diag InvalidLodItem ''point data is invalid''])
      else if \<not> PointSamplingOptions_IsValid opts (length (positions source)) then
        (False, sampled, diagnostics @ [error_diag InvalidLodItem ''point sampling options are invalid''])
      else (True, sampled_columns source
              (sample_indices (length (positions source)) (targetPointCount opts)), diagnostics))"

section \<open>LOD assets\<close>

datatype LodProfile = Off | Preview | Balanced | Quality

definition lod_target :: "nat \<Rightarrow> nat \<Rightarrow> nat" where
  "lod_target pointCount divisor = max 1 ((pointCount + divisor - 1) div divisor)"

definition lod_targets :: "LodProfile \<Rightarrow> nat \<Rightarrow> nat list" where
  "lod_targets profile pointCount =
     rev ((if profile = Preview then [lod_target pointCount 4]
           else if profile = Balanced then [lod_target pointCount 16, lod_target pointCount 4]
           else [lod_target pointCount 64, lod_target pointCount 16, lod_target pointCount 4])
          @ [pointCount])"

fun build_levels :: "PointCloudAsset \<Rightarrow> nat list \<Rightarrow> PointCloudAsset list \<Rightarrow> Diagnostic list
    \<Rightarrow> bool \<times> PointCloudAsset list \<times> Diagnostic list" where
  "build_levels source [] levels diagnostics = (True, levels, diagnostics)"
| "build_levels source (target # targets) levels diagnostics =
     (if target \<noteq> length (positions (asset_data source)) then
        (case SamplePointData False (asset_data source) (fixed_stride target) empty_data diagnostics of
           (ok, sampled, diagnostics') \<Rightarrow>
             if \<not> ok then (False, levels, diagnostics')
             else build_levels source targets
               (levels @ [source\<lparr>asset_data := sampled,
                  asset_chunk := MakePointChunk sampled (asset_bounds source)\<rparr>]) diagnostics')
      else build_levels source targets (levels @ [source]) diagnostics)"

definition lod_thresholds :: "nat \<Rightarrow> fl list" where
  \<comment> \<open>\<^verbatim>\<open>{0.75F, 0.25F, 0.05F}\<close> resized to \<open>n\<close>\<close>
  "lod_thresholds n = take n [F_Fin (3/4), F_Fin (1/4), fround binary32 False (1/20)] @
     replicate (n - 3) fzero"

definition lod_items :: "PointCloudAsset \<Rightarrow> PointCloudAsset list \<Rightarrow> PointLodItem list" where
  "lod_items source levels = map (\<lambda>index.
     \<lparr>item_index = index, item_pointCount = chunk_pointCount (asset_chunk (levels ! index)),
      item_bounds = asset_bounds source,
      sourceRange = \<lparr>firstPoint = 0, range_pointCount = length (positions (asset_data source))\<rparr>,
      spacing = fzero\<rparr>) [0..<length levels]"

definition BuildPointLodAssets :: "PointCloudAsset \<Rightarrow> LodProfile
    \<Rightarrow> bool \<times> PointCloudAsset list \<times> PointLodHierarchy \<times> Diagnostic list" where
  "BuildPointLodAssets source profile =
     (if \<not> PointCloudAsset_IsValid source \<or> profile = Off then
        (False, [], empty_hierarchy, [error_diag InvalidLodItem ''LOD source asset or profile is invalid''])
      else case build_levels source (lod_targets profile (length (positions (asset_data source)))) [] [] of
        (ok, levels, diagnostics) \<Rightarrow>
          if \<not> ok then (False, levels, empty_hierarchy, diagnostics)
          else let hierarchy = \<lparr>lod_bounds = asset_bounds source, items = lod_items source levels,
                 defaultIndex = 0, screenSizeThresholds = lod_thresholds (length levels - 1)\<rparr>
               in (PointLodHierarchy_IsValid hierarchy, levels, hierarchy, diagnostics))"

section \<open>The sampled indices\<close>

lemma sample_index_less:
  assumes "index < target" "target \<le> n"
  shows "sample_index n target index < n"
proof -
  have "index * n mod 2 ^ 64 \<le> index * n" by simp
  also have "\<dots> < n * target" using assms by (simp add: mult.commute)
  finally show ?thesis unfolding sample_index_def by (simp add: less_mult_imp_div_less)
qed

lemma sample_index_no_wrap:
  assumes "(target - 1) * n < 2 ^ 64" "index < target"
  shows "sample_index n target index = index * n div target"
proof -
  have "index * n \<le> (target - 1) * n" using assms by (intro mult_le_mono1) simp
  then have "index * n < 2 ^ 64" using assms(1) by linarith
  then show ?thesis by (simp add: sample_index_def)
qed

lemma sample_indices_increasing:
  assumes "(target - 1) * n < 2 ^ 64" "target \<le> n" "i < j" "j < target"
  shows "sample_index n target i < sample_index n target j"
proof -
  have "0 < target" using assms by auto
  have "i * n div target < (i * n + target) div target" using \<open>0 < target\<close> by simp
  also have "i * n + target \<le> j * n"
    using assms by (metis Suc_leI add.commute add_le_cancel_right le_trans mult_Suc mult_le_mono1)
  then have "(i * n + target) div target \<le> j * n div target" by (rule div_le_mono)
  finally show ?thesis using assms by (simp add: sample_index_no_wrap)
qed

lemma sample_index_first_wrap:
  assumes "2 ^ 64 \<le> (target - 1) * n" "n < 2 ^ 64" "0 < target"
  obtains k where "1 < k" "k < target" "sample_index n target k \<le> sample_index n target 1"
proof -
  define k where "k = (LEAST k. 2 ^ 64 \<le> k * n)"
  have k: "2 ^ 64 \<le> k * n" unfolding k_def using assms(1) by (rule LeastI)
  have "k \<le> target - 1" unfolding k_def using assms(1) by (rule Least_le)
  have below: "m * n < 2 ^ 64" if "m < k" for m 
    using not_less_Least [of m "\<lambda>k. 2 ^ 64 \<le> k * n"] that by (simp add: k_def not_le)
  have "1 < k" using k assms(2) by (cases k; cases "k - 1") auto
  then have "(k - 1) * n < 2 ^ 64" by (intro below) simp
  then have "k * n - 2 ^ 64 < n" using \<open>1 < k\<close> k by (cases k) auto
  moreover have "k * n mod 2 ^ 64 = k * n - 2 ^ 64"
    unfolding le_mod_geq [OF k] using calculation assms(2) by (intro mod_less) linarith
  ultimately have "sample_index n target k \<le> n div target"
    unfolding sample_index_def by (simp add: div_le_mono)
  also have "\<dots> = sample_index n target 1" using assms(2) by (simp add: sample_index_def)
  finally show thesis using that \<open>1 < k\<close> \<open>k \<le> target - 1\<close> assms(3) by simp
qed

lemma length_sample_indices [simp]: "length (sample_indices n target) = target"
  by (simp add: sample_indices_def)

lemma set_sample_indices: "target \<le> n \<Longrightarrow> k \<in> set (sample_indices n target) \<Longrightarrow> k < n"
  by (auto simp: sample_indices_def intro: sample_index_less)

section \<open>Sampled columns of valid data\<close>

lemma SampleAttribute_Nil_iff: "ix \<noteq> [] \<Longrightarrow> SampleAttribute xs ix = [] \<longleftrightarrow> xs = []"
  by (simp add: SampleAttribute_def)

lemma SampleAttribute_points: "HasPointCountOrIsEmpty (SampleAttribute xs ix) (length ix)"
  by (simp add: SampleAttribute_def HasPointCountOrIsEmpty_def)

lemma length_SampleExtra:
  assumes "length xs = n * c" "list_all (\<lambda>k. k < n) ix" "xs \<noteq> []"
  shows "length (SampleExtraByteAttribute xs c ix) = length ix * c"
proof -
  have one: "length (take c (drop (k * c) xs)) = c" if "k < n" for k
  proof -
    have "k * c + c \<le> n * c" using that by (metis Suc_leI add.commute mult_Suc mult_le_mono1)
    then show ?thesis using assms(1) by simp
  qed
  have "sum_list (map (\<lambda>k. length (take c (drop (k * c) xs))) ix) = length ix * c"
    using assms(2) by (induction ix) (simp_all add: one del: length_take length_drop)
  then show ?thesis using assms(3) by (simp add: SampleExtraByteAttribute_def length_concat o_def)
qed

lemma sampled_extra_valid:
  assumes "extra_values_valid n c xs" "list_all (\<lambda>k. k < n) ix" "length ix \<le> n"
  shows "extra_values_valid (length ix) c (SampleExtraByteAttribute xs c ix)"
proof (cases "xs = []")
  case True
  then show ?thesis using assms by (simp add: extra_values_valid_def SampleExtraByteAttribute_def)
next
  case False
  with assms(1) have "length xs = n * c" "n \<le> u64_max div c" "1 \<le> c" "c \<le> 3"
    by (auto simp: extra_values_valid_def)
  then show ?thesis
    using length_SampleExtra [OF _ assms(2) False] assms(3) le_trans
    by (auto simp: extra_values_valid_def)
qed

lemma sampled_columns_sel [simp]:
  "positions (sampled_columns s ix) = SampleAttribute (positions s) ix"
  "intensity (sampled_columns s ix) = SampleAttribute (intensity s) ix"
  "returnNumber (sampled_columns s ix) = SampleAttribute (returnNumber s) ix"
  "numberOfReturns (sampled_columns s ix) = SampleAttribute (numberOfReturns s) ix"
  "classification (sampled_columns s ix) = SampleAttribute (classification s) ix"
  "classificationFlags (sampled_columns s ix) = SampleAttribute (classificationFlags s) ix"
  "scannerChannel (sampled_columns s ix) = SampleAttribute (scannerChannel s) ix"
  "scanDirectionFlag (sampled_columns s ix) = SampleAttribute (scanDirectionFlag s) ix"
  "edgeOfFlightLine (sampled_columns s ix) = SampleAttribute (edgeOfFlightLine s) ix"
  "userData (sampled_columns s ix) = SampleAttribute (userData s) ix"
  "scanAngle (sampled_columns s ix) = SampleAttribute (scanAngle s) ix"
  "pointSourceId (sampled_columns s ix) = SampleAttribute (pointSourceId s) ix"
  "red (sampled_columns s ix) = SampleAttribute (red s) ix"
  "green (sampled_columns s ix) = SampleAttribute (green s) ix"
  "blue (sampled_columns s ix) = SampleAttribute (blue s) ix"
  "nir (sampled_columns s ix) = SampleAttribute (nir s) ix"
  "gpsTime (sampled_columns s ix) = SampleAttribute (gpsTime s) ix"
  "waveformDescriptorIndex (sampled_columns s ix) = SampleAttribute (waveformDescriptorIndex s) ix"
  "waveformDataOffset (sampled_columns s ix) = SampleAttribute (waveformDataOffset s) ix"
  "waveformPacketSize (sampled_columns s ix) = SampleAttribute (waveformPacketSize s) ix"
  "returnPointWaveformLocation (sampled_columns s ix) = SampleAttribute (returnPointWaveformLocation s) ix"
  "waveformXt (sampled_columns s ix) = SampleAttribute (waveformXt s) ix"
  "waveformYt (sampled_columns s ix) = SampleAttribute (waveformYt s) ix"
  "waveformZt (sampled_columns s ix) = SampleAttribute (waveformZt s) ix"
  "waveformDataExternal (sampled_columns s ix) = SampleAttribute (waveformDataExternal s) ix"
  "colorBitDepth (sampled_columns s ix) = colorBitDepth s"
  "extraByteNames (sampled_columns s ix) = extraByteNames s"
  "extraByteComponentCounts (sampled_columns s ix) = extraByteComponentCounts s"
  "extraBytes (sampled_columns s ix) =
     map (\<lambda>i. SampleExtraByteAttribute (extraBytes s ! i) (component_count s i) ix)
        [0..<length (extraBytes s)]"
  by (simp_all add: sampled_columns_def)

lemma sampled_columns_valid:
  assumes "PointData_IsValid s" "list_all (\<lambda>k. k < length (positions s)) ix"
    "ix \<noteq> []" "length ix \<le> length (positions s)"
  shows "PointData_IsValid (sampled_columns s ix) \<and> length (positions (sampled_columns s ix)) = length ix"
proof -
  have "positions s \<noteq> []" using assms(3,4) by auto
  then have len: "length (positions (sampled_columns s ix)) = length ix"
    by (simp add: SampleAttribute_def)
  have ex: "extra_bytes_valid s" using assms(1) by (simp add: PointData_IsValid_def Let_def)
  have cc: "component_count (sampled_columns s ix) i = component_count s i" for i
    by (simp add: component_count_def)
  have "extra_bytes_valid (sampled_columns s ix)"
    using ex sampled_extra_valid [OF _ assms(2,4)] unfolding extra_bytes_valid_def cc len
    by (simp add: list_all_iff)
  then show ?thesis
    using assms(1) len unfolding PointData_IsValid_def Let_def len
    by (simp add: SampleAttribute_points SampleAttribute_Nil_iff assms(3)) (elim conjE, simp)
qed

lemma sample_point_data:
  assumes "PointData_IsValid s" "PointSamplingOptions_IsValid opts (length (positions s))"
  shows "SamplePointData False s opts out ds =
      (True, sampled_columns s (sample_indices (length (positions s)) (targetPointCount opts)), ds)"
    and "PointData_IsValid
      (sampled_columns s (sample_indices (length (positions s)) (targetPointCount opts)))"
    and "length (positions
      (sampled_columns s (sample_indices (length (positions s)) (targetPointCount opts)))) =
      targetPointCount opts"
proof -
  let ?n = "length (positions s)" and ?t = "targetPointCount opts"
  have t: "?t \<noteq> 0" "?t \<le> ?n" using assms(2) by (auto simp: PointSamplingOptions_IsValid_def)
  have "sample_indices ?n ?t \<noteq> []" using t by (simp add: sample_indices_def)
  then have "PointData_IsValid (sampled_columns s (sample_indices ?n ?t)) \<and>
      length (positions (sampled_columns s (sample_indices ?n ?t))) = ?t"
    using sampled_columns_valid [OF assms(1), of "sample_indices ?n ?t"] t set_sample_indices [of ?t ?n]
    by (simp add: list_all_iff)
  then show "PointData_IsValid (sampled_columns s (sample_indices ?n ?t))"
    "length (positions (sampled_columns s (sample_indices ?n ?t))) = ?t" by auto
  show "SamplePointData False s opts out ds = (True, sampled_columns s (sample_indices ?n ?t), ds)"
    using assms by (simp add: SamplePointData_def)
qed

text \<open>
  One point of a data set across all its columns, written without reference to the sampler: the
  entry of a column that is present, and the components of an Extra Bytes column.
\<close>

definition cell_at :: "'a list \<Rightarrow> nat \<Rightarrow> 'a option" where
  "cell_at xs i = (if xs = [] then None else Some (xs ! i))"

definition components_at :: "fl list \<Rightarrow> nat \<Rightarrow> nat \<Rightarrow> fl list" where
  "components_at xs c i = take c (drop (i * c) xs)"

definition same_point :: "PointData \<Rightarrow> nat \<Rightarrow> PointData \<Rightarrow> nat \<Rightarrow> bool" where
  "same_point a i b j \<longleftrightarrow>
     cell_at (positions a) i = cell_at (positions b) j \<and>
     cell_at (intensity a) i = cell_at (intensity b) j \<and>
     cell_at (returnNumber a) i = cell_at (returnNumber b) j \<and>
     cell_at (numberOfReturns a) i = cell_at (numberOfReturns b) j \<and>
     cell_at (classification a) i = cell_at (classification b) j \<and>
     cell_at (classificationFlags a) i = cell_at (classificationFlags b) j \<and>
     cell_at (scannerChannel a) i = cell_at (scannerChannel b) j \<and>
     cell_at (scanDirectionFlag a) i = cell_at (scanDirectionFlag b) j \<and>
     cell_at (edgeOfFlightLine a) i = cell_at (edgeOfFlightLine b) j \<and>
     cell_at (userData a) i = cell_at (userData b) j \<and>
     cell_at (scanAngle a) i = cell_at (scanAngle b) j \<and>
     cell_at (pointSourceId a) i = cell_at (pointSourceId b) j \<and>
     cell_at (red a) i = cell_at (red b) j \<and>
     cell_at (green a) i = cell_at (green b) j \<and>
     cell_at (blue a) i = cell_at (blue b) j \<and>
     cell_at (nir a) i = cell_at (nir b) j \<and>
     cell_at (gpsTime a) i = cell_at (gpsTime b) j \<and>
     cell_at (waveformDescriptorIndex a) i = cell_at (waveformDescriptorIndex b) j \<and>
     cell_at (waveformDataOffset a) i = cell_at (waveformDataOffset b) j \<and>
     cell_at (waveformPacketSize a) i = cell_at (waveformPacketSize b) j \<and>
     cell_at (returnPointWaveformLocation a) i = cell_at (returnPointWaveformLocation b) j \<and>
     cell_at (waveformXt a) i = cell_at (waveformXt b) j \<and>
     cell_at (waveformYt a) i = cell_at (waveformYt b) j \<and>
     cell_at (waveformZt a) i = cell_at (waveformZt b) j \<and>
     cell_at (waveformDataExternal a) i = cell_at (waveformDataExternal b) j \<and>
     list_all2 (\<lambda>(xs, c) (ys, d). components_at xs c i = components_at ys d j)
       (zip (extraBytes a) (map (component_count a) [0..<length (extraBytes a)]))
       (zip (extraBytes b) (map (component_count b) [0..<length (extraBytes b)]))"

definition same_schema :: "PointData \<Rightarrow> PointData \<Rightarrow> bool" where
  "same_schema a b \<longleftrightarrow>
     colorBitDepth a = colorBitDepth b \<and> waveformDataFile a = waveformDataFile b \<and>
     extraByteNames a = extraByteNames b \<and> extraByteComponentCounts a = extraByteComponentCounts b \<and>
     map (\<lambda>xs. xs = []) (extraBytes a) = map (\<lambda>xs. xs = []) (extraBytes b)"

lemma cell_at_SampleAttribute:
  "k < length ix \<Longrightarrow> cell_at (SampleAttribute xs ix) k = cell_at xs (ix ! k)"
  by (auto simp: cell_at_def SampleAttribute_def)

lemma components_at_concat:
  assumes "k < length yss" "\<forall>ys \<in> set yss. length ys = c"
  shows "components_at (concat yss) c k = yss ! k"
  using assms
proof (induction yss arbitrary: k)
  case (Cons ys yss)
  then show ?case by (cases k) (simp_all add: components_at_def add.commute)
qed simp

lemma components_at_SampleExtra:
  assumes "xs = [] \<or> length xs = n * c" "list_all (\<lambda>i. i < n) ix" "k < length ix"
  shows "components_at (SampleExtraByteAttribute xs c ix) c k = components_at xs c (ix ! k)"
proof (cases "xs = []")
  case False
  have "length (components_at xs c i) = c" if "i \<in> set ix" for i
  proof -
    have "Suc i \<le> n" using assms(2) that by (auto simp: list_all_iff Suc_leI)
    then have "Suc i * c \<le> n * c" by (rule mult_le_mono1)
    then show ?thesis using assms(1) False by (simp add: components_at_def)
  qed
  then have "components_at (concat (map (components_at xs c) ix)) c k = map (components_at xs c) ix ! k"
    using assms(3) by (intro components_at_concat) auto
  then show ?thesis using False assms(3) by (simp add: SampleExtraByteAttribute_def components_at_def [abs_def])
qed (simp add: components_at_def SampleExtraByteAttribute_def)

lemma sampled_same_point:
  assumes "PointData_IsValid s" "list_all (\<lambda>i. i < length (positions s)) ix" "k < length ix"
  shows "same_point (sampled_columns s ix) k s (ix ! k)"
proof -
  have cc: "component_count (sampled_columns s ix) = component_count s"
    by (rule ext) (simp add: component_count_def)
  have "extraBytes s ! e = [] \<or> length (extraBytes s ! e) = length (positions s) * component_count s e"
    if "e < length (extraBytes s)" for e
    using assms(1) that by (auto simp: PointData_IsValid_def Let_def extra_bytes_valid_def extra_values_valid_def list_all_iff)
  then have "components_at (SampleExtraByteAttribute (extraBytes s ! e) (component_count s e) ix) (component_count s e) k =
      components_at (extraBytes s ! e) (component_count s e) (ix ! k)" if "e < length (extraBytes s)" for e
    using that assms(2,3) by (intro components_at_SampleExtra)
  then show ?thesis
    unfolding same_point_def cc by (simp add: cell_at_SampleAttribute assms(3) list_all2_conv_all_nth)
qed

lemma sampled_same_schema:
  assumes "PointData_IsValid s" "list_all (\<lambda>i. i < length (positions s)) ix" "ix \<noteq> []"
  shows "same_schema (sampled_columns s ix) s"
proof -
  have "(SampleExtraByteAttribute (extraBytes s ! e) (component_count s e) ix = []) = (extraBytes s ! e = [])"
    if "e < length (extraBytes s)" for e
  proof -
    have v: "extra_values_valid (length (positions s)) (component_count s e) (extraBytes s ! e)"
      using assms(1) that by (auto simp: PointData_IsValid_def Let_def extra_bytes_valid_def list_all_iff)
    show ?thesis
    proof (cases "extraBytes s ! e = []")
      case False
      with v length_SampleExtra [OF _ assms(2) False, of "component_count s e"] assms(3)
      have "length (SampleExtraByteAttribute (extraBytes s ! e) (component_count s e) ix) \<noteq> 0"
        by (auto simp: extra_values_valid_def)
      then show ?thesis using False by auto
    qed (simp add: SampleExtraByteAttribute_def)
  qed
  then have "map (\<lambda>xs. xs = []) (extraBytes (sampled_columns s ix)) = map (\<lambda>xs. xs = []) (extraBytes s)"
    by (intro nth_equalityI) simp_all
  then show ?thesis unfolding same_schema_def by (simp add: sampled_columns_def)
qed

text \<open>
  Claim C12: Sampling valid point data with valid options succeeds without a diagnostic and
  gives valid point data of the same schema with exactly the requested number of points.  Every column
  of the k-th sampled point, Extra Bytes included, is that of the source point at the k-th sampled index,
  which lies in the source; and as long as the largest product of an index and the source count fits
  64 bits, the indices strictly increase, so no point is taken twice.
\<close>

theorem sampling_valid:
  assumes "PointData_IsValid s" "PointSamplingOptions_IsValid opts (length (positions s))"
  shows "\<exists>d. SamplePointData False s opts out ds = (True, d, ds) \<and> PointData_IsValid d \<and>
    length (positions d) = targetPointCount opts \<and> same_schema d s \<and>
    (\<forall>k < targetPointCount opts.
       sample_index (length (positions s)) (targetPointCount opts) k < length (positions s) \<and>
       same_point d k s (sample_index (length (positions s)) (targetPointCount opts) k)) \<and>
    ((targetPointCount opts - 1) * length (positions s) < 2 ^ 64 \<longrightarrow>
       (\<forall>i j. i < j \<and> j < targetPointCount opts \<longrightarrow>
          sample_index (length (positions s)) (targetPointCount opts) i <
          sample_index (length (positions s)) (targetPointCount opts) j))"
proof -
  let ?n = "length (positions s)" and ?t = "targetPointCount opts"
  let ?ix = "sample_indices ?n ?t"
  have t: "?t \<noteq> 0" "?t \<le> ?n" using assms(2) by (auto simp: PointSamplingOptions_IsValid_def)
  have ix: "list_all (\<lambda>i. i < ?n) ?ix" "?ix \<noteq> []"
    using set_sample_indices [OF t(2)] t(1) by (auto simp: list_all_iff sample_indices_def)
  have "same_point (sampled_columns s ?ix) k s (sample_index ?n ?t k)" if "k < ?t" for k
    using sampled_same_point [OF assms(1) ix(1), of k] that by (simp add: sample_indices_def)
  then show ?thesis
    using sample_point_data(1) [OF assms, of out ds] sample_point_data(2,3) [OF assms] t sample_index_less
      sample_indices_increasing [of ?t ?n] sampled_same_schema [OF assms(1) ix]
    by (intro exI [of _ "sampled_columns s ?ix"]) auto
qed

theorem sampling_valid_witness:
  "\<exists>d. SamplePointData False sample_data (fixed_stride 1) empty_data [] = (True, d, []) \<and>
    PointData_IsValid d \<and> length (positions d) = 1 \<and> same_point d 0 sample_data 0"
  using sampling_valid [OF sample_data_valid, of "fixed_stride 1" empty_data "[]"]
  by (auto simp: sample_data_def fixed_stride_def PointSamplingOptions_IsValid_def sample_index_def)



section \<open>The built LOD assets\<close>

definition level_of :: "PointCloudAsset \<Rightarrow> nat \<Rightarrow> PointCloudAsset" where
  "level_of source target =
     (if target \<noteq> length (positions (asset_data source))
      then (let d = sampled_columns (asset_data source)
                 (sample_indices (length (positions (asset_data source))) target)
            in source\<lparr>asset_data := d, asset_chunk := MakePointChunk d (asset_bounds source)\<rparr>)
      else source)"

lemma level_of_valid:
  assumes "PointCloudAsset_IsValid a" "1 \<le> t" "t \<le> length (positions (asset_data a))"
  shows "PointCloudAsset_IsValid (level_of a t) \<and>
    length (positions (asset_data (level_of a t))) = t \<and> asset_bounds (level_of a t) = asset_bounds a"
proof (cases "t = length (positions (asset_data a))")
  case True
  then show ?thesis using assms(1) by (simp add: level_of_def)
next
  case False
  let ?d = "sampled_columns (asset_data a) (sample_indices (length (positions (asset_data a))) t)"
  have a: "PointData_IsValid (asset_data a)" "SpatialBounds_IsValid (asset_bounds a)"
    using assms(1) by (auto simp: PointCloudAsset_IsValid_def)
  have o: "PointSamplingOptions_IsValid (fixed_stride t) (length (positions (asset_data a)))"
    using assms by (simp add: PointSamplingOptions_IsValid_def fixed_stride_def)
  have d: "PointData_IsValid ?d" "length (positions ?d) = t"
    using sample_point_data(2,3) [OF a(1) o] by (simp_all add: fixed_stride_def)
  then have "positions ?d \<noteq> []" using assms(2) by auto
  then show ?thesis
    using assms(1) False d chunk_of_valid_data [OF d(1) _ a(2)]
    by (simp add: level_of_def Let_def PointCloudAsset_IsValid_def)
qed

lemma build_levels_valid:
  assumes "PointData_IsValid (asset_data a)"
    "list_all (\<lambda>t. 1 \<le> t \<and> t \<le> length (positions (asset_data a))) ts"
  shows "build_levels a ts levels ds = (True, levels @ map (level_of a) ts, ds)"
  using assms(2)
proof (induction ts arbitrary: levels)
  case (Cons t ts)
  then have o: "PointSamplingOptions_IsValid (fixed_stride t) (length (positions (asset_data a)))"
    by (simp add: PointSamplingOptions_IsValid_def fixed_stride_def)
  show ?case
    using Cons sample_point_data(1) [OF assms(1) o, of empty_data ds]
    by (simp add: level_of_def Let_def fixed_stride_def)
qed simp

lemma lod_target_range: "0 < n \<Longrightarrow> 0 < d \<Longrightarrow> 1 \<le> lod_target n d \<and> lod_target n d \<le> n"
proof -
  assume "0 < n" "0 < d"
  have "(n + d - 1) div d \<le> n"
  proof -
    have "n + d - 1 < Suc n * d" using \<open>0 < n\<close> \<open>0 < d\<close>
      by (cases d; cases n) auto
    then show ?thesis by (metis less_Suc_eq_le less_mult_imp_div_less)
  qed
  then show ?thesis using \<open>0 < n\<close> by (simp add: lod_target_def)
qed

lemma quarter_up: "(x + 3) div 4 \<le> (x :: nat)"
  by presburger

lemma lod_target_antimono: "0 < d \<Longrightarrow> lod_target n (d * 4) \<le> lod_target n d"
proof -
  assume "0 < d"
  have "(n + d * 4 - 1) div (d * 4) \<le> (n + d - 1) div d"
  proof -
    have "n + d * 4 - 1 = (n + d - 1) + 3 * d" using \<open>0 < d\<close> by linarith
    then have "(n + d * 4 - 1) div (d * 4) = ((n + d - 1) + 3 * d) div d div 4"
      by (simp only: div_mult2_eq)
    also have "((n + d - 1) + 3 * d) div d = (n + d - 1) div d + 3"
      using \<open>0 < d\<close> div_mult_self1 [of d "n + d - 1" 3] by simp
    also have "((n + d - 1) div d + 3) div 4 \<le> (n + d - 1) div d"
      by (rule quarter_up)
    finally show ?thesis .
  qed
  then show ?thesis by (simp add: lod_target_def)
qed

lemma lod_targets_props:
  assumes "0 < n"
  shows "list_all (\<lambda>t. 1 \<le> t \<and> t \<le> n) (lod_targets p n)"
    "sorted_wrt (\<lambda>a b. b \<le> a) (lod_targets p n)"
    "hd (lod_targets p n) = n" "length (lod_targets p n) \<in> {2, 3, 4}"
  using lod_target_range [OF assms, of 4] lod_target_range [OF assms, of 16]
    lod_target_range [OF assms, of 64] lod_target_antimono [of 4 n] lod_target_antimono [of 16 n] assms
  by (auto simp: lod_targets_def)

lemma lod_thresholds_valid: "k \<in> {1, 2, 3} \<Longrightarrow> ValidThresholds (lod_thresholds k) \<and> length (lod_thresholds k) = k"
proof -
  have "fround binary32 False (1/20) = F_Fin (13421773 / 268435456)" by code_simp
  then show "k \<in> {1, 2, 3} \<Longrightarrow> ValidThresholds (lod_thresholds k) \<and> length (lod_thresholds k) = k"
    by (auto simp: ValidThresholds_def lod_thresholds_def threshold_bad_def fle_def numeral_3_eq_3
        numeral_2_eq_2 upt_rec)
qed

lemma lod_items_valid:
  assumes "\<And>i. i < length levels \<Longrightarrow> 1 \<le> chunk_pointCount (asset_chunk (levels ! i))"
    "sorted_wrt (\<lambda>a b. b \<le> a) (map (\<lambda>a. chunk_pointCount (asset_chunk a)) levels)"
    "SpatialBounds_IsValid (asset_bounds source)" "length levels = Suc k" "k \<in> {1, 2, 3}"
    "length (positions (asset_data source)) < 2 ^ 64"
  shows "PointLodHierarchy_IsValid \<lparr>lod_bounds = asset_bounds source, items = lod_items source levels,
     defaultIndex = 0, screenSizeThresholds = lod_thresholds (length levels - 1)\<rparr>" (is "PointLodHierarchy_IsValid ?h")
proof -
  have "\<not> item_bad ?h i" if "i < length levels" for i
  proof -
    have "chunk_pointCount (asset_chunk (levels ! i)) \<le> chunk_pointCount (asset_chunk (levels ! (i - 1)))"
      if "i \<noteq> 0"
      using sorted_wrt_nth_less [OF assms(2), of "i - 1" i] that \<open>i < length levels\<close> by simp
    then show ?thesis
      using assms(1) [OF that] assms(3,6) that ContainsBounds_refl [OF assms(3)]
      by (auto simp: item_bad_def Let_def lod_items_def PointLodItem_IsValid_def PointRange_IsValid_def
          fle_def)
  qed
  then show ?thesis
    using assms(3-5) lod_thresholds_valid [OF assms(5)]
    by (auto simp: PointLodHierarchy_IsValid_def list_ex_iff lod_items_def)
qed



end
