(* ===== verification/Format_Args.thy ===== *)
theory Format_Args
  imports Number_Text Sampling
begin

text \<open>
  File-format arguments (\<^verbatim>\<open>FileFormatArguments.h\<close>, \<^verbatim>\<open>FileFormatArguments.cpp\<close>): the parser
  of \<^verbatim>\<open>key=value&...\<close> strings, the normalisation of an argument map into a read request with
  one handler per key, the cross-argument checks, the canonical argument list, and the
  selection of point attributes.  A \<^verbatim>\<open>std::map\<close> is an association list in key order, a
  \<^verbatim>\<open>std::set\<close> a strictly increasing list.
\<close>

section \<open>Values\<close>

definition Trim :: "string \<Rightarrow> string" where
  "Trim = trim_of c_isspace"

definition ParseUnsigned :: "string \<Rightarrow> nat option" where
  "ParseUnsigned value = (if value = [] then None else from_chars_u64 value)"

definition ParsePositiveDouble :: "string \<Rightarrow> bool \<times> fl" where
  "ParsePositiveDouble value =
     (case whole_double value of (x, ok) \<Rightarrow> (ok \<and> flt fzero x, x))"

definition ParseFiniteDouble :: "string \<Rightarrow> bool \<times> fl" where
  "ParseFiniteDouble value = (case whole_double value of (x, ok) \<Rightarrow> (ok, x))"

definition ParseAxis :: "string \<Rightarrow> bool \<times> string" where
  "ParseAxis value = (let axis = Trim value in (axis = ''X'' \<or> axis = ''Y'' \<or> axis = ''Z'', axis))"

definition parse_coordinate :: "string \<Rightarrow> fl option" where
  "parse_coordinate part =
     (let component = Trim part in
      if component = [] then None
      else case ParseFiniteDouble component of (ok, x) \<Rightarrow> if ok then Some x else None)"

definition ParseBounds :: "string \<Rightarrow> SpatialBounds option" where
  "ParseBounds value =
     (let parts = split_on (CHR '','') value; coordinates = map parse_coordinate parts in
      if length parts \<noteq> 6 \<or> None \<in> set coordinates then None
      else let c = map the coordinates;
               b = bounds_of (vec (c ! 0) (c ! 1) (c ! 2)) (vec (c ! 3) (c ! 4) (c ! 5))
           in if SpatialBounds_IsValid b then Some b else None)"

definition parse_classification :: "string \<Rightarrow> nat option" where
  "parse_classification part =
     (let component = Trim part in
      if component = [] then None
      else case ParseUnsigned component of None \<Rightarrow> None
        | Some parsed \<Rightarrow> if 255 < parsed then None else Some parsed)"

text \<open>A \<^verbatim>\<open>std::set\<close> of values, in order.\<close>

definition set_insert :: "'a::linorder \<Rightarrow> 'a list \<Rightarrow> 'a list" where
  "set_insert x xs = insort_insert x xs"

definition ParseClassifications :: "string \<Rightarrow> bool \<times> nat list" where
  "ParseClassifications value =
     (let parsed = map parse_classification (split_on (CHR '','') value) in
      if None \<in> set parsed then (False, [])
      else let unique = foldl (\<lambda>u p. set_insert (the p) u) [] parsed in (unique \<noteq> [], unique))"

section \<open>Keys and attribute names\<close>

datatype PointReadFormat = Generic | Las | Laz | Copc | Ply

definition IsUnsupportedArgument :: "string \<Rightarrow> bool" where
  "IsUnsupportedArgument key \<longleftrightarrow> key \<in> set
     [''lodLevels'', ''lodPointCounts'', ''lodRatios'', ''lodThresholds'', ''tileDepth'',
      ''tilePointLimit'', ''sampling'', ''originMode'', ''upAxis'']"

definition IsAttributeName :: "string \<Rightarrow> PointReadFormat \<Rightarrow> bool" where
  "IsAttributeName name format \<longleftrightarrow>
     (if format = Ply then name \<noteq> []
      else name \<in> set
        [''xyz'', ''intensity'', ''returnNumber'', ''numberOfReturns'',
         ''classification'', ''classificationFlags'', ''scannerChannel'',
         ''scanDirectionFlag'', ''edgeOfFlightLine'', ''userData'', ''scanAngle'',
         ''pointSourceId'', ''rgb'', ''red'', ''green'', ''blue'', ''nir'',
         ''gpsTime'', ''waveformDescriptorIndex'', ''waveformDataOffset'',
         ''waveformPacketSize'', ''returnPointWaveformLocation'', ''waveformXt'',
         ''waveformYt'', ''waveformZt'', ''waveformDataExternal'',
         ''waveformDataFile''])"

definition attribute_group :: "string \<Rightarrow> string list" where
  "attribute_group name =
     (if name = ''rgb'' \<or> name = ''red'' \<or> name = ''green'' \<or> name = ''blue''
      then [''blue'', ''green'', ''red'']
      else if name = ''returnNumber'' \<or> name = ''numberOfReturns''
      then [''numberOfReturns'', ''returnNumber'']
      else if name = ''waveformDataFile'' \<or> take 8 name = ''waveform'' \<or>
              name = ''returnPointWaveformLocation''
      then [''returnPointWaveformLocation'', ''waveformDataExternal'', ''waveformDataFile'',
            ''waveformDataOffset'', ''waveformDescriptorIndex'', ''waveformPacketSize'',
            ''waveformXt'', ''waveformYt'', ''waveformZt'']
      else [name])"

definition AddAttributeGroup :: "string \<Rightarrow> string list \<Rightarrow> string list" where
  "AddAttributeGroup name selected = foldl (\<lambda>s n. set_insert n s) selected (attribute_group name)"

definition Join :: "string list \<Rightarrow> string" where
  "Join values = foldl (\<lambda>result value.
     (if result \<noteq> [] then result @ '','' else result) @ value) [] values"

section \<open>The argument string\<close>

type_synonym ArgumentMap = "(string \<times> string) list"

definition split_at_first :: "char \<Rightarrow> string \<Rightarrow> (string \<times> string) option" where
  "split_at_first c s = (if c \<in> set s
     then Some (takeWhile (\<lambda>x. x \<noteq> c) s, tl (dropWhile (\<lambda>x. x \<noteq> c) s)) else None)"

definition parse_argument :: "string \<Rightarrow> string + (string \<times> string)" where
  "parse_argument part = (case split_at_first (CHR ''='') part of
     None \<Rightarrow> Inl ''format argument must use key=value syntax''
   | Some (k, v) \<Rightarrow>
       if Trim k = [] \<or> Trim v = [] then Inl ''format argument key and value must not be empty''
       else Inr (Trim k, Trim v))"

fun parse_arguments :: "string list \<Rightarrow> ArgumentMap \<Rightarrow> string \<Rightarrow> bool \<times> ArgumentMap \<times> string" where
  "parse_arguments [] arguments err = (True, arguments, err)"
| "parse_arguments (part # parts) arguments err =
     (case parse_argument part of
        Inl msg \<Rightarrow> (False, arguments, msg)
      | Inr (key, value) \<Rightarrow>
          if map_of arguments key \<noteq> None
          then (False, arguments, ''format argument key is repeated: '' @ key)
          else parse_arguments parts (emplace key value arguments) err)"

definition ParseFileFormatArgumentString :: "string \<Rightarrow> string \<Rightarrow> bool \<times> ArgumentMap \<times> string" where
  "ParseFileFormatArgumentString encoded err =
     (if encoded = [] then (True, [], err)
      else parse_arguments (split_on (CHR ''&'') encoded) [] err)"

section \<open>The request and the handlers of the keys\<close>

record PointReadRequest =
  readOptions :: PointReadOptions
  req_epsgCode :: "nat option"
  req_linearUnit :: string
  req_sourceUpAxis :: string
  req_stageUpAxis :: string
  lodProfile :: LodProfile
  tiled :: bool
  tileSize :: fl
  tileMemoryLimitBytes :: nat
  maxPointsPerTile :: "nat option"
  minPointsPerTile :: nat
  maxTileDepth :: int
  payloadDirectory :: string
  req_attributes :: "string list"
  canonicalArguments :: ArgumentMap
  normalizedArguments :: string

definition default_request :: PointReadRequest where
  "default_request = \<lparr>readOptions = default_read_options, req_epsgCode = None,
     req_linearUnit = ''metre'', req_sourceUpAxis = ''Z'', req_stageUpAxis = ''Z'',
     lodProfile = Off, tiled = False, tileSize = fzero, tileMemoryLimitBytes = 64 * 1024 * 1024,
     maxPointsPerTile = None, minPointsPerTile = 0, maxTileDepth = 0, payloadDirectory = [],
     req_attributes = [], canonicalArguments = [], normalizedArguments = []\<rparr>"

definition invalid_argument :: "string \<Rightarrow> Diagnostic" where
  "invalid_argument msg = error_diag InvalidFormatArgument msg"

definition unknown_argument :: "string \<Rightarrow> Diagnostic" where
  "unknown_argument key = error_diag UnknownFormatArgument (''unknown format argument: '' @ key)"

text \<open>
  A handler returns the updated request and the diagnostic of a rejected value; like the code,
  some write their field before the value is found to be invalid.
\<close>

type_synonym Handled = "PointReadRequest \<times> Diagnostic option"

definition parse_profile :: "string \<Rightarrow> LodProfile option" where
  "parse_profile normalizedProfile =
     (if normalizedProfile = ''off'' then Some Off
      else if normalizedProfile = ''preview'' then Some Preview
      else if normalizedProfile = ''balanced'' then Some Balanced
      else if normalizedProfile = ''quality'' then Some Quality else None)"

definition arg_lod :: "string \<Rightarrow> PointReadRequest \<Rightarrow> Handled" where
  "arg_lod value r = (case parse_profile (Trim value) of
     Some p \<Rightarrow> (r\<lparr>lodProfile := p\<rparr>, None)
   | None \<Rightarrow> (r, Some (invalid_argument (''invalid lod profile: '' @ value))))"

definition arg_epsg :: "PointReadFormat \<Rightarrow> string \<Rightarrow> PointReadRequest \<Rightarrow> Handled" where
  "arg_epsg format value r =
     (if format \<noteq> Ply then (r, Some (unknown_argument ''epsg''))
      else case ParseUnsigned value of
        None \<Rightarrow> (r, Some (invalid_argument (''invalid epsg code: '' @ value)))
      | Some parsed \<Rightarrow>
          if parsed = 0 \<or> int_max < parsed
          then (r, Some (invalid_argument (''invalid epsg code: '' @ value)))
          else (r\<lparr>req_epsgCode := Some parsed\<rparr>, None))"

definition arg_linearUnit :: "PointReadFormat \<Rightarrow> string \<Rightarrow> PointReadRequest \<Rightarrow> Handled" where
  "arg_linearUnit format value r =
     (if format \<noteq> Ply then (r, Some (unknown_argument ''linearUnit''))
      else (r\<lparr>req_linearUnit := Trim value\<rparr>,
            if Trim value = [] then Some (invalid_argument ''linearUnit must not be empty'') else None))"

definition arg_sourceUpAxis :: "PointReadFormat \<Rightarrow> string \<Rightarrow> PointReadRequest \<Rightarrow> Handled" where
  "arg_sourceUpAxis format value r =
     (if format \<noteq> Ply then (r, Some (unknown_argument ''sourceUpAxis''))
      else case ParseAxis value of (ok, axis) \<Rightarrow>
        (r\<lparr>req_sourceUpAxis := axis\<rparr>,
         if ok then None else Some (invalid_argument (''invalid sourceUpAxis: '' @ value))))"

definition arg_stageUpAxis :: "PointReadFormat \<Rightarrow> string \<Rightarrow> PointReadRequest \<Rightarrow> Handled" where
  "arg_stageUpAxis format value r =
     (if format \<noteq> Ply then (r, Some (unknown_argument ''stageUpAxis''))
      else case ParseAxis value of (ok, axis) \<Rightarrow>
        (r\<lparr>req_stageUpAxis := axis\<rparr>,
         if ok then None else Some (invalid_argument (''invalid stageUpAxis: '' @ value))))"

definition arg_tile :: "string \<Rightarrow> PointReadRequest \<Rightarrow> Handled" where
  "arg_tile value r =
     (if value = ''true'' then (r\<lparr>tiled := True\<rparr>, None)
      else if value = ''false'' then (r\<lparr>tiled := False\<rparr>, None)
      else (r, Some (invalid_argument (''invalid tile value: '' @ value))))"

definition arg_tileSize :: "string \<Rightarrow> PointReadRequest \<Rightarrow> Handled" where
  "arg_tileSize value r = (case ParsePositiveDouble value of (ok, x) \<Rightarrow>
     if ok then (r\<lparr>tileSize := x, tiled := True\<rparr>, None)
     else (r\<lparr>tileSize := x\<rparr>, Some (invalid_argument (''invalid tileSize: '' @ value))))"

definition arg_tileMemoryLimit :: "string \<Rightarrow> PointReadRequest \<Rightarrow> Handled" where
  "arg_tileMemoryLimit value r = (case ParseUnsigned value of
     None \<Rightarrow> (r, Some (invalid_argument (''invalid tileMemoryLimit: '' @ value)))
   | Some parsed \<Rightarrow>
       if parsed = 0 \<or> u64_max < parsed
       then (r, Some (invalid_argument (''invalid tileMemoryLimit: '' @ value)))
       else (r\<lparr>tileMemoryLimitBytes := parsed, tiled := True\<rparr>, None))"

definition arg_maxPointsPerTile :: "PointReadFormat \<Rightarrow> string \<Rightarrow> PointReadRequest \<Rightarrow> Handled" where
  "arg_maxPointsPerTile format value r =
     (case (if format \<noteq> Generic then None else ParseUnsigned value) of
        None \<Rightarrow> (r, Some (invalid_argument (''invalid maxPointsPerTile: '' @ value)))
      | Some parsed \<Rightarrow>
          if parsed = 0 \<or> u64_max < parsed
          then (r, Some (invalid_argument (''invalid maxPointsPerTile: '' @ value)))
          else (r\<lparr>maxPointsPerTile := Some parsed, tiled := True\<rparr>, None))"

definition arg_minPointsPerTile :: "PointReadFormat \<Rightarrow> string \<Rightarrow> PointReadRequest \<Rightarrow> Handled" where
  "arg_minPointsPerTile format value r =
     (case (if format \<noteq> Generic then None else ParseUnsigned value) of
        None \<Rightarrow> (r, Some (invalid_argument (''invalid minPointsPerTile: '' @ value)))
      | Some parsed \<Rightarrow>
          if u64_max < parsed
          then (r, Some (invalid_argument (''invalid minPointsPerTile: '' @ value)))
          else (r\<lparr>minPointsPerTile := parsed, tiled := True\<rparr>, None))"

definition arg_maxDepth :: "PointReadFormat \<Rightarrow> string \<Rightarrow> PointReadRequest \<Rightarrow> Handled" where
  "arg_maxDepth format value r =
     (case (if format \<noteq> Generic then None else ParseUnsigned value) of
        None \<Rightarrow> (r, Some (invalid_argument (''invalid maxDepth: '' @ value)))
      | Some parsed \<Rightarrow>
          if 31 < parsed then (r, Some (invalid_argument (''invalid maxDepth: '' @ value)))
          else (r\<lparr>maxTileDepth := int parsed, tiled := True\<rparr>, None))"

definition arg_payloadDirectory :: "string \<Rightarrow> PointReadRequest \<Rightarrow> Handled" where
  "arg_payloadDirectory value r = (r\<lparr>payloadDirectory := value, tiled := True\<rparr>, None)"

definition arg_chunkPointLimit :: "string \<Rightarrow> PointReadRequest \<Rightarrow> Handled" where
  "arg_chunkPointLimit value r = (case ParseUnsigned value of
     None \<Rightarrow> (r, Some (invalid_argument (''invalid chunkPointLimit: '' @ value)))
   | Some parsed \<Rightarrow>
       if u64_max < parsed then (r, Some (invalid_argument (''invalid chunkPointLimit: '' @ value)))
       else (r\<lparr>readOptions := (readOptions r)\<lparr>chunkPointLimit := parsed\<rparr>\<rparr>, None))"

definition arg_memoryBudgetBytes :: "string \<Rightarrow> PointReadRequest \<Rightarrow> Handled" where
  "arg_memoryBudgetBytes value r = (case ParseUnsigned value of
     None \<Rightarrow> (r, Some (invalid_argument (''invalid memoryBudgetBytes: '' @ value)))
   | Some parsed \<Rightarrow>
       if u64_max < parsed then (r, Some (invalid_argument (''invalid memoryBudgetBytes: '' @ value)))
       else (r\<lparr>readOptions := (readOptions r)\<lparr>memoryBudgetBytes := parsed\<rparr>\<rparr>, None))"

definition arg_rangeFirstPoint :: "string \<Rightarrow> PointReadRequest \<Rightarrow> Handled" where
  "arg_rangeFirstPoint value r = (case ParseUnsigned value of
     None \<Rightarrow> (r, Some (invalid_argument (''invalid rangeFirstPoint: '' @ value)))
   | Some parsed \<Rightarrow> (r\<lparr>readOptions := (readOptions r)\<lparr>range :=
       (range (readOptions r))\<lparr>firstPoint := parsed\<rparr>\<rparr>\<rparr>, None))"

definition arg_rangePointCount :: "string \<Rightarrow> PointReadRequest \<Rightarrow> Handled" where
  "arg_rangePointCount value r = (case ParseUnsigned value of
     None \<Rightarrow> (r, Some (invalid_argument (''invalid rangePointCount: '' @ value)))
   | Some parsed \<Rightarrow> (r\<lparr>readOptions := (readOptions r)\<lparr>range :=
       (range (readOptions r))\<lparr>range_pointCount := parsed\<rparr>\<rparr>\<rparr>, None))"

definition arg_bounds :: "string \<Rightarrow> PointReadRequest \<Rightarrow> Handled" where
  "arg_bounds value r = (case ParseBounds value of
     None \<Rightarrow> (r, Some (invalid_argument (''invalid bounds: '' @ value)))
   | Some b \<Rightarrow> (r\<lparr>readOptions := (readOptions r)\<lparr>opt_bounds := Some b\<rparr>\<rparr>, None))"

definition arg_classification :: "string \<Rightarrow> PointReadRequest \<Rightarrow> Handled" where
  "arg_classification value r = (case ParseClassifications value of (ok, cs) \<Rightarrow>
     (r\<lparr>readOptions := (readOptions r)\<lparr>classifications := cs\<rparr>\<rparr>,
      if ok then None
      else Some (invalid_argument (''invalid classification filter: '' @ value))))"

text \<open>The attribute list: the selected names, or the diagnostic of the first unknown one.\<close>

fun select_attributes :: "PointReadFormat \<Rightarrow> string list \<Rightarrow> string list \<Rightarrow> string list \<times> Diagnostic option" where
  "select_attributes format [] selected = (selected, None)"
| "select_attributes format (part # parts) selected =
     (let name = Trim part in
      if name = [] \<or> \<not> IsAttributeName name format
      then (selected, Some (invalid_argument (''unknown point attribute: '' @ name)))
      else select_attributes format parts (AddAttributeGroup name selected))"

section \<open>The argument loop\<close>

record ArgState =
  request :: PointReadRequest
  selectedAttributes :: "string list"
  attributesSpecified :: bool

definition handled :: "ArgState \<Rightarrow> Handled \<Rightarrow> ArgState \<times> Diagnostic option" where
  "handled st h = (st\<lparr>request := fst h\<rparr>, snd h)"

definition apply_argument :: "PointReadFormat \<Rightarrow> string \<Rightarrow> string \<Rightarrow> ArgState \<Rightarrow> ArgState \<times> Diagnostic option" where
  "apply_argument format key value st =
     (let r = request st in
      if key = ''lod'' then handled st (arg_lod value r)
      else if key = ''epsg'' then handled st (arg_epsg format value r)
      else if key = ''linearUnit'' then handled st (arg_linearUnit format value r)
      else if key = ''sourceUpAxis'' then handled st (arg_sourceUpAxis format value r)
      else if key = ''stageUpAxis'' then handled st (arg_stageUpAxis format value r)
      else if key = ''tile'' then handled st (arg_tile value r)
      else if key = ''tileSize'' then handled st (arg_tileSize value r)
      else if key = ''tileMemoryLimit'' then handled st (arg_tileMemoryLimit value r)
      else if key = ''maxPointsPerTile'' then handled st (arg_maxPointsPerTile format value r)
      else if key = ''minPointsPerTile'' then handled st (arg_minPointsPerTile format value r)
      else if key = ''maxDepth'' then handled st (arg_maxDepth format value r)
      else if key = ''payloadDirectory'' then handled st (arg_payloadDirectory value r)
      else if key = ''chunkPointLimit'' then handled st (arg_chunkPointLimit value r)
      else if key = ''memoryBudgetBytes'' then handled st (arg_memoryBudgetBytes value r)
      else if key = ''rangeFirstPoint'' then handled st (arg_rangeFirstPoint value r)
      else if key = ''rangePointCount'' then handled st (arg_rangePointCount value r)
      else if key = ''bounds'' then handled st (arg_bounds value r)
      else if key = ''classification'' then handled st (arg_classification value r)
      else if key = ''attributes'' then
        (case select_attributes format (split_on (CHR '','') value) (selectedAttributes st) of
           (selected, d) \<Rightarrow> (st\<lparr>selectedAttributes := selected, attributesSpecified := True\<rparr>, d))
      else if IsUnsupportedArgument key then
        (st, Some (error_diag UnsupportedFormatArgument (''format argument is not implemented: '' @ key)))
      else (st, Some (unknown_argument key)))"

fun apply_arguments :: "PointReadFormat \<Rightarrow> ArgumentMap \<Rightarrow> ArgState \<Rightarrow> ArgState \<times> Diagnostic option" where
  "apply_arguments format [] st = (st, None)"
| "apply_arguments format (kv # rest) st =
     (case apply_argument format (fst kv) (snd kv) st of
        (st', None) \<Rightarrow> apply_arguments format rest st'
      | (st', Some d) \<Rightarrow> (st', Some d))"

section \<open>The checks across arguments\<close>

definition adaptive :: "PointReadRequest \<Rightarrow> bool" where
  "adaptive r \<longleftrightarrow> maxPointsPerTile r \<noteq> None"

definition check_request :: "PointReadRequest \<Rightarrow> Diagnostic option" where
  "check_request r =
     (if \<not> PointReadOptions_IsValid (readOptions r)
      then Some (invalid_argument ''point read arguments are outside their valid range'')
      else if tiled r \<and> ((fle (tileSize r) fzero \<and> \<not> adaptive r) \<or> payloadDirectory r = [])
      then Some (invalid_argument
        ''tiled reads require tileSize or maxPointsPerTile and payloadDirectory'')
      else if adaptive r \<and> flt fzero (tileSize r)
      then Some (error_diag ConflictingFormatArguments
        ''maxPointsPerTile cannot be combined with tileSize'')
      else if 0 < minPointsPerTile r \<and> \<not> adaptive r
      then Some (error_diag ConflictingFormatArguments ''minPointsPerTile requires maxPointsPerTile'')
      else if adaptive r \<and> (the (maxPointsPerTile r) < minPointsPerTile r \<or> maxTileDepth r < 0)
      then Some (invalid_argument ''invalid point-budget tiling limits'')
      else if tiled r \<and> lodProfile r \<noteq> Off
      then Some (error_diag ConflictingFormatArguments ''tile cannot be combined with lod'')
      else None)"

definition finish_attributes :: "ArgState \<Rightarrow> ArgState" where
  "finish_attributes st =
     (if attributesSpecified st
      then (let selected = set_insert ''xyz'' (selectedAttributes st)
            in st\<lparr>selectedAttributes := selected,
                  request := (request st)\<lparr>req_attributes := selected\<rparr>\<rparr>)
      else st)"

section \<open>The canonical arguments\<close>

definition arg_if :: "bool \<Rightarrow> string \<Rightarrow> string \<Rightarrow> ArgumentMap" where
  "arg_if b key value = (if b then [(key, value)] else [])"

definition canonical_read :: "PointReadOptions \<Rightarrow> ArgumentMap" where
  "canonical_read p =
     arg_if (chunkPointLimit p \<noteq> 65536) ''chunkPointLimit'' (show_nat (chunkPointLimit p)) @
     arg_if (memoryBudgetBytes p \<noteq> 64 * 1024 * 1024) ''memoryBudgetBytes'' (show_nat (memoryBudgetBytes p)) @
     arg_if (firstPoint (range p) \<noteq> 0) ''rangeFirstPoint'' (show_nat (firstPoint (range p))) @
     arg_if (range_pointCount (range p) \<noteq> 0) ''rangePointCount'' (show_nat (range_pointCount (range p)))"

definition canonical_bounds :: "SpatialBounds option \<Rightarrow> ArgumentMap" where
  "canonical_bounds bo = (case bo of None \<Rightarrow> []
   | Some b \<Rightarrow> [(''bounds'',
       to_string_double (vx (minimum b)) @ '','' @ to_string_double (vy (minimum b)) @ '','' @
       to_string_double (vz (minimum b)) @ '','' @ to_string_double (vx (maximum b)) @ '','' @
       to_string_double (vy (maximum b)) @ '','' @ to_string_double (vz (maximum b)))])"

definition canonical_source :: "PointReadRequest \<Rightarrow> ArgumentMap" where
  "canonical_source r =
     arg_if (classifications (readOptions r) \<noteq> []) ''classification''
       (Join (map show_nat (classifications (readOptions r)))) @
     (case req_epsgCode r of None \<Rightarrow> [] | Some c \<Rightarrow> [(''epsg'', show_nat c)]) @
     arg_if (req_linearUnit r \<noteq> ''metre'') ''linearUnit'' (req_linearUnit r) @
     arg_if (req_sourceUpAxis r \<noteq> ''Z'') ''sourceUpAxis'' (req_sourceUpAxis r) @
     arg_if (req_stageUpAxis r \<noteq> ''Z'') ''stageUpAxis'' (req_stageUpAxis r) @
     arg_if (lodProfile r \<noteq> Off) ''lod''
       (if lodProfile r = Preview then ''preview''
        else if lodProfile r = Balanced then ''balanced'' else ''quality'')"

definition canonical_tiles :: "PointReadRequest \<Rightarrow> ArgumentMap" where
  "canonical_tiles r =
     (if tiled r then
        [(''tile'', ''true'')] @
        (case maxPointsPerTile r of
           Some n \<Rightarrow> [(''maxPointsPerTile'', show_nat n)] @
             arg_if (minPointsPerTile r \<noteq> 0) ''minPointsPerTile'' (show_nat (minPointsPerTile r)) @
             arg_if (maxTileDepth r \<noteq> 0) ''maxDepth'' (show_int (maxTileDepth r))
         | None \<Rightarrow> [(''tileSize'', to_string_double (tileSize r))]) @
        arg_if (tileMemoryLimitBytes r \<noteq> 64 * 1024 * 1024) ''tileMemoryLimit''
          (show_nat (tileMemoryLimitBytes r)) @
        [(''payloadDirectory'', payloadDirectory r)]
      else [])"

definition canonical_pairs :: "ArgState \<Rightarrow> ArgumentMap" where
  "canonical_pairs st = (let r = request st in
     canonical_read (readOptions r) @ canonical_bounds (opt_bounds (readOptions r)) @
     canonical_source r @ canonical_tiles r @
     arg_if (attributesSpecified st) ''attributes'' (Join (selectedAttributes st)))"

definition emit_pair :: "ArgumentMap \<times> string \<Rightarrow> string \<times> string \<Rightarrow> ArgumentMap \<times> string" where
  "emit_pair acc kv = (emplace (fst kv) (snd kv) (fst acc),
     (if snd acc \<noteq> [] then snd acc @ ''&'' else snd acc) @ fst kv @ ''='' @ snd kv)"

definition with_canonical :: "ArgState \<Rightarrow> PointReadRequest" where
  "with_canonical st =
     (case foldl emit_pair (canonicalArguments (request st), normalizedArguments (request st))
        (canonical_pairs st) of
        (m, s) \<Rightarrow> (request st)\<lparr>canonicalArguments := m, normalizedArguments := s\<rparr>)"

section \<open>Normalisation\<close>

definition initial_state :: ArgState where
  "initial_state = \<lparr>request = default_request, selectedAttributes = [], attributesSpecified = False\<rparr>"

definition NormalizeFileFormatArguments ::
  "ArgumentMap \<Rightarrow> PointReadFormat \<Rightarrow> bool \<times> PointReadRequest \<times> Diagnostic list" where
  "NormalizeFileFormatArguments arguments format =
     (case apply_arguments format arguments initial_state of
        (st, Some d) \<Rightarrow> (False, request st, [d])
      | (st, None) \<Rightarrow>
          (case check_request (request st) of
             Some d \<Rightarrow> (False, request st, [d])
           | None \<Rightarrow> (True, with_canonical (finish_attributes st), [])))"

definition MakeReadRequest ::
  "ArgumentMap \<Rightarrow> PointReadFormat \<Rightarrow> bool \<times> PointReadRequest \<times> Diagnostic list" where
  "MakeReadRequest arguments format = NormalizeFileFormatArguments arguments format"

section \<open>Selecting attributes of point data\<close>

definition keep_column :: "bool \<Rightarrow> 'a list \<Rightarrow> 'a list" where
  "keep_column keep values = (if keep then values else [])"

definition keep_extra :: "string list \<Rightarrow> PointData \<Rightarrow> nat \<Rightarrow> bool" where
  "keep_extra attributes d index \<longleftrightarrow>
     index < length (extraByteNames d) \<and> c_string (extraByteNames d ! index) \<in> set attributes"

definition selected_columns :: "PointData \<Rightarrow> string list \<Rightarrow> PointData" where
  "selected_columns d attributes =
     (let keep = (\<lambda>name. name \<in> set attributes);
          waveform = keep ''waveformDescriptorIndex'';
          returns = keep ''returnNumber''; colors = keep ''red''
      in d\<lparr>intensity := keep_column (keep ''intensity'') (intensity d),
        returnNumber := keep_column returns (returnNumber d),
        numberOfReturns := keep_column returns (numberOfReturns d),
        classification := keep_column (keep ''classification'') (classification d),
        classificationFlags := keep_column (keep ''classificationFlags'') (classificationFlags d),
        scannerChannel := keep_column (keep ''scannerChannel'') (scannerChannel d),
        scanDirectionFlag := keep_column (keep ''scanDirectionFlag'') (scanDirectionFlag d),
        edgeOfFlightLine := keep_column (keep ''edgeOfFlightLine'') (edgeOfFlightLine d),
        userData := keep_column (keep ''userData'') (userData d),
        scanAngle := keep_column (keep ''scanAngle'') (scanAngle d),
        pointSourceId := keep_column (keep ''pointSourceId'') (pointSourceId d),
        red := keep_column colors (red d),
        green := keep_column colors (green d),
        blue := keep_column colors (blue d),
        nir := keep_column (keep ''nir'') (nir d),
        gpsTime := keep_column (keep ''gpsTime'') (gpsTime d),
        waveformDescriptorIndex := keep_column waveform (waveformDescriptorIndex d),
        waveformDataOffset := keep_column waveform (waveformDataOffset d),
        waveformPacketSize := keep_column waveform (waveformPacketSize d),
        returnPointWaveformLocation := keep_column waveform (returnPointWaveformLocation d),
        waveformXt := keep_column waveform (waveformXt d),
        waveformYt := keep_column waveform (waveformYt d),
        waveformZt := keep_column waveform (waveformZt d),
        waveformDataExternal := keep_column waveform (waveformDataExternal d),
        waveformDataFile := keep_column waveform (waveformDataFile d),
        extraBytes := map (\<lambda>i. keep_column (keep_extra attributes d i) (extraBytes d ! i))
          [0..<length (extraBytes d)]\<rparr>)"

definition SelectPointDataAttributes ::
  "PointData \<Rightarrow> string list \<Rightarrow> string \<Rightarrow> bool \<times> PointData \<times> string" where
  "SelectPointDataAttributes d attributes err =
     (if attributes = [] then (PointData_IsValid d, d, err)
      else if \<not> PointData_IsValid d
      then (False, d, ''point attributes are inconsistent before selection'')
      else let d' = selected_columns d attributes in
        if \<not> PointData_IsValid d' then (False, d', ''selected point attributes are inconsistent'')
        else (True, d', err))"

section \<open>Parsing and printing arguments\<close>

definition plain_argument :: "string \<times> string \<Rightarrow> bool" where
  "plain_argument kv \<longleftrightarrow>
     fst kv \<noteq> [] \<and> Trim (fst kv) = fst kv \<and> CHR ''='' \<notin> set (fst kv) \<and> CHR ''&'' \<notin> set (fst kv) \<and>
     snd kv \<noteq> [] \<and> Trim (snd kv) = snd kv \<and> CHR ''&'' \<notin> set (snd kv)"

definition print_argument :: "string \<times> string \<Rightarrow> string" where
  "print_argument kv = fst kv @ ''='' @ snd kv"

lemma split_at_first_append: "c \<notin> set k \<Longrightarrow> split_at_first c (k @ c # v) = Some (k, v)"
  by (induction k) (auto simp: split_at_first_def)

lemma split_at_first_Some:
  "split_at_first c s = Some (k, v) \<Longrightarrow> s = k @ c # v \<and> c \<notin> set k"
proof -
  assume "split_at_first c s = Some (k, v)"
  then have kv: "k = takeWhile (\<lambda>x. x \<noteq> c) s" "v = tl (dropWhile (\<lambda>x. x \<noteq> c) s)" "c \<in> set s"
    by (auto simp: split_at_first_def split: if_splits)
  then have ne: "dropWhile (\<lambda>x. x \<noteq> c) s \<noteq> []" by (auto simp: dropWhile_eq_Nil_conv)
  then have "dropWhile (\<lambda>x. x \<noteq> c) s = c # v" using hd_dropWhile [OF ne] kv(2) by (metis list.collapse)
  then show "s = k @ c # v \<and> c \<notin> set k"
    using takeWhile_dropWhile_id [of "\<lambda>x. x \<noteq> c" s] set_takeWhileD [of c "\<lambda>x. x \<noteq> c" s] kv(1) by auto
qed

lemma parse_print_argument: "plain_argument kv \<Longrightarrow> parse_argument (print_argument kv) = Inr kv"
  by (cases kv) (auto simp: plain_argument_def print_argument_def parse_argument_def
      split_at_first_append)

lemma parse_argument_plain:
  assumes "parse_argument part = Inr kv" "CHR ''&'' \<notin> set part"
  shows "plain_argument kv"
proof -
  obtain k v where kv: "split_at_first (CHR ''='') part = Some (k, v)" "kv = (Trim k, Trim v)"
    "Trim k \<noteq> []" "Trim v \<noteq> []"
    using assms(1) by (auto simp: parse_argument_def split: option.splits if_splits)
  then have "part = k @ CHR ''='' # v" "CHR ''='' \<notin> set k" by (auto dest: split_at_first_Some)
  then show ?thesis
    using kv assms(2) set_trim_of [of c_isspace k] set_trim_of [of c_isspace v]
    by (auto simp: plain_argument_def Trim_def)
qed

lemma emplace_last: "key_sorted (m @ [(k, v)]) \<Longrightarrow> emplace k v m = m @ [(k, v)]"
proof (induction m)
  case (Cons p m)
  then show ?case by (cases p) auto
qed simp

lemma key_sorted_append_fresh:
  assumes "key_sorted (m @ (k, v) # n)"
  shows "map_of m k = None" "key_sorted (m @ [(k, v)])"
proof -
  have s: "sorted_wrt (<) (map fst m @ k # map fst n)" using assms by (simp add: key_sorted_def)
  then have "k \<notin> fst ` set m" by (auto simp: sorted_wrt_append)
  then show "map_of m k = None" by (simp add: map_of_eq_None_iff)
  show "key_sorted (m @ [(k, v)])" using s by (simp add: key_sorted_def sorted_wrt_append)
qed

lemma parse_arguments_print:
  assumes "list_all plain_argument n" "key_sorted (m @ n)"
  shows "parse_arguments (map print_argument n) m err = (True, m @ n, err)"
  using assms
proof (induction n arbitrary: m)
  case (Cons kv n)
  obtain k v where kv: "kv = (k, v)" by (cases kv)
  note fresh = key_sorted_append_fresh [OF Cons.prems(2) [unfolded kv]]
  show ?case
    using Cons kv fresh emplace_last [OF fresh(2)] by (simp add: parse_print_argument)
qed simp

lemma print_no_amp: "list_all plain_argument m \<Longrightarrow> p \<in> set (map print_argument m) \<Longrightarrow> CHR ''&'' \<notin> set p"
  by (auto simp: list_all_iff print_argument_def plain_argument_def)

text \<open>
  Claim C22: Printing an argument map as \<open>key=value\<close> parts joined by \<open>&\<close> and parsing the text
  gives the map back without an error, for trimmed non-empty keys and values without the
  separators.
\<close>

theorem parse_print_roundtrip:
  assumes "key_sorted m" "list_all plain_argument m"
  shows "ParseFileFormatArgumentString (join_with ''&'' (map print_argument m)) err = (True, m, err)"
proof (cases "m = []")
  case True
  then show ?thesis by (simp add: ParseFileFormatArgumentString_def)
next
  case False
  then have split: "split_on (CHR ''&'') (join_with ''&'' (map print_argument m)) = map print_argument m"
    using print_no_amp [OF assms(2)] by (intro split_join) auto
  have "join_with ''&'' (map print_argument m) \<noteq> []"
    using split False assms(2)
    by (cases m) (auto simp: print_argument_def plain_argument_def split: list.splits)
  then show ?thesis
    using parse_arguments_print [OF assms(2), of "[]" err] assms(1) split
    by (simp add: ParseFileFormatArgumentString_def)
qed

theorem parse_print_roundtrip_witness:
  "ParseFileFormatArgumentString ''lod=preview&tile=false'' [] =
     (True, [(''lod'', ''preview''), (''tile'', ''false'')], [])"
proof -
  have "key_sorted [(''lod'', ''preview''), (''tile'', ''false'')]" by code_simp
  moreover have "list_all plain_argument [(''lod'', ''preview''), (''tile'', ''false'')]" by code_simp
  ultimately show ?thesis
    using parse_print_roundtrip [of "[(''lod'', ''preview''), (''tile'', ''false'')]" "[]"]
    by (simp add: print_argument_def)
qed

lemma parse_arguments_accepted:
  assumes "parse_arguments parts m err = (True, m', e)" "key_sorted m" "list_all plain_argument m"
    "list_all (\<lambda>p. CHR ''&'' \<notin> set p) parts"
  shows "\<exists>kvs. map parse_argument parts = map Inr kvs \<and> distinct (map fst kvs) \<and>
    fst ` set kvs \<inter> fst ` set m = {} \<and> map_of m' = map_of m ++ map_of kvs \<and>
    key_sorted m' \<and> list_all plain_argument m' \<and> e = err"
  using assms
proof (induction parts arbitrary: m)
  case Nil
  then show ?case by (intro exI [of _ "[]"]) auto
next
  case (Cons part parts)
  obtain k v where kv: "parse_argument part = Inr (k, v)" "map_of m k = None"
    and rest: "parse_arguments parts (emplace k v m) err = (True, m', e)"
    using Cons.prems(1) by (auto split: sum.splits if_splits)
  have lk: "map_of (emplace k v m) = (map_of m)(k \<mapsto> v)"
    using kv(2) Cons.prems(2) by (simp add: map_of_emplace)
  have "set (emplace k v m) \<subseteq> insert (k, v) (set m)"
    by (induction k v m rule: emplace.induct) auto
  then have "list_all plain_argument (emplace k v m)"
    using Cons.prems(3,4) parse_argument_plain [OF kv(1)] by (auto simp: list_all_iff)
  then obtain kvs where kvs: "map parse_argument parts = map Inr kvs" "distinct (map fst kvs)"
    "fst ` set kvs \<inter> insert k (fst ` set m) = {}" "map_of m' = map_of (emplace k v m) ++ map_of kvs"
    "key_sorted m'" "list_all plain_argument m'" "e = err"
    using Cons.IH [OF rest] Cons.prems(2,4) by auto
  have mk: "map_of kvs k = None" using kvs(3) by (auto simp: map_of_eq_None_iff)
  have "map_of m ++ map_of ((k, v) # kvs) = map_of (emplace k v m) ++ map_of kvs"
    using mk by (auto simp: lk map_add_def fun_eq_iff split: option.splits)
  then have m': "map_of m' = map_of m ++ map_of ((k, v) # kvs)" using kvs(4) by simp
  have "k \<notin> fst ` set m" using kv(2) by (simp add: map_of_eq_None_iff)
  then have "map parse_argument (part # parts) = map Inr ((k, v) # kvs)"
    "distinct (map fst ((k, v) # kvs))" "fst ` set ((k, v) # kvs) \<inter> fst ` set m = {}"
    using kv kvs(1-3) by auto
  with m' kvs(5-7) show ?case by blast
qed

text \<open>
  Claim C23: An accepted argument string holds a \<open>key=value\<close> part for every entry, with pairwise
  different keys: the resulting map is in key order, looks up exactly the trimmed parts, and
  has no empty or untrimmed key or value; the error text is left alone.
\<close>

theorem parsed_arguments_exact:
  assumes "ParseFileFormatArgumentString s err = (True, m, e)" "s \<noteq> []"
  shows "\<exists>kvs. map parse_argument (split_on (CHR ''&'') s) = map Inr kvs \<and>
    distinct (map fst kvs) \<and> map_of m = map_of kvs \<and> key_sorted m \<and>
    list_all plain_argument m \<and> e = err"
  using parse_arguments_accepted [of "split_on (CHR ''&'') s" "[]" err m e] assms split_on_no_sep
  by (auto simp: ParseFileFormatArgumentString_def list_all_iff)

theorem parsed_arguments_exact_witness:
  "\<exists>kvs. map parse_argument (split_on (CHR ''&'') ''tile= true & lod=off'') = map Inr kvs \<and>
    map_of [(''lod'', ''off''), (''tile'', ''true'')] = map_of kvs"
proof -
  have "ParseFileFormatArgumentString ''tile= true & lod=off'' [] =
      (True, [(''lod'', ''off''), (''tile'', ''true'')], [])" by code_simp
  from parsed_arguments_exact [OF this] show ?thesis by blast
qed

section \<open>What an accepted request guarantees\<close>

definition strictly_sorted :: "'a::linorder list \<Rightarrow> bool" where
  "strictly_sorted xs \<longleftrightarrow> sorted_wrt (<) xs"

lemma set_set_insert [simp]: "set (set_insert x xs) = insert x (set xs)"
  by (simp add: set_insert_def set_insort_insert)

lemma strictly_sorted_insert [simp]: "strictly_sorted xs \<Longrightarrow> strictly_sorted (set_insert x xs)"
  by (simp add: strictly_sorted_def set_insert_def strict_sorted_iff sorted_insort_insert
      distinct_insort_insert)

lemma strictly_sorted_Nil [simp]: "strictly_sorted []"
  by (simp add: strictly_sorted_def)

lemma foldl_set_insert:
  "strictly_sorted u \<Longrightarrow> strictly_sorted (foldl (\<lambda>u p. set_insert (f p) u) u ps) \<and>
   set (foldl (\<lambda>u p. set_insert (f p) u) u ps) = set u \<union> f ` set ps"
  by (induction ps arbitrary: u) auto

definition axis_ok :: "string \<Rightarrow> bool" where
  "axis_ok a \<longleftrightarrow> a = ''X'' \<or> a = ''Y'' \<or> a = ''Z''"

definition request_ok :: "PointReadRequest \<Rightarrow> bool" where
  "request_ok r \<longleftrightarrow>
     pred_option (\<lambda>c. 1 \<le> c \<and> c \<le> int_max) (req_epsgCode r) \<and>
     req_linearUnit r \<noteq> [] \<and> axis_ok (req_sourceUpAxis r) \<and> axis_ok (req_stageUpAxis r) \<and>
     is_finite (tileSize r) \<and> fle fzero (tileSize r) \<and>
     1 \<le> tileMemoryLimitBytes r \<and> tileMemoryLimitBytes r \<le> u64_max \<and>
     pred_option (\<lambda>n. 1 \<le> n \<and> n \<le> u64_max) (maxPointsPerTile r) \<and>
     minPointsPerTile r \<le> u64_max \<and> 0 \<le> maxTileDepth r \<and> maxTileDepth r \<le> 31 \<and>
     chunkPointLimit (readOptions r) \<le> u64_max \<and> memoryBudgetBytes (readOptions r) \<le> u64_max \<and>
     firstPoint (range (readOptions r)) \<le> u64_max \<and>
     range_pointCount (range (readOptions r)) \<le> u64_max \<and>
     strictly_sorted (classifications (readOptions r)) \<and>
     list_all (\<lambda>c. c \<le> 255) (classifications (readOptions r))"

lemma ParseUnsigned_bound: "ParseUnsigned v = Some n \<Longrightarrow> n \<le> u64_max"
  by (auto simp: ParseUnsigned_def dest: from_chars_u64_bound split: if_splits)

lemma ParsePositiveDouble_ok:
  "ParsePositiveDouble v = (True, x) \<Longrightarrow> is_finite x \<and> fle fzero x \<and> flt fzero x"
  by (auto simp: ParsePositiveDouble_def dest: whole_double_finite intro: flt_imp_fle split: prod.splits)

lemma parse_classification_bound: "parse_classification p = Some n \<Longrightarrow> n \<le> 255"
  by (auto simp: parse_classification_def Let_def split: if_splits option.splits)

lemma ParseClassifications_ok:
  assumes "ParseClassifications v = (ok, cs)"
  shows "strictly_sorted cs \<and> list_all (\<lambda>c. c \<le> 255) cs \<and> (ok \<longleftrightarrow> cs \<noteq> [])"
proof (cases "None \<in> set (map parse_classification (split_on (CHR '','') v))")
  case True
  with assms show ?thesis by (auto simp: ParseClassifications_def)
next
  case False
  let ?ps = "map parse_classification (split_on (CHR '','') v)"
  have cs: "cs = foldl (\<lambda>u p. set_insert (the p) u) [] ?ps" "ok \<longleftrightarrow> cs \<noteq> []"
    using assms False by (auto simp: ParseClassifications_def Let_def)
  have "the p \<le> 255" if p: "p \<in> set ?ps" for p
  proof -
    obtain q where "p = parse_classification q" using p by auto
    moreover have "p \<noteq> None" using p False by metis
    ultimately obtain q where "p = parse_classification q" "p \<noteq> None" by blast
    then show ?thesis using parse_classification_bound [of q] by auto
  qed
  then show ?thesis using cs foldl_set_insert [of "[]" the ?ps] by (auto simp: list_all_iff)
qed

lemma ParseAxis_ok: "ParseAxis v = (axis_ok (Trim v), Trim v)"
  by (simp add: ParseAxis_def axis_ok_def Let_def)

definition same_results :: "PointReadRequest \<Rightarrow> PointReadRequest \<Rightarrow> bool" where
  "same_results r r' \<longleftrightarrow> req_attributes r' = req_attributes r \<and>
     canonicalArguments r' = canonicalArguments r \<and> normalizedArguments r' = normalizedArguments r"

lemma arg_lod_ok: "arg_lod v r = (r', None) \<Longrightarrow> request_ok r \<Longrightarrow> request_ok r' \<and> same_results r r'"
  by (auto simp: arg_lod_def request_ok_def same_results_def dest: ParseUnsigned_bound
      split: if_splits option.splits prod.splits)

lemma arg_epsg_ok: "arg_epsg f v r = (r', None) \<Longrightarrow> request_ok r \<Longrightarrow> request_ok r' \<and> same_results r r'"
  by (auto simp: arg_epsg_def request_ok_def same_results_def dest: ParseUnsigned_bound
      split: if_splits option.splits prod.splits)

lemma arg_linearUnit_ok: "arg_linearUnit f v r = (r', None) \<Longrightarrow> request_ok r \<Longrightarrow> request_ok r' \<and> same_results r r'"
  by (auto simp: arg_linearUnit_def request_ok_def same_results_def dest: ParseUnsigned_bound
      split: if_splits option.splits prod.splits)

lemma arg_sourceUpAxis_ok: "arg_sourceUpAxis f v r = (r', None) \<Longrightarrow> request_ok r \<Longrightarrow> request_ok r' \<and> same_results r r'"
  by (auto simp: arg_sourceUpAxis_def request_ok_def same_results_def ParseAxis_ok
      split: if_splits option.splits prod.splits)

lemma arg_stageUpAxis_ok: "arg_stageUpAxis f v r = (r', None) \<Longrightarrow> request_ok r \<Longrightarrow> request_ok r' \<and> same_results r r'"
  by (auto simp: arg_stageUpAxis_def request_ok_def same_results_def ParseAxis_ok
      split: if_splits option.splits prod.splits)

lemma arg_tile_ok: "arg_tile v r = (r', None) \<Longrightarrow> request_ok r \<Longrightarrow> request_ok r' \<and> same_results r r'"
  by (auto simp: arg_tile_def request_ok_def same_results_def dest: ParseUnsigned_bound
      split: if_splits option.splits prod.splits)

lemma arg_tileSize_ok: "arg_tileSize v r = (r', None) \<Longrightarrow> request_ok r \<Longrightarrow> request_ok r' \<and> same_results r r'"
  by (auto simp: arg_tileSize_def request_ok_def same_results_def dest: ParsePositiveDouble_ok
      split: if_splits option.splits prod.splits)

lemma arg_tileMemoryLimit_ok: "arg_tileMemoryLimit v r = (r', None) \<Longrightarrow> request_ok r \<Longrightarrow> request_ok r' \<and> same_results r r'"
  by (auto simp: arg_tileMemoryLimit_def request_ok_def same_results_def dest: ParseUnsigned_bound
      split: if_splits option.splits prod.splits)

lemma arg_maxPointsPerTile_ok: "arg_maxPointsPerTile f v r = (r', None) \<Longrightarrow> request_ok r \<Longrightarrow> request_ok r' \<and> same_results r r'"
  by (auto simp: arg_maxPointsPerTile_def request_ok_def same_results_def dest: ParseUnsigned_bound
      split: if_splits option.splits prod.splits)

lemma arg_minPointsPerTile_ok: "arg_minPointsPerTile f v r = (r', None) \<Longrightarrow> request_ok r \<Longrightarrow> request_ok r' \<and> same_results r r'"
  by (auto simp: arg_minPointsPerTile_def request_ok_def same_results_def dest: ParseUnsigned_bound
      split: if_splits option.splits prod.splits)

lemma arg_maxDepth_ok: "arg_maxDepth f v r = (r', None) \<Longrightarrow> request_ok r \<Longrightarrow> request_ok r' \<and> same_results r r'"
  by (auto simp: arg_maxDepth_def request_ok_def same_results_def dest: ParseUnsigned_bound
      split: if_splits option.splits prod.splits)

lemma arg_payloadDirectory_ok: "arg_payloadDirectory v r = (r', None) \<Longrightarrow> request_ok r \<Longrightarrow> request_ok r' \<and> same_results r r'"
  by (auto simp: arg_payloadDirectory_def request_ok_def same_results_def dest: ParseUnsigned_bound
      split: if_splits option.splits prod.splits)

lemma arg_chunkPointLimit_ok: "arg_chunkPointLimit v r = (r', None) \<Longrightarrow> request_ok r \<Longrightarrow> request_ok r' \<and> same_results r r'"
  by (auto simp: arg_chunkPointLimit_def request_ok_def same_results_def dest: ParseUnsigned_bound
      split: if_splits option.splits prod.splits)

lemma arg_memoryBudgetBytes_ok: "arg_memoryBudgetBytes v r = (r', None) \<Longrightarrow> request_ok r \<Longrightarrow> request_ok r' \<and> same_results r r'"
  by (auto simp: arg_memoryBudgetBytes_def request_ok_def same_results_def dest: ParseUnsigned_bound
      split: if_splits option.splits prod.splits)

lemma arg_rangeFirstPoint_ok: "arg_rangeFirstPoint v r = (r', None) \<Longrightarrow> request_ok r \<Longrightarrow> request_ok r' \<and> same_results r r'"
  by (auto simp: arg_rangeFirstPoint_def request_ok_def same_results_def dest: ParseUnsigned_bound
      split: if_splits option.splits prod.splits)

lemma arg_rangePointCount_ok: "arg_rangePointCount v r = (r', None) \<Longrightarrow> request_ok r \<Longrightarrow> request_ok r' \<and> same_results r r'"
  by (auto simp: arg_rangePointCount_def request_ok_def same_results_def dest: ParseUnsigned_bound
      split: if_splits option.splits prod.splits)

lemma arg_bounds_ok: "arg_bounds v r = (r', None) \<Longrightarrow> request_ok r \<Longrightarrow> request_ok r' \<and> same_results r r'"
  by (auto simp: arg_bounds_def request_ok_def same_results_def dest: ParseUnsigned_bound
      split: if_splits option.splits prod.splits)

lemma arg_classification_ok: "arg_classification v r = (r', None) \<Longrightarrow> request_ok r \<Longrightarrow> request_ok r' \<and> same_results r r'"
  by (auto simp: arg_classification_def request_ok_def same_results_def dest: ParseClassifications_ok
      split: if_splits option.splits prod.splits)

lemmas handlers_ok = arg_lod_ok arg_epsg_ok arg_linearUnit_ok arg_sourceUpAxis_ok arg_stageUpAxis_ok arg_tile_ok arg_tileSize_ok arg_tileMemoryLimit_ok arg_maxPointsPerTile_ok arg_minPointsPerTile_ok arg_maxDepth_ok arg_payloadDirectory_ok arg_chunkPointLimit_ok arg_memoryBudgetBytes_ok arg_rangeFirstPoint_ok arg_rangePointCount_ok arg_bounds_ok arg_classification_ok

lemma select_attributes_sorted:
  "strictly_sorted s \<Longrightarrow> select_attributes f ps s = (s', d) \<Longrightarrow> strictly_sorted s'"
  by (induction f ps s rule: select_attributes.induct)
    (auto simp: Let_def AddAttributeGroup_def foldl_set_insert split: if_splits)

definition state_ok :: "ArgState \<Rightarrow> bool" where
  "state_ok st \<longleftrightarrow> request_ok (request st) \<and> strictly_sorted (selectedAttributes st) \<and>
     req_attributes (request st) = [] \<and> canonicalArguments (request st) = [] \<and>
     normalizedArguments (request st) = []"

lemma handled_ok:
  assumes "handled st h = (st', None)" "state_ok st"
    "\<And>r'. h = (r', None) \<Longrightarrow> request_ok (request st) \<Longrightarrow> request_ok r' \<and> same_results (request st) r'"
  shows "state_ok st'"
  using assms by (cases h) (auto simp: handled_def state_ok_def same_results_def)

lemma apply_argument_ok:
  assumes "apply_argument f k v st = (st', None)" "state_ok st"
  shows "state_ok st'"
proof -
  have attr: "state_ok st'"
    if "(case select_attributes f ps (selectedAttributes st) of
           (selected, d) \<Rightarrow> (st\<lparr>selectedAttributes := selected, attributesSpecified := True\<rparr>, d)) = (st', None)"
    for ps
    using that assms(2) select_attributes_sorted [of "selectedAttributes st" f ps]
    by (auto simp: state_ok_def split: prod.splits)
  show ?thesis
    using assms(1) unfolding apply_argument_def Let_def
    by (simp only: split: if_split_asm)
      (erule handled_ok [OF _ assms(2)], erule handlers_ok, assumption | erule attr | simp)+
qed

lemma apply_arguments_ok:
  "apply_arguments f kvs st = (st', None) \<Longrightarrow> state_ok st \<Longrightarrow> state_ok st'"
  by (induction f kvs st rule: apply_arguments.induct)
    (auto split: prod.splits option.splits intro: apply_argument_ok)

lemma initial_state_ok: "state_ok initial_state"
  by (simp add: state_ok_def initial_state_def default_request_def request_ok_def axis_ok_def
      default_read_options_def)

lemma foldl_emit_pair_sorted:
  "key_sorted (fst acc) \<Longrightarrow> key_sorted (fst (foldl emit_pair acc kvs))"
  by (induction kvs arbitrary: acc) (auto simp: emit_pair_def)

lemma with_canonical_same:
  "readOptions (with_canonical st) = readOptions (request st)"
  "req_attributes (with_canonical st) = req_attributes (request st)"
  "tiled (with_canonical st) = tiled (request st)"
  "tileSize (with_canonical st) = tileSize (request st)"
  "lodProfile (with_canonical st) = lodProfile (request st)"
  "payloadDirectory (with_canonical st) = payloadDirectory (request st)"
  "maxPointsPerTile (with_canonical st) = maxPointsPerTile (request st)"
  "minPointsPerTile (with_canonical st) = minPointsPerTile (request st)"
  "request_ok (with_canonical st) = request_ok (request st)"
  by (simp_all add: with_canonical_def request_ok_def split: prod.splits)

lemma with_canonical_sorted:
  assumes "canonicalArguments (request st) = []"
  shows "key_sorted (canonicalArguments (with_canonical st))"
  using foldl_emit_pair_sorted [of "([], normalizedArguments (request st))" "canonical_pairs st"] assms
  by (simp add: with_canonical_def split: prod.splits) (metis fst_conv)

lemma finish_attributes_same:
  "request_ok (request (finish_attributes st)) = request_ok (request st)"
  "readOptions (request (finish_attributes st)) = readOptions (request st)"
  "tiled (request (finish_attributes st)) = tiled (request st)"
  "tileSize (request (finish_attributes st)) = tileSize (request st)"
  "lodProfile (request (finish_attributes st)) = lodProfile (request st)"
  "payloadDirectory (request (finish_attributes st)) = payloadDirectory (request st)"
  "maxPointsPerTile (request (finish_attributes st)) = maxPointsPerTile (request st)"
  "minPointsPerTile (request (finish_attributes st)) = minPointsPerTile (request st)"
  "canonicalArguments (request (finish_attributes st)) = canonicalArguments (request st)"
  by (simp_all add: finish_attributes_def Let_def request_ok_def)

lemma finish_attributes_sorted:
  "state_ok st \<Longrightarrow> strictly_sorted (req_attributes (request (finish_attributes st))) \<and>
   (req_attributes (request (finish_attributes st)) \<noteq> [] \<longrightarrow>
      ''xyz'' \<in> set (req_attributes (request (finish_attributes st))))"
  by (auto simp: finish_attributes_def Let_def state_ok_def)

lemma check_request_None:
  "check_request r = None \<longleftrightarrow>
     PointReadOptions_IsValid (readOptions r) \<and>
     (tiled r \<longrightarrow> (adaptive r \<or> \<not> fle (tileSize r) fzero) \<and> payloadDirectory r \<noteq> [] \<and> lodProfile r = Off) \<and>
     (adaptive r \<longrightarrow> \<not> flt fzero (tileSize r) \<and> minPointsPerTile r \<le> the (maxPointsPerTile r) \<and>
        \<not> maxTileDepth r < 0) \<and>
     (0 < minPointsPerTile r \<longrightarrow> adaptive r)"
  by (auto simp: check_request_def)

text \<open>
  Claim C21: Every accepted request is in range: its read options are valid, every number is
  within its limits (EPSG code, tile depth, 64-bit counts, classifications as a strictly
  increasing list of bytes), axes are X, Y or Z, the tile size is finite and not negative; a
  tiled request has a payload directory, no LOD profile and exactly one of a tile size and a
  point budget; a minimum point count comes with a maximum at least as large; selected
  attributes are strictly sorted and include the positions; the canonical arguments are a map
  in key order.
\<close>

theorem accepted_request_in_range:
  assumes "NormalizeFileFormatArguments arguments format = (True, r, ds)"
  shows "ds = [] \<and> PointReadOptions_IsValid (readOptions r) \<and> request_ok r \<and>
    (tiled r \<longrightarrow> payloadDirectory r \<noteq> [] \<and> lodProfile r = Off \<and>
       (flt fzero (tileSize r) \<longleftrightarrow> maxPointsPerTile r = None)) \<and>
    (0 < minPointsPerTile r \<longrightarrow> (\<exists>m. maxPointsPerTile r = Some m \<and> minPointsPerTile r \<le> m)) \<and>
    strictly_sorted (req_attributes r) \<and>
    (req_attributes r \<noteq> [] \<longrightarrow> ''xyz'' \<in> set (req_attributes r)) \<and>
    key_sorted (canonicalArguments r)"
proof -
  obtain st where st: "apply_arguments format arguments initial_state = (st, None)"
    "check_request (request st) = None" "r = with_canonical (finish_attributes st)" "ds = []"
    using assms by (auto simp: NormalizeFileFormatArguments_def split: prod.splits option.splits)
  have ok: "state_ok st" using apply_arguments_ok [OF st(1) initial_state_ok] .
  then have open_st: "request_ok (request st)" "canonicalArguments (request st) = []"
    by (simp_all add: state_ok_def)
  then have fin: "tileSize (request st) \<noteq> F_NaN" "is_finite (tileSize (request st))"
    by (auto simp: request_ok_def)
  have "\<not> fle (tileSize (request st)) fzero \<longleftrightarrow> flt fzero (tileSize (request st))"
    using fin(2) by auto
  moreover have "key_sorted (canonicalArguments r)"
    unfolding st(3) by (rule with_canonical_sorted) (simp add: finish_attributes_same open_st(2))
  ultimately show ?thesis
    using st(2,4) open_st(1) finish_attributes_sorted [OF ok]
    unfolding check_request_None adaptive_def
    by (auto simp: st(3) with_canonical_same finish_attributes_same)
qed

lemma normalize_lod_tile:
  "NormalizeFileFormatArguments [(''lod'', ''quality''), (''tile'', ''false'')] Las =
     (True, with_canonical (initial_state\<lparr>request := default_request\<lparr>lodProfile := Quality\<rparr>\<rparr>), [])"
  by (simp add: NormalizeFileFormatArguments_def apply_argument_def arg_lod_def arg_tile_def
      handled_def Trim_def trim_of_fix c_isspace_def parse_profile_def check_request_def
      initial_state_def default_request_def finish_attributes_def PointReadOptions_IsValid_def
      default_read_options_def PointRange_IsValid_def adaptive_def)

theorem accepted_request_in_range_witness:
  "request_ok (with_canonical (initial_state\<lparr>request := default_request\<lparr>lodProfile := Quality\<rparr>\<rparr>))"
  using accepted_request_in_range [OF normalize_lod_tile] by simp

definition argument_error :: "Diagnostic \<Rightarrow> bool" where
  "argument_error d \<longleftrightarrow> severity d = Error \<and>
     code d \<in> {UnknownFormatArgument, UnsupportedFormatArgument, InvalidFormatArgument,
       ConflictingFormatArguments}"

lemma argument_error_simps [simp]:
  "argument_error (invalid_argument m)" "argument_error (unknown_argument m)"
  "argument_error (error_diag ConflictingFormatArguments m)"
  "argument_error (error_diag UnsupportedFormatArgument m)"
  by (simp_all add: argument_error_def invalid_argument_def unknown_argument_def error_diag_def)

lemma handlers_report:
  "pred_option argument_error (snd (arg_lod v r))"
  "pred_option argument_error (snd (arg_epsg f v r))"
  "pred_option argument_error (snd (arg_linearUnit f v r))"
  "pred_option argument_error (snd (arg_sourceUpAxis f v r))"
  "pred_option argument_error (snd (arg_stageUpAxis f v r))"
  "pred_option argument_error (snd (arg_tile v r))"
  "pred_option argument_error (snd (arg_tileSize v r))"
  "pred_option argument_error (snd (arg_tileMemoryLimit v r))"
  "pred_option argument_error (snd (arg_maxPointsPerTile f v r))"
  "pred_option argument_error (snd (arg_minPointsPerTile f v r))"
  "pred_option argument_error (snd (arg_maxDepth f v r))"
  "pred_option argument_error (snd (arg_payloadDirectory v r))"
  "pred_option argument_error (snd (arg_chunkPointLimit v r))"
  "pred_option argument_error (snd (arg_memoryBudgetBytes v r))"
  "pred_option argument_error (snd (arg_rangeFirstPoint v r))"
  "pred_option argument_error (snd (arg_rangePointCount v r))"
  "pred_option argument_error (snd (arg_bounds v r))"
  "pred_option argument_error (snd (arg_classification v r))"
  by (simp_all add: arg_lod_def arg_epsg_def arg_linearUnit_def arg_sourceUpAxis_def arg_stageUpAxis_def
      arg_tile_def arg_tileSize_def arg_tileMemoryLimit_def arg_maxPointsPerTile_def
      arg_minPointsPerTile_def arg_maxDepth_def arg_payloadDirectory_def arg_chunkPointLimit_def
      arg_memoryBudgetBytes_def arg_rangeFirstPoint_def arg_rangePointCount_def arg_bounds_def
      arg_classification_def
      split: option.split prod.split)

lemma select_attributes_report: "pred_option argument_error (snd (select_attributes f ps s))"
  by (induction f ps s rule: select_attributes.induct) (auto simp: Let_def)

lemma apply_argument_report: "pred_option argument_error (snd (apply_argument f k v st))"
  unfolding apply_argument_def Let_def
  by (simp add: handled_def handlers_report split: prod.split)
    (metis select_attributes_report snd_conv)

lemma apply_arguments_report: "pred_option argument_error (snd (apply_arguments f kvs st))"
proof (induction f kvs st rule: apply_arguments.induct)
  case (2 f kv rest st)
  then show ?case
    using apply_argument_report [of f "fst kv" "snd kv" st] by (auto split: prod.split option.split)
qed simp

lemma check_request_report: "pred_option argument_error (check_request r)"
  by (simp add: check_request_def)

text \<open>
  Normalisation reports exactly one diagnostic, an error about the format arguments,
  for every rejected argument map and none for an accepted one.
\<close>

theorem rejection_reported_once:
  "case NormalizeFileFormatArguments arguments format of (ok, r, ds) \<Rightarrow>
     if ok then ds = [] else (\<exists>d. ds = [d] \<and> argument_error d)"
  using apply_arguments_report [of format arguments initial_state] check_request_report
  unfolding NormalizeFileFormatArguments_def
  by (auto split: prod.split option.split) (metis option.pred_inject(2))

section \<open>Selecting attributes keeps point data valid\<close>

lemma keep_column_length: "HasPointCountOrIsEmpty xs n \<Longrightarrow> HasPointCountOrIsEmpty (keep_column b xs) n"
  by (simp add: keep_column_def HasPointCountOrIsEmpty_def)

lemma keep_column_Nil: "keep_column b xs = [] \<longleftrightarrow> (b \<longrightarrow> xs = [])"
  by (simp add: keep_column_def)

lemma keep_extra_values:
  "extra_values_valid n c xs \<Longrightarrow> extra_values_valid n c (keep_column b xs)"
  by (auto simp: extra_values_valid_def keep_column_def)

lemma selected_columns_valid:
  assumes "PointData_IsValid d"
  shows "PointData_IsValid (selected_columns d attributes)"
proof -
  let ?d = "selected_columns d attributes"
  have p: "positions ?d = positions d" "length (extraBytes ?d) = length (extraBytes d)"
    "extraByteComponentCounts ?d = extraByteComponentCounts d"
    by (simp_all add: selected_columns_def Let_def)
  have cc: "component_count ?d i = component_count d i" for i
    by (simp add: component_count_def p)
  have "extra_bytes_valid d" using assms by (simp add: PointData_IsValid_def Let_def)
  then have "extra_bytes_valid ?d"
    unfolding extra_bytes_valid_def p cc
    by (simp add: selected_columns_def Let_def list_all_iff keep_extra_values)
  then show ?thesis
    using assms unfolding PointData_IsValid_def Let_def p
    by (simp add: selected_columns_def Let_def keep_column_length keep_column_Nil) (elim conjE, simp)
qed

text \<open>
  Claim C24: Attribute selection on valid point data always succeeds, leaves the error text
  alone and gives valid point data with the same positions: the last consistency error of the
  code cannot occur.
\<close>

theorem selection_keeps_valid:
  assumes "PointData_IsValid d"
  shows "\<exists>d'. SelectPointDataAttributes d attributes err = (True, d', err) \<and>
    PointData_IsValid d' \<and> positions d' = positions d \<and>
    (attributes \<noteq> [] \<and> ''red'' \<notin> set attributes \<longrightarrow> red d' = [] \<and> green d' = [] \<and> blue d' = [])"
  using selected_columns_valid [OF assms, of attributes] assms
  by (auto simp: SelectPointDataAttributes_def Let_def)
    (auto simp: selected_columns_def Let_def keep_column_def)

theorem selection_keeps_valid_witness:
  "\<exists>d'. SelectPointDataAttributes sample_data [''xyz'', ''intensity''] [] = (True, d', []) \<and>
    PointData_IsValid d' \<and> positions d' = positions sample_data"
  using selection_keeps_valid [OF sample_data_valid, of "[''xyz'', ''intensity'']" "[]"] by auto

section \<open>Canonical text of small numbers\<close>

definition tiled_request :: "fl \<Rightarrow> PointReadRequest" where
  "tiled_request x = default_request\<lparr>payloadDirectory := ''d'', tileSize := x, tiled := True,
     canonicalArguments := [(''payloadDirectory'', ''d''), (''tile'', ''true''),
       (''tileSize'', to_string_double x)],
     normalizedArguments := ''tile=true&tileSize='' @ to_string_double x @ ''&payloadDirectory=d''\<rparr>"

lemma tiled_keys_order:
  "\<not> ''tileSize'' < ''tile''" "''payloadDirectory'' < ''tile''"
  by code_simp+

lemma normalize_tile_size:
  assumes "ParsePositiveDouble v = (True, x)"
  shows "NormalizeFileFormatArguments [(''payloadDirectory'', ''d''), (''tileSize'', v)] Las =
    (True, tiled_request x, [])"
proof -
  have "is_finite x" "\<not> fval x \<le> 0" using ParsePositiveDouble_ok [OF assms] by auto
  then show ?thesis
    by (simp add: NormalizeFileFormatArguments_def apply_argument_def arg_payloadDirectory_def
      arg_tileSize_def assms handled_def check_request_def initial_state_def default_request_def
      finish_attributes_def PointReadOptions_IsValid_def default_read_options_def
      PointRange_IsValid_def adaptive_def tiled_request_def with_canonical_def canonical_pairs_def
      canonical_read_def canonical_bounds_def canonical_source_def canonical_tiles_def arg_if_def
      emit_pair_def tiled_keys_order)
qed

lemma parsed_sizes:
  "ParsePositiveDouble ''1e-7'' = (True, F_Fin (944473296573929 / 9444732965739290427392))"
  "ParsePositiveDouble ''2e-7'' = (True, F_Fin (944473296573929 / 4722366482869645213696))"
  "ParsePositiveDouble ''0.000000'' = (False, F_Fin 0)"
  by code_simp+

lemma to_string_tiny:
  assumes "0 \<le> q" "q * 10 ^ 6 < 1 / 2"
  shows "to_string_double (F_Fin q) = ''0.000000''"
proof -
  have "\<lfloor>q * 10 ^ 6\<rfloor> = 0" using assms by (intro floor_unique) auto
  then have "rne (q * 10 ^ 6) = 0" using assms(2) by (simp add: rne_def Let_def)
  moreover have "show_nat 0 @ ''.'' @ show_padded 6 0 = ''0.000000''" by code_simp
  ultimately show ?thesis using assms(1) by (simp add: show_fixed_def)
qed

text \<open>
  Claim C25: The canonical arguments print doubles with six decimals, so they do not determine
  the request: the tile sizes 1e-7 and 2e-7 are both accepted and give the same canonical
  arguments, and those canonical arguments are themselves rejected, as their tile size reads
  as zero.
\<close>

theorem canonical_arguments_lossy:
  "\<exists>r1 r2. NormalizeFileFormatArguments [(''payloadDirectory'', ''d''), (''tileSize'', ''1e-7'')] Las = (True, r1, []) \<and>
     NormalizeFileFormatArguments [(''payloadDirectory'', ''d''), (''tileSize'', ''2e-7'')] Las = (True, r2, []) \<and>
     tileSize r1 \<noteq> tileSize r2 \<and> canonicalArguments r1 = canonicalArguments r2 \<and>
     \<not> fst (NormalizeFileFormatArguments (canonicalArguments r1) Las)"
proof -
  have "to_string_double (F_Fin (944473296573929 / 9444732965739290427392)) = ''0.000000''" "to_string_double (F_Fin (944473296573929 / 4722366482869645213696)) = ''0.000000''"
    by (rule to_string_tiny; simp)+
  moreover have "\<not> fst (NormalizeFileFormatArguments [(''payloadDirectory'', ''d''),
      (''tile'', ''true''), (''tileSize'', ''0.000000'')] Las)"
    by (simp add: NormalizeFileFormatArguments_def apply_argument_def arg_payloadDirectory_def
        arg_tile_def arg_tileSize_def parsed_sizes handled_def)
  ultimately show ?thesis
    by (simp add: normalize_tile_size [OF parsed_sizes(1)] normalize_tile_size [OF parsed_sizes(2)]
        tiled_request_def)
qed

end
