(* ===== verification/Pose_Bounds.thy ===== *)
theory Pose_Bounds
  imports Point_Cloud
begin

text \<open>
  What the checks of a collection of posed scans mean in exact arithmetic (\<^verbatim>\<open>IsRigidPose\<close>,
  \<^verbatim>\<open>ApplyPose\<close> and \<^verbatim>\<open>ContainsTransformedBounds\<close> of \<^verbatim>\<open>PointCloud.cpp\<close>): an accepted
  pose is a rotation without reflection up to a stated error, and the check of the eight corners of a
  scan covers every point of its box.  The first section bounds the error of a chain of rounded
  operations, by the way each operation carries the errors of its operands.
\<close>

section \<open>Errors of rounded operations\<close>

definition approx :: "rat \<Rightarrow> rat \<Rightarrow> fl \<Rightarrow> rat \<Rightarrow> bool" where
  \<comment> \<open>\<open>x\<close> is at most \<open>b\<close> in size and within \<open>e\<close> of the exact value \<open>q\<close>\<close>
  "approx b e x q \<longleftrightarrow> is_finite x \<and> \<bar>fval x\<bar> \<le> b \<and> \<bar>fval x - q\<bar> \<le> e"

lemma approx_self: "is_finite x \<Longrightarrow> \<bar>fval x\<bar> \<le> b \<Longrightarrow> approx b 0 x (fval x)"
  by (simp add: approx_def)

lemma repr64_powi: "- 1074 \<le> k \<Longrightarrow> repr binary64 (2 powi k)"
  unfolding repr_def by (intro exI [of _ 1] exI [of _ k]) simp

lemma round64:
  assumes "\<bar>q\<bar> \<le> 2 powi k" "- 1022 \<le> k" "k < 1024"
  shows "\<bar>round_rat binary64 q\<bar> \<le> 2 powi k" "\<bar>round_rat binary64 q\<bar> < 2 powi 1024"
    "\<bar>round_rat binary64 q - q\<bar> \<le> 2 powi (k - 53)"
proof -
  show b: "\<bar>round_rat binary64 q\<bar> \<le> 2 powi k"
    using assms by (intro round_rat_bounded repr64_powi) simp_all
  have "2 powi k < (2 :: rat) powi 1024" using assms(3) by (simp only: powi2_less_iff)
  with b show "\<bar>round_rat binary64 q\<bar> < 2 powi 1024" by linarith
  show "\<bar>round_rat binary64 q - q\<bar> \<le> 2 powi (k - 53)"
  proof (cases "q = 0")
    case False
    then have "(2 :: rat) powi ilog2 \<bar>q\<bar> \<le> 2 powi k"
      using ilog2_bounds(1) [of "\<bar>q\<bar>"] assms(1) by linarith
    then have "ilog2 \<bar>q\<bar> \<le> k" by simp
    then have "(2 :: rat) powi ulp_exp binary64 q \<le> 2 powi (k - 53 + 1)"
      using assms(2) by (simp add: ulp_exp_def)
    also have "\<dots> = 2 * 2 powi (k - 53)"
      using powi2_add [of "k - 53" 1] by (simp only: power_int_1_right mult.commute)
    finally show ?thesis using round_rat_near [of binary64 q] by linarith
  qed simp
qed

lemma dadd_value:
  assumes "is_finite x" "is_finite y" "\<bar>round_rat binary64 (fval x + fval y)\<bar> < 2 powi 1024"
  shows "is_finite (dadd x y)" "fval (dadd x y) = round_rat binary64 (fval x + fval y)"
  using assms by (auto simp: fadd_fin is_finite_fround fval_fround)

lemma dmul_value:
  assumes "is_finite x" "is_finite y" "\<bar>round_rat binary64 (fval x * fval y)\<bar> < 2 powi 1024"
  shows "is_finite (dmul x y)" "fval (dmul x y) = round_rat binary64 (fval x * fval y)"
  using assms by (auto simp: fmul_def is_finite_fround fval_fround)

lemma approx_dadd:
  assumes "approx b e x q" "approx c d y r" "b + c \<le> 2 powi k" "- 1022 \<le> k" "k < 1024"
  shows "approx (2 powi k) (e + d + 2 powi (k - 53)) (dadd x y) (q + r)"
proof -
  have f: "is_finite x" "is_finite y" "\<bar>fval x - q\<bar> \<le> e" "\<bar>fval y - r\<bar> \<le> d"
    and "\<bar>fval x\<bar> \<le> b" "\<bar>fval y\<bar> \<le> c" using assms(1,2) by (simp_all add: approx_def)
  then have "\<bar>fval x + fval y\<bar> \<le> 2 powi k" using assms(3) by linarith
  note r = round64 [OF this assms(4,5)]
  note v = dadd_value [OF f(1,2) r(2)]
  have "\<bar>round_rat binary64 (fval x + fval y) - (q + r)\<bar> \<le> e + d + 2 powi (k - 53)"
    using r(3) f(3,4) by linarith
  then show ?thesis using v r(1) by (simp add: approx_def)
qed

lemma approx_fneg: "approx b e x q \<Longrightarrow> approx b e (fneg x) (- q)"
  by (simp add: approx_def abs_le_iff)

lemma approx_dsub:
  assumes "approx b e x q" "approx c d y r" "b + c \<le> 2 powi k" "- 1022 \<le> k" "k < 1024"
  shows "approx (2 powi k) (e + d + 2 powi (k - 53)) (dsub x y) (q - r)"
  using approx_dadd [OF assms(1) approx_fneg [OF assms(2)] assms(3-5)] by (simp add: fsub_def)

lemma approx_dmul:
  assumes "approx b e x q" "approx c d y r" "b * c \<le> 2 powi k" "- 1022 \<le> k" "k < 1024"
  shows "approx (2 powi k) (e * c + (b + e) * d + 2 powi (k - 53)) (dmul x y) (q * r)"
proof -
  have f: "is_finite x" "is_finite y" and e: "\<bar>fval x - q\<bar> \<le> e" "\<bar>fval y - r\<bar> \<le> d"
    and b: "\<bar>fval x\<bar> \<le> b" "\<bar>fval y\<bar> \<le> c" using assms(1,2) by (simp_all add: approx_def)
  have "\<bar>fval x * fval y\<bar> \<le> b * c" unfolding abs_mult using b by (intro mult_mono) auto
  with assms(3) have "\<bar>fval x * fval y\<bar> \<le> 2 powi k" by linarith
  note rd = round64 [OF this assms(4,5)]
  note v = dmul_value [OF f rd(2)]
  have "\<bar>q\<bar> \<le> b + e" using e(1) b(1) by linarith
  then have "\<bar>(fval x - q) * fval y\<bar> \<le> e * c" "\<bar>q * (fval y - r)\<bar> \<le> (b + e) * d"
    unfolding abs_mult using e b by (intro mult_mono; simp)+
  moreover have "fval x * fval y - q * r = (fval x - q) * fval y + q * (fval y - r)" by algebra
  ultimately have "\<bar>round_rat binary64 (fval x * fval y) - q * r\<bar> \<le> e * c + (b + e) * d + 2 powi (k - 53)"
    using rd(3) by linarith
  then show ?thesis using v rd(1) by (simp add: approx_def)
qed

section \<open>Accepted poses\<close>

lemma pose_tolerance_value: "kPoseTolerance = F_Fin (4835703278458517 / 4835703278458516698824704)"
  by code_simp

lemma not_beyond_tolerance:
  "is_finite x \<Longrightarrow> \<not> beyond_tolerance x \<Longrightarrow> \<bar>fval x\<bar> \<le> 4835703278458517 / 4835703278458516698824704"
  by (cases x) (auto simp: beyond_tolerance_def pose_tolerance_value fabs_def split: if_splits)

lemma fround64_small: "fround binary64 False 4 = F_Fin 4" "fround binary64 False 3 = F_Fin 3"
    "fround binary64 False 0 = F_Fin 0"
  using fround_int [of 4 False] fround_int [of 3 False] fround_int [of 0 False] by simp_all

lemma square_nonneg: "is_finite x \<Longrightarrow> fle fzero (dmul x x)"
  using fround_mono [of 0 "fval x * fval x" binary64 False False] by (simp add: fmul_def fround64_small)

lemma square_large: "is_finite x \<Longrightarrow> 2 < \<bar>fval x\<bar> \<Longrightarrow> fle (F_Fin 4) (dmul x x)"
proof -
  assume x: "is_finite x" "2 < \<bar>fval x\<bar>"
  then have "2 * 2 \<le> \<bar>fval x\<bar> * \<bar>fval x\<bar>" by (intro mult_mono) auto
  then show ?thesis
    using x fround_mono [of 4 "fval x * fval x" binary64 False False] by (simp add: fmul_def fround64_small)
qed

lemma dadd_large:
  assumes "fle (F_Fin 4) x" "fle fzero y"
  shows "fle (F_Fin 4) (dadd x y)" "fle (F_Fin 4) (dadd y x)"
proof -
  have m: "fle (F_Fin 4) (fround binary64 s q)" if "4 \<le> q" for s q
    using fround_mono [OF that, of binary64 False s] by (simp add: fround64_small)
  show "fle (F_Fin 4) (dadd x y)" "fle (F_Fin 4) (dadd y x)"
    using assms by (cases x; cases y; auto simp: fle_def intro!: m [unfolded fle_def])+
qed

lemma dadd_nonneg: "fle fzero x \<Longrightarrow> fle fzero y \<Longrightarrow> fle fzero (dadd x y)"
proof -
  assume a: "fle fzero x" "fle fzero y"
  have m: "fle fzero (fround binary64 s q)" if "0 \<le> q" for s q
    using fround_mono [OF that, of binary64 False s] by (simp add: fround64_small)
  show ?thesis using a by (cases x; cases y; auto simp: fle_def intro!: m [unfolded fle_def])
qed

lemma large_beyond: "fle (F_Fin 4) d \<Longrightarrow> beyond_tolerance (dsub d (F_Fin 1))"
proof -
  assume d: "fle (F_Fin 4) d"
  have m: "fle (F_Fin 3) (fround binary64 s q)" if "3 \<le> q" for s q
    using fround_mono [OF that, of binary64 False s] by (simp add: fround64_small)
  have "fle (F_Fin 3) (dsub d (F_Fin 1))"
    using d by (cases d; auto simp: fle_def fsub_def intro!: m [unfolded fle_def])
  then show ?thesis
    by (cases "dsub d (F_Fin 1)") (auto simp: beyond_tolerance_def fabs_def fle_def pose_tolerance_value)
qed

lemma pose_dot_sum:
  "pose_dot p r s = dadd (dadd (dadd fzero (dmul (p ! (r * 4)) (p ! (s * 4))))
     (dmul (p ! (r * 4 + 1)) (p ! (s * 4 + 1)))) (dmul (p ! (r * 4 + 2)) (p ! (s * 4 + 2)))"
  by (simp add: pose_dot_def)

lemma rigid_entries:
  assumes "IsRigidPose p" "length p = 16" "r < 3" "c < 3"
  shows "is_finite (p ! (r * 4 + c)) \<and> \<bar>fval (p ! (r * 4 + c))\<bar> \<le> 2"
proof -
  have fin: "is_finite (p ! i)" if "i < 16" for i
    using assms(1,2) that by (auto simp: IsRigidPose_def list_all_length split: if_splits)
  have row: "r \<in> {0, 1, 2}" "c \<in> {0, 1, 2}" using assms(3,4) by auto
  then have "\<not> beyond_tolerance (dsub (pose_dot p r r) (F_Fin 1))"
    using assms(1) by (auto simp: IsRigidPose_def split: if_splits)
  then have "\<not> fle (F_Fin 4) (pose_dot p r r)" using large_beyond by blast
  moreover have "fle fzero (dmul (p ! (r * 4 + c)) (p ! (r * 4 + c)))" if "c < 3" for c
    using that assms(3) by (intro square_nonneg fin) simp
  note n = this [of 0] this [of 1] this [of 2]
  have z: "fle fzero fzero" by simp
  have "fle (F_Fin 4) (pose_dot p r r)" if l: "fle (F_Fin 4) (dmul (p ! (r * 4 + c)) (p ! (r * 4 + c)))"
  proof -
    consider "c = 0" | "c = 1" | "c = 2" using row(2) by blast
    then show ?thesis
    proof cases
      case 1
      then show ?thesis unfolding pose_dot_sum using l n by (intro dadd_large(1) dadd_large(2)) simp_all
    next
      case 2
      then show ?thesis unfolding pose_dot_sum using l n z
        by (intro dadd_large(1) [OF dadd_large(2)] dadd_nonneg) simp_all
    next
      case 3
      then show ?thesis unfolding pose_dot_sum using l n z by (intro dadd_large(2) dadd_nonneg) simp_all
    qed
  qed
  ultimately have "\<not> fle (F_Fin 4) (dmul (p ! (r * 4 + c)) (p ! (r * 4 + c)))" by blast
  moreover have "is_finite (p ! (r * 4 + c))" using assms(3,4) by (intro fin) simp
  ultimately show ?thesis using square_large not_le by blast
qed

text \<open>
  The entries of the rotation part as exact numbers, their row products and their determinant.
\<close>

definition entry :: "fl list \<Rightarrow> nat \<Rightarrow> nat \<Rightarrow> rat" where
  "entry p row column = fval (p ! (row * 4 + column))"

definition row_product :: "fl list \<Rightarrow> nat \<Rightarrow> nat \<Rightarrow> rat" where
  "row_product p r s = entry p r 0 * entry p s 0 + entry p r 1 * entry p s 1 + entry p r 2 * entry p s 2"

definition exact_determinant :: "fl list \<Rightarrow> rat" where
  "exact_determinant p =
     entry p 0 0 * (entry p 1 1 * entry p 2 2 - entry p 1 2 * entry p 2 1) -
     entry p 0 1 * (entry p 1 0 * entry p 2 2 - entry p 1 2 * entry p 2 0) +
     entry p 0 2 * (entry p 1 0 * entry p 2 1 - entry p 1 1 * entry p 2 0)"

definition pose_slack :: rat where
  "pose_slack = 11 / 10000000000"

definition rotation :: "fl list \<Rightarrow> bool" where
  "rotation p \<longleftrightarrow>
     (\<forall>r \<in> {0, 1, 2}. \<forall>s \<in> {0, 1, 2}. \<bar>row_product p r s - (if r = s then 1 else 0)\<bar> \<le> pose_slack) \<and>
     \<bar>exact_determinant p - 1\<bar> \<le> pose_slack"

lemma approx_entry:
  assumes "IsRigidPose p" "length p = 16" "r < 3" "c < 3"
  shows "approx 2 0 (p ! (r * 4 + c)) (entry p r c)"
  using rigid_entries [OF assms] by (simp add: approx_def entry_def)

lemma approx_pose_dot:
  assumes "IsRigidPose p" "length p = 16" "r < 3" "s < 3"
  shows "approx 16 (1 / 2 ^ 47) (pose_dot p r s) (row_product p r s)"
proof -
  note e = approx_entry [OF assms(1,2)]
  have m: "approx 4 (1 / 2 ^ 51) (dmul (p ! (r * 4 + c)) (p ! (s * 4 + c))) (entry p r c * entry p s c)"
    if "c < 3" for c
    using approx_dmul [OF e [OF assms(3) that] e [OF assms(4) that], of 2] by (simp add: power_int_minus)
  have z: "approx 0 0 fzero 0" by (simp add: approx_def)
  have 1: "approx 4 (1 / 2 ^ 50) (dadd fzero (dmul (p ! (r * 4)) (p ! (s * 4)))) (entry p r 0 * entry p s 0)"
    using approx_dadd [OF z m [of 0], of 2] by (simp add: power_int_minus)
  have 2: "approx 8 (5 / 2 ^ 51)
      (dadd (dadd fzero (dmul (p ! (r * 4)) (p ! (s * 4)))) (dmul (p ! (r * 4 + 1)) (p ! (s * 4 + 1))))
      (entry p r 0 * entry p s 0 + entry p r 1 * entry p s 1)"
    using approx_dadd [OF 1 m [of 1], of 3] by (simp add: power_int_minus)
  have "approx 16 (10 / 2 ^ 51) (pose_dot p r s) (row_product p r s)"
    using approx_dadd [OF 2 m [of 2], of 4] by (simp add: power_int_minus pose_dot_sum row_product_def)
  then show ?thesis by (simp add: approx_def)
qed

lemma approx_determinant:
  assumes "IsRigidPose p" "length p = 16"
  shows "approx 64 (1 / 2 ^ 44) (pose_determinant p) (exact_determinant p)"
proof -
  note e = approx_entry [OF assms]
  note entries = e [of 0 0] e [of 0 1] e [of 0 2] e [of 1 0] e [of 1 1] e [of 1 2] e [of 2 0] e [of 2 1] e [of 2 2]
  have minor: "approx 8 (1 / 2 ^ 49) (dsub (dmul a b) (dmul c d)) (a' * b' - c' * d')"
    if "approx 2 0 a a'" "approx 2 0 b b'" "approx 2 0 c c'" "approx 2 0 d d'" for a b c d a' b' c' d'
  proof -
    have "approx 4 (1 / 2 ^ 51) (dmul a b) (a' * b')" "approx 4 (1 / 2 ^ 51) (dmul c d) (c' * d')"
      using approx_dmul [OF that(1,2), of 2] approx_dmul [OF that(3,4), of 2] by (simp_all add: power_int_minus)
    from approx_dsub [OF this, of 3] show ?thesis by (simp add: power_int_minus)
  qed
  have scaled: "approx 16 (3 / 2 ^ 49) (dmul x m) (x' * m')" if "approx 2 0 x x'" "approx 8 (1 / 2 ^ 49) m m'" for x m x' m'
    using approx_dmul [OF that, of 4] by (simp add: power_int_minus)
  have sum3: "approx 64 (19 / 2 ^ 49) (dadd (dsub x y) z) (x' - y' + z')"
    if "approx 16 (3 / 2 ^ 49) x x'" "approx 16 (3 / 2 ^ 49) y y'" "approx 16 (3 / 2 ^ 49) z z'" for x y z x' y' z'
  proof -
    have "approx 32 (8 / 2 ^ 49) (dsub x y) (x' - y')"
      using approx_dsub [OF that(1,2), of 5] by (simp add: power_int_minus)
    from approx_dadd [OF this that(3), of 6] show ?thesis by (simp add: power_int_minus approx_def)
  qed
  have "approx 64 (19 / 2 ^ 49) (pose_determinant p) (exact_determinant p)"
    unfolding pose_determinant_def exact_determinant_def
    by (intro sum3 scaled minor) (use entries in \<open>simp_all add: numeral_eq_Suc\<close>)
  then show ?thesis by (simp add: approx_def)
qed

lemma fle_not_flt: "fle x y \<Longrightarrow> \<not> flt y x"
  using fle_flt_trans [of x y x] by auto

lemma near_within: "\<bar>d - q\<bar> \<le> e \<Longrightarrow> \<bar>d\<bar> \<le> f \<Longrightarrow> e + f \<le> g \<Longrightarrow> \<bar>q\<bar> \<le> g" for q :: rat
  by linarith

lemma rigid_rotation:
  assumes "IsRigidPose p" "length p = 16"
  shows "rotation p"
proof -
  have one: "approx 1 0 (F_Fin 1) 1" by (simp add: approx_def)
  have near: "\<bar>q - 1\<bar> \<le> pose_slack"
    if "approx b (1 / 2 ^ 44) x q" "b + 1 \<le> 128" "\<not> beyond_tolerance (dsub x (F_Fin 1))" for b x q
  proof -
    have "approx 128 (5 / 2 ^ 46) (dsub x (F_Fin 1)) (q - 1)"
      using approx_dsub [OF that(1) one, of 7] that(2) by (simp add: power_int_minus)
    then have d: "is_finite (dsub x (F_Fin 1))" "\<bar>fval (dsub x (F_Fin 1)) - (q - 1)\<bar> \<le> 5 / 2 ^ 46"
      by (simp_all add: approx_def)
    show ?thesis
      by (rule near_within [OF d(2) not_beyond_tolerance [OF d(1) that(3)]]) (simp add: pose_slack_def)
  qed
  have weak: "approx 16 (1 / 2 ^ 44) (pose_dot p r s) (row_product p r s)" if "r < 3" "s < 3" for r s
    using approx_pose_dot [OF assms that] by (simp add: approx_def)
  have d: "\<not> beyond_tolerance (dsub (pose_dot p r r) (F_Fin 1))" if "r \<in> {0, 1, 2}" for r
    using assms(1) that by (auto simp: IsRigidPose_def split: if_splits)
  have o: "\<not> beyond_tolerance (pose_dot p 0 1)" "\<not> beyond_tolerance (pose_dot p 0 2)"
      "\<not> beyond_tolerance (pose_dot p 1 2)"
    using assms(1) by (auto simp: IsRigidPose_def upt_rec numeral_2_eq_2 split: if_splits)
  have det: "\<not> beyond_tolerance (dsub (pose_determinant p) (F_Fin 1))"
    using assms(1) fle_not_flt by (auto simp: IsRigidPose_def beyond_tolerance_def [of "dsub (pose_determinant p) (F_Fin 1)"]
        split: if_splits)
  have off: "\<bar>row_product p r s\<bar> \<le> pose_slack" if "\<not> beyond_tolerance (pose_dot p r s)" "r < 3" "s < 3" for r s
  proof -
    have d: "is_finite (pose_dot p r s)" "\<bar>fval (pose_dot p r s) - row_product p r s\<bar> \<le> 1 / 2 ^ 44"
      using weak [OF that(2,3)] by (simp_all add: approx_def)
    show ?thesis
      by (rule near_within [OF d(2) not_beyond_tolerance [OF d(1) that(1)]]) (simp add: pose_slack_def)
  qed
  have "\<bar>row_product p r r - 1\<bar> \<le> pose_slack" if "r \<in> {0, 1, 2}" for r
    using near [OF weak _ d [OF that]] that by auto
  moreover have "\<bar>exact_determinant p - 1\<bar> \<le> pose_slack"
    using near [OF approx_determinant [OF assms] _ det] by simp
  moreover have "row_product p r s = row_product p s r" for r s
    by (simp add: row_product_def mult.commute)
  ultimately show ?thesis using off [OF o(1)] off [OF o(2)] off [OF o(3)] by (simp add: rotation_def)
qed

section \<open>Posing a box\<close>

abbreviation rnd :: "rat \<Rightarrow> rat" where
  "rnd \<equiv> round_rat binary64"

definition rounded_row :: "rat \<Rightarrow> rat \<Rightarrow> rat \<Rightarrow> rat \<Rightarrow> rat" where
  \<comment> \<open>a row of the pose, from the three exact products and the translation\<close>
  "rounded_row a b c t = rnd (rnd (rnd (rnd a + rnd b) + rnd c) + t)"

lemma rounded_row_mono:
  assumes "a \<le> a'" "b \<le> b'" "c \<le> c'"
  shows "rounded_row a b c t \<le> rounded_row a' b' c' t"
  unfolding rounded_row_def using assms by (intro round_rat_mono add_mono order_refl) simp_all

lemma powi2_Suc: "2 powi k + 2 powi k = (2 :: rat) powi (k + 1)" for k :: int
  by (simp add: powi2_add)

lemma powi2_le: "i \<le> j \<Longrightarrow> q \<le> 2 powi i \<Longrightarrow> q \<le> (2 :: rat) powi j" for i j :: int
  using powi2_le_iff [of i j] by linarith

lemma pose_row_value:
  assumes "is_finite (p ! i)" "is_finite (p ! (i + 1))" "is_finite (p ! (i + 2))" "is_finite (p ! (i + 3))"
    "\<bar>fval (p ! i)\<bar> \<le> 2" "\<bar>fval (p ! (i + 1))\<bar> \<le> 2" "\<bar>fval (p ! (i + 2))\<bar> \<le> 2"
    and v: "is_finite (vx v)" "is_finite (vy v)" "is_finite (vz v)"
    and "\<bar>fval (p ! (i + 3))\<bar> \<le> 2 powi k" "\<bar>fval (vx v)\<bar> \<le> 2 powi k" "\<bar>fval (vy v)\<bar> \<le> 2 powi k"
      "\<bar>fval (vz v)\<bar> \<le> 2 powi k"
    and k: "0 \<le> k" "k \<le> 1000"
  shows "is_finite (pose_row p i v) \<and> \<bar>fval (pose_row p i v)\<bar> \<le> 2 powi (k + 4) \<and>
    fval (pose_row p i v) = rounded_row (fval (p ! i) * fval (vx v)) (fval (p ! (i + 1)) * fval (vy v))
      (fval (p ! (i + 2)) * fval (vz v)) (fval (p ! (i + 3)))"
proof -
  have prod: "is_finite (dmul a x)" "fval (dmul a x) = rnd (fval a * fval x)" "\<bar>fval (dmul a x)\<bar> \<le> 2 powi (k + 1)"
    if "is_finite a" "is_finite x" "\<bar>fval a\<bar> \<le> 2" "\<bar>fval x\<bar> \<le> 2 powi k" for a x
  proof -
    have "\<bar>fval a * fval x\<bar> \<le> 2 * 2 powi k" unfolding abs_mult using that by (intro mult_mono) auto
    then have "\<bar>fval a * fval x\<bar> \<le> 2 powi (k + 1)" using powi2_Suc [of k] by linarith
    note r = round64(1) [OF this] round64(2) [OF this]
    show "is_finite (dmul a x)" "fval (dmul a x) = rnd (fval a * fval x)" "\<bar>fval (dmul a x)\<bar> \<le> 2 powi (k + 1)"
      using dmul_value [OF that(1,2) r(2)] r(1) k by simp_all
  qed
  have sum: "is_finite (dadd x y)" "fval (dadd x y) = rnd (fval x + fval y)" "\<bar>fval (dadd x y)\<bar> \<le> 2 powi m"
    if "is_finite x" "is_finite y" "\<bar>fval x\<bar> \<le> 2 powi j" "\<bar>fval y\<bar> \<le> 2 powi j" "k \<le> j" "j \<le> k + 3" "m = j + 1"
    for x y j m
  proof -
    have "\<bar>fval x + fval y\<bar> \<le> 2 powi (j + 1)" using powi2_Suc [of j] that by linarith
    note r = round64(1) [OF this] round64(2) [OF this]
    show "is_finite (dadd x y)" "fval (dadd x y) = rnd (fval x + fval y)" "\<bar>fval (dadd x y)\<bar> \<le> 2 powi m"
      using dadd_value [OF that(1,2) r(2)] r(1) k that by simp_all
  qed
  note x = prod [OF assms(1) v(1) assms(5,12)] and y = prod [OF assms(2) v(2) assms(6,13)]
    and z = prod [OF assms(3) v(3) assms(7,14)]
  have ks: "k \<le> k + 1" "k + 1 \<le> k + 3" "k + 2 = k + 1 + 1" "k \<le> k + 2" "k + 2 \<le> k + 3" "k + 3 = k + 2 + 1"
    "k \<le> k + 3" "k + 3 \<le> k + 3" "k + 4 = k + 3 + 1" by simp_all
  note xy = sum [OF x(1) y(1) x(3) y(3) ks(1-3)]
  note z' = powi2_le [OF _ z(3), of "k + 2"]
  note xyz = sum [OF xy(1) z(1) xy(3) z' ks(4-6)]
  note w = sum [OF xyz(1) assms(4) xyz(3) powi2_le [OF ks(7) assms(11)] ks(7-9)]
  show ?thesis using w xyz(2) xy(2) x(2) y(2) z(2) by (simp add: pose_row_def rounded_row_def)
qed

definition coordinates :: "SpatialBounds \<Rightarrow> fl list" where
  "coordinates b = [vx (minimum b), vy (minimum b), vz (minimum b), vx (maximum b), vy (maximum b), vz (maximum b)]"

definition moderate :: "fl list \<Rightarrow> bool" where
  \<comment> \<open>far from the overflow threshold of a double\<close>
  "moderate xs \<longleftrightarrow> (\<forall>x \<in> set xs. \<bar>fval x\<bar> \<le> 2 powi 1000)"

definition largest_coordinate :: "SpatialBounds \<Rightarrow> rat" where
  "largest_coordinate b = foldr (\<lambda>x m. max \<bar>fval x\<bar> m) (coordinates b) 1"

definition inside_by :: "rat \<Rightarrow> SpatialBounds \<Rightarrow> Vec3d \<Rightarrow> bool" where
  "inside_by d b v \<longleftrightarrow> Vec3d_IsFinite v \<and>
     fval (vx (minimum b)) - d \<le> fval (vx v) \<and> fval (vx v) \<le> fval (vx (maximum b)) + d \<and>
     fval (vy (minimum b)) - d \<le> fval (vy v) \<and> fval (vy v) \<le> fval (vy (maximum b)) + d \<and>
     fval (vz (minimum b)) - d \<le> fval (vz v) \<and> fval (vz v) \<le> fval (vz (maximum b)) + d"

lemma product_between:
  assumes "l \<le> x" "x \<le> u"
  shows "\<exists>y \<in> {l, u}. a * y \<le> a * x" "\<exists>y \<in> {l, u}. a * x \<le> a * (y :: rat)"
  using assms mult_left_mono [of l x a] mult_left_mono [of x u a] mult_left_mono_neg [of l x a]
    mult_left_mono_neg [of x u a] by (cases "0 \<le> a"; auto)+

lemma fabs_value: "is_finite x \<Longrightarrow> is_finite (fabs x) \<and> fval (fabs x) = \<bar>fval x\<bar>"
  by (cases x) (auto simp: fabs_def)

lemma foldl_fmax:
  assumes "is_finite a" "list_all is_finite xs"
  shows "is_finite (foldl fmax a xs)" "fval a \<le> fval (foldl fmax a xs)"
    "fval a \<le> m \<Longrightarrow> list_all (\<lambda>x. fval x \<le> m) xs \<Longrightarrow> fval (foldl fmax a xs) \<le> m"
proof -
  have "is_finite (foldl fmax a xs) \<and> fval a \<le> fval (foldl fmax a xs) \<and>
      (fval a \<le> m \<and> list_all (\<lambda>x. fval x \<le> m) xs \<longrightarrow> fval (foldl fmax a xs) \<le> m)"
    using assms
  proof (induction xs arbitrary: a)
    case (Cons x xs)
    then have f: "is_finite (fmax a x)" "fval (fmax a x) = max (fval a) (fval x)" "list_all is_finite xs" by simp_all
    note IH = Cons.IH [OF f(1,3), unfolded f(2)]
    then have "fval a \<le> fval (foldl fmax (fmax a x) xs)" by linarith
    with IH show ?case by simp
  qed simp
  then show "is_finite (foldl fmax a xs)" "fval a \<le> fval (foldl fmax a xs)"
    "fval a \<le> m \<Longrightarrow> list_all (\<lambda>x. fval x \<le> m) xs \<Longrightarrow> fval (foldl fmax a xs) \<le> m" by blast+
qed

lemma foldr_abs_max:
  "1 \<le> foldr (\<lambda>x m. max \<bar>fval x\<bar> m) xs 1"
  "x \<in> set xs \<Longrightarrow> \<bar>fval x\<bar> \<le> foldr (\<lambda>x m. max \<bar>fval x\<bar> m) xs 1"
  by (induction xs) (auto simp: le_max_iff_disj)

lemma largest_coordinate_bounds:
  "1 \<le> largest_coordinate b" "x \<in> set (coordinates b) \<Longrightarrow> \<bar>fval x\<bar> \<le> largest_coordinate b"
  unfolding largest_coordinate_def by (rule foldr_abs_max, erule foldr_abs_max(2))

lemma round64_relative: "\<bar>rnd q - q\<bar> \<le> \<bar>q\<bar> / 2 ^ 53 + 1 / 2 ^ 60"
proof -
  have "(2 :: rat) powi (- 1074) \<le> 2 powi (- 60)" by (simp only: powi2_le_iff)
  moreover have "(2 :: rat) powi (- 60) = 1 / 2 ^ 60" "(2 :: rat) powi (- 53) = 1 / 2 ^ 53"
    by (simp_all add: power_int_minus)
  moreover note round_rat_relative [of binary64 q]
  ultimately show ?thesis by simp
qed

lemma tolerance_value:
  assumes "list_all is_finite (coordinates b)" "Vec3d_IsFinite v" "\<forall>x \<in> set (coordinates b). \<bar>fval x\<bar> \<le> m"
    "\<bar>fval (vx v)\<bar> \<le> m" "\<bar>fval (vy v)\<bar> \<le> m" "\<bar>fval (vz v)\<bar> \<le> m" "1 \<le> m" "m \<le> 2 powi k" "0 \<le> k" "k < 1020"
  shows "is_finite (bounds_tolerance b v) \<and> 0 \<le> fval (bounds_tolerance b v) \<and>
    fval (bounds_tolerance b v) \<le> 101 / 100000000000 * m"
proof -
  let ?xs = "map fabs [vx (minimum b), vy (minimum b), vz (minimum b), vx (maximum b), vy (maximum b), vz (maximum b),
    vx v, vy v, vz v]"
  let ?M = "foldl fmax (F_Fin 1) ?xs" and ?t = "4835703278458517 / 4835703278458516698824704 :: rat"
  have xs: "list_all is_finite ?xs" "list_all (\<lambda>x. fval x \<le> m) ?xs"
    using assms(1-6) by (simp_all add: coordinates_def fabs_value Vec3d_IsFinite_def)
  have one: "is_finite (F_Fin 1)" "fval (F_Fin 1) = 1" by simp_all
  note M = foldl_fmax(1) [OF one(1) xs(1)] foldl_fmax(2) [OF one(1) xs(1), unfolded one(2)]
    foldl_fmax(3) [OF one(1) xs(1) _ xs(2), unfolded one(2), OF assms(7)]
  have t: "is_finite kPoseTolerance" "fval kPoseTolerance = ?t" by (simp_all only: pose_tolerance_value is_finite.simps fval.simps)
  define q where "q = ?t * fval ?M"
  have q: "0 \<le> q" "q \<le> ?t * m" using M by (simp_all add: q_def)
  moreover have "?t * m \<le> 1 * m" using assms(7) by (intro mult_right_mono) simp_all
  ultimately have "\<bar>q\<bar> \<le> 2 powi k" using assms(8) by linarith
  note r = round64(1) [OF this] round64(2) [OF this]
  note d = dmul_value [OF t(1) M(1), unfolded t(2), folded q_def, OF r(2)]
  have "rnd q \<le> q + q / 2 ^ 53 + 1 / 2 ^ 60" using round64_relative [of q] q(1) by linarith
  also have "\<dots> \<le> 101 / 100000000000 * m" using q(2) assms(7) by simp
  finally show ?thesis
    using d assms(9,10) round_rat_nonneg [OF q(1), of binary64] by (simp add: bounds_tolerance_def)
qed

text \<open>A coordinate that the comparison with the widened bounds lets pass.\<close>

lemma widened_coordinate:
  assumes "is_finite l" "is_finite u" "is_finite t" "is_finite x" "\<bar>fval l\<bar> \<le> m" "\<bar>fval u\<bar> \<le> m" "1 \<le> m"
    "m \<le> 2 powi k" "0 \<le> k" "k < 1020" "0 \<le> fval t" "fval t \<le> 101 / 100000000000 * m"
    "\<not> flt x (dsub l t)" "\<not> flt (dadd u t) x"
  shows "fval l - 102 / 100000000000 * m \<le> fval x" "fval x \<le> fval u + 102 / 100000000000 * m"
proof -
  have two: "2 powi (k + 1) = 2 * (2 :: rat) powi k" by (simp add: powi2_add)
  have f: "is_finite (fneg t)" "fval (fneg t) = - fval t" using assms(3) by simp_all
  have "\<bar>fval t\<bar> \<le> m" using assms(7,11,12) by simp
  then have abs: "\<bar>fval l + fval (fneg t)\<bar> \<le> 2 * m" "\<bar>fval u + fval t\<bar> \<le> 2 * m"
    using assms(5,6) unfolding f(2) by linarith+
  then have b: "\<bar>fval l + fval (fneg t)\<bar> \<le> 2 powi (k + 1)" "\<bar>fval u + fval t\<bar> \<le> 2 powi (k + 1)"
    using assms(8) two by linarith+
  have k: "- 1022 \<le> k + 1" "k + 1 < 1024" using assms(9,10) by simp_all
  note lo = dadd_value [OF assms(1) f(1) round64(2) [OF b(1) k]]
  note hi = dadd_value [OF assms(2,3) round64(2) [OF b(2) k]]
  have "\<bar>fval l + fval (fneg t)\<bar> / 2 ^ 53 + 1 / 2 ^ 60 \<le> 1 / 100000000000 * m"
    "\<bar>fval u + fval t\<bar> / 2 ^ 53 + 1 / 2 ^ 60 \<le> 1 / 100000000000 * m"
    using abs assms(7) by simp_all
  then have "fval l - fval t - 1 / 100000000000 * m \<le> fval (dadd l (fneg t))"
    "fval (dadd u t) \<le> fval u + fval t + 1 / 100000000000 * m"
    using lo(2) hi(2) f(2) round64_relative [of "fval l + fval (fneg t)"] round64_relative [of "fval u + fval t"]
    by linarith+
  moreover have "fval (dadd l (fneg t)) \<le> fval x" "fval x \<le> fval (dadd u t)"
    using assms(4,13,14) lo(1) hi(1) by (simp_all add: fsub_def not_less)
  ultimately show "fval l - 102 / 100000000000 * m \<le> fval x" "fval x \<le> fval u + 102 / 100000000000 * m"
    using assms(12) by linarith+
qed

lemma SpatialBounds_coordinates: "SpatialBounds_IsValid b \<Longrightarrow> list_all is_finite (coordinates b)"
  by (simp add: SpatialBounds_IsValid_def coordinates_def)

text \<open>
  A corner that passes the check lies in the container widened by a multiple of the container's own
  largest coordinate: the tolerance also depends on the corner, but cannot grow with it.
\<close>

lemma corner_inside_by:
  assumes "SpatialBounds_IsValid b" "\<not> corner_outside b p v" "Vec3d_IsFinite (ApplyPose p v)"
    "\<bar>fval (vx (ApplyPose p v))\<bar> \<le> 2 powi k" "\<bar>fval (vy (ApplyPose p v))\<bar> \<le> 2 powi k"
    "\<bar>fval (vz (ApplyPose p v))\<bar> \<le> 2 powi k" "largest_coordinate b \<le> 2 powi k" "0 \<le> k" "k < 1020"
  shows "inside_by (pose_slack * largest_coordinate b) b (ApplyPose p v)"
proof -
  define t where "t = ApplyPose p v"
  let ?K = "largest_coordinate b"
  define m where "m = max ?K (max \<bar>fval (vx t)\<bar> (max \<bar>fval (vy t)\<bar> \<bar>fval (vz t)\<bar>))"
  have c: "list_all is_finite (coordinates b)" using assms(1) by (rule SpatialBounds_coordinates)
  have m: "?K \<le> m" "\<bar>fval (vx t)\<bar> \<le> m" "\<bar>fval (vy t)\<bar> \<le> m" "\<bar>fval (vz t)\<bar> \<le> m" "m \<le> 2 powi k"
    using assms(4-7) by (simp_all add: m_def t_def le_max_iff_disj)
  then have m1: "1 \<le> m" "\<forall>x \<in> set (coordinates b). \<bar>fval x\<bar> \<le> m"
    using largest_coordinate_bounds(1) [of b] largest_coordinate_bounds(2) [of _ b] by (simp, meson order_trans)
  have f: "Vec3d_IsFinite t" using assms(3) by (simp add: t_def)
  define tol where "tol = bounds_tolerance b t"
  have tol: "is_finite tol" "0 \<le> fval tol" "fval tol \<le> 101 / 100000000000 * m"
    using tolerance_value [OF c f m1(2) m(2-4) m1(1) m(5) assms(8,9)] by (simp_all add: tol_def)
  have out: "\<not> flt (vx t) (dsub (vx (minimum b)) tol)" "\<not> flt (dadd (vx (maximum b)) tol) (vx t)"
    "\<not> flt (vy t) (dsub (vy (minimum b)) tol)" "\<not> flt (dadd (vy (maximum b)) tol) (vy t)"
    "\<not> flt (vz t) (dsub (vz (minimum b)) tol)" "\<not> flt (dadd (vz (maximum b)) tol) (vz t)"
    using assms(2) by (simp_all add: corner_outside_def Let_def t_def tol_def)
  have b: "is_finite x" "\<bar>fval x\<bar> \<le> m" if "x \<in> set (coordinates b)" for x
    using c m1(2) that by (auto simp: list_all_iff)
  have mem: "vx (minimum b) \<in> set (coordinates b)" "vy (minimum b) \<in> set (coordinates b)"
    "vz (minimum b) \<in> set (coordinates b)" "vx (maximum b) \<in> set (coordinates b)"
    "vy (maximum b) \<in> set (coordinates b)" "vz (maximum b) \<in> set (coordinates b)" by (simp_all add: coordinates_def)
  have tf: "is_finite (vx t)" "is_finite (vy t)" "is_finite (vz t)" using f by (simp_all add: Vec3d_IsFinite_def)
  note wide = widened_coordinate [OF b(1) b(1) tol(1) _ b(2) b(2) m1(1) m(5) assms(8,9) tol(2,3)]
  note x = wide [OF mem(1,4) tf(1) mem(1,4) out(1,2)] and y = wide [OF mem(2,5) tf(2) mem(2,5) out(3,4)]
    and z = wide [OF mem(3,6) tf(3) mem(3,6) out(5,6)]
  have K: "\<bar>fval x\<bar> \<le> ?K" if "x \<in> set (coordinates b)" for x using largest_coordinate_bounds(2) that .
  have "\<bar>fval (vx t)\<bar> \<le> ?K + 102 / 100000000000 * m" "\<bar>fval (vy t)\<bar> \<le> ?K + 102 / 100000000000 * m"
    "\<bar>fval (vz t)\<bar> \<le> ?K + 102 / 100000000000 * m"
    using x y z K [OF mem(1)] K [OF mem(2)] K [OF mem(3)] K [OF mem(4)] K [OF mem(5)] K [OF mem(6)] by linarith+
  then have "m \<le> ?K + 102 / 100000000000 * m"
    using m1(1) by (simp add: m_def [symmetric] max_def m_def split: if_splits)
  then have "102 / 100000000000 * m \<le> pose_slack * ?K"
    using largest_coordinate_bounds(1) [of b] by (simp add: pose_slack_def)
  then show ?thesis
    using x y z f unfolding inside_by_def t_def [symmetric] by (intro conjI; linarith?)
qed

lemma posed_rows:
  assumes "IsRigidPose p" "length p = 16" "\<forall>i \<in> {3, 7, 11}. \<bar>fval (p ! i)\<bar> \<le> 2 powi k" "Vec3d_IsFinite v"
    "\<bar>fval (vx v)\<bar> \<le> 2 powi k" "\<bar>fval (vy v)\<bar> \<le> 2 powi k" "\<bar>fval (vz v)\<bar> \<le> 2 powi k" "0 \<le> k" "k \<le> 1000"
    "i \<in> {0, 4, 8}"
  shows "is_finite (pose_row p i v)" "\<bar>fval (pose_row p i v)\<bar> \<le> 2 powi (k + 4)"
    "fval (pose_row p i v) = rounded_row (fval (p ! i) * fval (vx v)) (fval (p ! (i + 1)) * fval (vy v))
      (fval (p ! (i + 2)) * fval (vz v)) (fval (p ! (i + 3)))"
proof -
  have "i \<in> {0 * 4, 1 * 4, 2 * 4}" using assms(10) by simp
  then obtain r where i: "i = r * 4" "r < 3" by auto
  note e = rigid_entries [OF assms(1,2) i(2)]
  have "list_all is_finite p" using assms(1) by (auto simp: IsRigidPose_def split: if_splits)
  then have "is_finite (p ! (i + 3))" using assms(2) i by (simp add: list_all_length)
  moreover have "\<bar>fval (p ! (i + 3))\<bar> \<le> 2 powi k" using assms(3,10) by auto
  ultimately have "is_finite (pose_row p i v) \<and> \<bar>fval (pose_row p i v)\<bar> \<le> 2 powi (k + 4) \<and>
    fval (pose_row p i v) = rounded_row (fval (p ! i) * fval (vx v)) (fval (p ! (i + 1)) * fval (vy v))
      (fval (p ! (i + 2)) * fval (vz v)) (fval (p ! (i + 3)))"
    using e [of 0] e [of 1] e [of 2] i(1) assms(4-9)
    by (intro pose_row_value) (simp_all add: Vec3d_IsFinite_def)
  then show "is_finite (pose_row p i v)" "\<bar>fval (pose_row p i v)\<bar> \<le> 2 powi (k + 4)"
    "fval (pose_row p i v) = rounded_row (fval (p ! i) * fval (vx v)) (fval (p ! (i + 1)) * fval (vy v))
      (fval (p ! (i + 2)) * fval (vz v)) (fval (p ! (i + 3)))" by blast+
qed

lemma between_abs: "l \<le> x \<Longrightarrow> x \<le> u \<Longrightarrow> \<bar>l\<bar> \<le> m \<Longrightarrow> \<bar>u\<bar> \<le> m \<Longrightarrow> \<bar>x\<bar> \<le> m" for m :: rat
  by linarith

text \<open>Each row of a posed point lies between that row at two corners of the box.\<close>

lemma row_between_corners:
  assumes pose: "IsRigidPose p" "length p = 16" "\<forall>i \<in> {3, 7, 11}. \<bar>fval (p ! i)\<bar> \<le> 2 powi k" "0 \<le> k" "k \<le> 1000"
    and box: "SpatialBounds_IsValid a" "\<forall>x \<in> set (coordinates a). \<bar>fval x\<bar> \<le> 2 powi k"
    and v: "in_bounds a v" "Vec3d_IsFinite v" and i: "i \<in> {0, 4, 8}"
  shows "\<exists>c \<in> set (bounds_corners a). fval (pose_row p i c) \<le> fval (pose_row p i v)"
    "\<exists>c \<in> set (bounds_corners a). fval (pose_row p i v) \<le> fval (pose_row p i c)"
    "\<bar>fval (vx v)\<bar> \<le> 2 powi k" "\<bar>fval (vy v)\<bar> \<le> 2 powi k" "\<bar>fval (vz v)\<bar> \<le> 2 powi k"
proof -
  have fin: "is_finite x" if "x \<in> set (coordinates a)" for x
    using SpatialBounds_coordinates [OF box(1)] that by (auto simp: list_all_iff)
  have vf: "is_finite (vx v)" "is_finite (vy v)" "is_finite (vz v)" using v(2) by (simp_all add: Vec3d_IsFinite_def)
  have le: "fval (vx (minimum a)) \<le> fval (vx v)" "fval (vx v) \<le> fval (vx (maximum a))"
    "fval (vy (minimum a)) \<le> fval (vy v)" "fval (vy v) \<le> fval (vy (maximum a))"
    "fval (vz (minimum a)) \<le> fval (vz v)" "fval (vz v) \<le> fval (vz (maximum a))"
    using v(1) vf fin by (simp_all add: in_bounds_def coordinates_def)
  show vb: "\<bar>fval (vx v)\<bar> \<le> 2 powi k" "\<bar>fval (vy v)\<bar> \<le> 2 powi k" "\<bar>fval (vz v)\<bar> \<le> 2 powi k"
    by (rule between_abs [OF le(1,2)], simp_all add: box(2) coordinates_def,
      rule between_abs [OF le(3,4)], simp_all add: box(2) coordinates_def,
      rule between_abs [OF le(5,6)], simp_all add: box(2) coordinates_def)
  have corner: "fval (pose_row p i (vec x y z)) = rounded_row (fval (p ! i) * fval x) (fval (p ! (i + 1)) * fval y)
      (fval (p ! (i + 2)) * fval z) (fval (p ! (i + 3)))" and mem: "vec x y z \<in> set (bounds_corners a)"
    if "x \<in> {vx (minimum a), vx (maximum a)}" "y \<in> {vy (minimum a), vy (maximum a)}"
      "z \<in> {vz (minimum a), vz (maximum a)}" for x y z
  proof -
    have c: "x \<in> set (coordinates a)" "y \<in> set (coordinates a)" "z \<in> set (coordinates a)"
      using that by (auto simp: coordinates_def)
    then show "fval (pose_row p i (vec x y z)) = rounded_row (fval (p ! i) * fval x) (fval (p ! (i + 1)) * fval y)
      (fval (p ! (i + 2)) * fval z) (fval (p ! (i + 3)))"
      using posed_rows(3) [OF pose(1-3) _ _ _ _ pose(4,5) i, of "vec x y z"] fin box(2)
      by (simp add: Vec3d_IsFinite_def vec_def)
    show "vec x y z \<in> set (bounds_corners a)" using that by (auto simp: bounds_corners_def)
  qed
  note row = posed_rows(3) [OF pose(1-3) v(2) vb pose(4,5) i]
  note bx = product_between [OF le(1,2), of "fval (p ! i)"] and by' = product_between [OF le(3,4), of "fval (p ! (i + 1))"]
    and bz = product_between [OF le(5,6), of "fval (p ! (i + 2))"]
  have pick: "\<exists>x \<in> {l, u}. P (fval x)" if "\<exists>y \<in> {fval l, fval u}. P y" for l u P using that by blast
  obtain x y z where l: "x \<in> {vx (minimum a), vx (maximum a)}" "y \<in> {vy (minimum a), vy (maximum a)}"
    "z \<in> {vz (minimum a), vz (maximum a)}" "fval (p ! i) * fval x \<le> fval (p ! i) * fval (vx v)"
    "fval (p ! (i + 1)) * fval y \<le> fval (p ! (i + 1)) * fval (vy v)"
    "fval (p ! (i + 2)) * fval z \<le> fval (p ! (i + 2)) * fval (vz v)"
    using pick [OF bx(1)] pick [OF by'(1)] pick [OF bz(1)] by metis
  then have "fval (pose_row p i (vec x y z)) \<le> fval (pose_row p i v)"
    unfolding row corner [OF l(1-3)] by (intro rounded_row_mono)
  then show "\<exists>c \<in> set (bounds_corners a). fval (pose_row p i c) \<le> fval (pose_row p i v)"
    using mem [OF l(1-3)] by blast
  obtain x y z where u: "x \<in> {vx (minimum a), vx (maximum a)}" "y \<in> {vy (minimum a), vy (maximum a)}"
    "z \<in> {vz (minimum a), vz (maximum a)}" "fval (p ! i) * fval (vx v) \<le> fval (p ! i) * fval x"
    "fval (p ! (i + 1)) * fval (vy v) \<le> fval (p ! (i + 1)) * fval y"
    "fval (p ! (i + 2)) * fval (vz v) \<le> fval (p ! (i + 2)) * fval z"
    using pick [OF bx(2)] pick [OF by'(2)] pick [OF bz(2)] by metis
  then have "fval (pose_row p i v) \<le> fval (pose_row p i (vec x y z))"
    unfolding row corner [OF u(1-3)] by (intro rounded_row_mono)
  then show "\<exists>c \<in> set (bounds_corners a). fval (pose_row p i v) \<le> fval (pose_row p i c)"
    using mem [OF u(1-3)] by blast
qed

section \<open>Accepted collections\<close>

lemma corner_coordinates:
  "c \<in> set (bounds_corners a) \<Longrightarrow>
   vx c \<in> set (coordinates a) \<and> vy c \<in> set (coordinates a) \<and> vz c \<in> set (coordinates a)"
  by (auto simp: bounds_corners_def coordinates_def)

lemma in_bounds_finite: "SpatialBounds_IsValid a \<Longrightarrow> in_bounds a v \<Longrightarrow> Vec3d_IsFinite v"
  using is_finite_between unfolding SpatialBounds_IsValid_def in_bounds_def Vec3d_IsFinite_def by blast

lemma largest_moderate: "\<forall>x \<in> set (coordinates b). \<bar>fval x\<bar> \<le> m \<Longrightarrow> 1 \<le> m \<Longrightarrow> largest_coordinate b \<le> m"
  by (simp add: largest_coordinate_def coordinates_def)

lemma box_contained:
  assumes pose: "IsRigidPose p" "length p = 16" "\<forall>i \<in> {3, 7, 11}. \<bar>fval (p ! i)\<bar> \<le> 2 powi k" "0 \<le> k" "k \<le> 1000"
    and box: "SpatialBounds_IsValid a" "\<forall>x \<in> set (coordinates a). \<bar>fval x\<bar> \<le> 2 powi k"
    and container: "SpatialBounds_IsValid b" "\<forall>x \<in> set (coordinates b). \<bar>fval x\<bar> \<le> 2 powi k"
    and inside: "\<forall>c \<in> set (bounds_corners a). \<not> corner_outside b p c" and v: "in_bounds a v"
  shows "inside_by (pose_slack * largest_coordinate b) b (ApplyPose p v)"
proof -
  have "(1 :: rat) \<le> 2 powi k" using powi2_le_iff [of 0 k] pose(4) by simp
  then have "largest_coordinate b \<le> 2 powi k" using container(2) largest_moderate by blast
  then have large: "largest_coordinate b \<le> 2 powi (k + 4)" by (rule powi2_le [rotated]) simp
  have rows: "vx (ApplyPose p w) = pose_row p 0 w" "vy (ApplyPose p w) = pose_row p 4 w"
    "vz (ApplyPose p w) = pose_row p 8 w" for w by (simp_all add: ApplyPose_def vec_def)
  have "inside_by (pose_slack * largest_coordinate b) b (ApplyPose p c)" if c: "c \<in> set (bounds_corners a)" for c
  proof -
    have cf: "Vec3d_IsFinite c" "\<bar>fval (vx c)\<bar> \<le> 2 powi k" "\<bar>fval (vy c)\<bar> \<le> 2 powi k" "\<bar>fval (vz c)\<bar> \<le> 2 powi k"
      using corner_coordinates [OF c] box(2) SpatialBounds_coordinates [OF box(1)]
      by (auto simp: Vec3d_IsFinite_def list_all_iff)
    note r = posed_rows(1,2) [OF pose(1-3) cf pose(4,5)]
    show ?thesis
      using inside c r [of 0] r [of 4] r [of 8] large pose(4,5)
      by (intro corner_inside_by [OF container(1), where k = "k + 4"]) (simp_all add: rows Vec3d_IsFinite_def)
  qed
  then have corners: "fval (vx (minimum b)) - pose_slack * largest_coordinate b \<le> fval (pose_row p 0 c)"
    "fval (pose_row p 0 c) \<le> fval (vx (maximum b)) + pose_slack * largest_coordinate b"
    "fval (vy (minimum b)) - pose_slack * largest_coordinate b \<le> fval (pose_row p 4 c)"
    "fval (pose_row p 4 c) \<le> fval (vy (maximum b)) + pose_slack * largest_coordinate b"
    "fval (vz (minimum b)) - pose_slack * largest_coordinate b \<le> fval (pose_row p 8 c)"
    "fval (pose_row p 8 c) \<le> fval (vz (maximum b)) + pose_slack * largest_coordinate b"
    if "c \<in> set (bounds_corners a)" for c using that by (simp_all add: inside_by_def rows)
  have vf: "Vec3d_IsFinite v" using in_bounds_finite [OF box(1) v] .
  note between = row_between_corners [OF pose box v vf]
  have vb: "\<bar>fval (vx v)\<bar> \<le> 2 powi k" "\<bar>fval (vy v)\<bar> \<le> 2 powi k" "\<bar>fval (vz v)\<bar> \<le> 2 powi k"
    using between(3-5) [of 0] by simp_all
  have "Vec3d_IsFinite (ApplyPose p v)"
    using posed_rows(1) [OF pose(1-3) vf vb pose(4,5)] by (simp add: Vec3d_IsFinite_def rows)
  moreover have "l \<le> fval (pose_row p i v)"
    if "\<And>c. c \<in> set (bounds_corners a) \<Longrightarrow> l \<le> fval (pose_row p i c)" "i \<in> {0, 4, 8}" for l i
    using between(1) [OF that(2)] that(1) order_trans by blast
  moreover have "fval (pose_row p i v) \<le> u"
    if "\<And>c. c \<in> set (bounds_corners a) \<Longrightarrow> fval (pose_row p i c) \<le> u" "i \<in> {0, 4, 8}" for u i
    using between(2) [OF that(2)] that(1) order_trans by blast
  ultimately show ?thesis using corners unfolding inside_by_def rows by simp
qed

text \<open>
  Claim C18: What an accepted collection of posed scans guarantees, in exact arithmetic.  Its scans have
  pairwise distinct identifiers; the pose of each is a rotation without reflection, its rows
  orthonormal and its determinant one up to 1.1e-9; and every point of the box of a scan, not only the
  eight corners the code checks, is posed into the box of the collection widened by 1.1e-9 times
  the collection's largest coordinate (at least 1).  Assumed is that a pose has its 16 entries and that
  bounds and translation are at most \<open>2 ^ 1000\<close> in size, so that no product overflows.
\<close>

theorem accepted_collection_contains_scans:
  assumes "PointCloudCollection_IsValid c" "s \<in> set (scans c)" "length (pose s) = 16"
    "moderate (coordinates (coll_bounds c))" "moderate (coordinates (asset_bounds (scan_asset s)))"
    "moderate [pose s ! 3, pose s ! 7, pose s ! 11]" "in_bounds (asset_bounds (scan_asset s)) v"
  shows "distinct (map scan_id (scans c)) \<and> rotation (pose s) \<and>
    inside_by (pose_slack * largest_coordinate (coll_bounds c)) (coll_bounds c) (ApplyPose (pose s) v)"
proof -
  have v: "distinct (map scan_id (scans c))" "SpatialBounds_IsValid (coll_bounds c)" "IsRigidPose (pose s)"
    "SpatialBounds_IsValid (asset_bounds (scan_asset s))"
    "\<forall>k \<in> set (bounds_corners (asset_bounds (scan_asset s))). \<not> corner_outside (coll_bounds c) (pose s) k"
    using assms(1,2) by (auto simp: collection_valid_iff PointCloudAsset_IsValid_def)
  have t: "\<forall>i \<in> {3, 7, 11}. \<bar>fval (pose s ! i)\<bar> \<le> 2 powi 1000"
    using assms(6) unfolding moderate_def by (simp only: list.set ball_simps)
  show ?thesis
    using v(1) rigid_rotation [OF v(3) assms(3)]
      box_contained [OF v(3) assms(3) t _ _ v(4) assms(5) [unfolded moderate_def] v(2) assms(4) [unfolded moderate_def] v(5) assms(7)]
    by (simp only: zero_le_numeral order_refl simp_thms)
qed

theorem accepted_collection_contains_scans_witness:
  "rotation identity_pose \<and>
   inside_by (pose_slack * largest_coordinate sample_bounds) sample_bounds (ApplyPose identity_pose (vec (F_Fin 2) (F_Fin 3) (F_Fin 4)))"
proof -
  have "(6 :: rat) \<le> 2 powi 1000" using powi2_le_iff [of 3 1000] by (simp del: powi2_le_iff)
  then have "moderate (coordinates sample_bounds)" "moderate [fzero, fzero, fzero]"
    by (simp_all add: moderate_def sample_bounds_def coordinates_def)
  then show ?thesis
    using accepted_collection_contains_scans [OF sample_collection_valid, of sample_scan "vec (F_Fin 2) (F_Fin 3) (F_Fin 4)"]
    by (simp add: sample_collection_def sample_scan_def sample_asset_def identity_pose_def in_bounds_def sample_bounds_def)
qed

end
