(* ===== verification/Tile_Grid.thy ===== *)
theory Tile_Grid
  imports Sampling Number_Text
begin

text \<open>
  The first part of \<^verbatim>\<open>Tiling.cpp\<close>: the configurations and their validators, the order on tile
  identifiers, the interface of a tile router, and the fixed-grid router.  The type
  \<^verbatim>\<open>long double\<close> of the grid division is a parameter: any format with a positive precision,
  x87 extended on one platform and binary64 on another.
\<close>

section \<open>Configurations\<close>

record TileGridConfig =
  grid_tileSize :: fl
  grid_level :: int

record PointBudgetConfig =
  budget_maxPoints :: nat
  budget_minPoints :: nat
  budget_maxDepth :: int

definition kMaxPointBudgetDepth :: int where
  "kMaxPointBudgetDepth = 31"

definition TileGridConfig_IsValid :: "TileGridConfig \<Rightarrow> bool" where
  "TileGridConfig_IsValid c \<longleftrightarrow>
     0 \<le> grid_level c \<and> is_finite (grid_tileSize c) \<and> flt fzero (grid_tileSize c)"

definition ValidateTileGridConfig :: "TileGridConfig \<Rightarrow> bool \<times> Diagnostic list" where
  "ValidateTileGridConfig c =
     (TileGridConfig_IsValid c,
      report_if (\<not> is_finite (grid_tileSize c) \<or> fle (grid_tileSize c) fzero) InvalidPointTile
        ''tile size must be finite and greater than zero'' @
      report_if (grid_level c < 0) InvalidPointTileId ''tile level must not be negative'')"

definition PointBudgetConfig_IsValid :: "PointBudgetConfig \<Rightarrow> bool" where
  "PointBudgetConfig_IsValid c \<longleftrightarrow>
     0 < budget_maxPoints c \<and> budget_minPoints c \<le> budget_maxPoints c \<and>
     0 \<le> budget_maxDepth c \<and> budget_maxDepth c \<le> kMaxPointBudgetDepth"

definition ValidatePointBudgetConfig :: "PointBudgetConfig \<Rightarrow> bool \<times> Diagnostic list" where
  "ValidatePointBudgetConfig c =
     (PointBudgetConfig_IsValid c,
      report_if (budget_maxPoints c = 0) InvalidPointTile
        ''maximum points per tile must be greater than zero'' @
      report_if (budget_maxPoints c < budget_minPoints c) InvalidPointTile
        ''minimum points per tile must not exceed the maximum'' @
      report_if (budget_maxDepth c < 0) InvalidPointTileId
        ''maximum tile depth must not be negative'' @
      report_if (kMaxPointBudgetDepth < budget_maxDepth c) InvalidPointTileId
        ''maximum tile depth exceeds the supported planner depth'')"

section \<open>The order on tile identifiers\<close>

definition TileIdLess :: "PointTileId \<Rightarrow> PointTileId \<Rightarrow> bool" where
  "TileIdLess l r \<longleftrightarrow>
     (if level l \<noteq> level r then level l < level r
      else if tx l \<noteq> tx r then tx l < tx r
      else if ty l \<noteq> ty r then ty l < ty r
      else tz l < tz r)"

definition TileIdEqual :: "PointTileId \<Rightarrow> PointTileId \<Rightarrow> bool" where
  "TileIdEqual l r \<longleftrightarrow> level l = level r \<and> tx l = tx r \<and> ty l = ty r \<and> tz l = tz r"

lemma TileIdEqual_eq [simp]: "TileIdEqual a b \<longleftrightarrow> a = b"
  by (auto simp: TileIdEqual_def)

interpretation tile_order: total_comparator TileIdLess
proof
  fix a b c :: TileId
  show "\<not> TileIdLess a a" by (simp add: TileIdLess_def)
  show "TileIdLess a b \<Longrightarrow> TileIdLess b c \<Longrightarrow> TileIdLess a c"
    by (simp add: TileIdLess_def split: if_splits)
  show "\<not> TileIdLess a b \<Longrightarrow> \<not> TileIdLess b c \<Longrightarrow> \<not> TileIdLess a c"
    by (simp add: TileIdLess_def split: if_splits)
  show "\<not> TileIdLess a b \<Longrightarrow> \<not> TileIdLess b a \<Longrightarrow> a = b"
    by (cases a; cases b) (simp add: TileIdLess_def split: if_splits)
qed

section \<open>Routers\<close>

definition invalid_tile :: PointTileId where
  "invalid_tile = tile_id (- 1) 0 0 0"

text \<open>
  The contract of \<^verbatim>\<open>TileRouter\<close>: a router that is not valid, or a position that is not finite
  horizontally, gives a tile with a negative level, the mark by which callers reject it.
\<close>

locale tile_router =
  fixes get_tile :: "'r \<Rightarrow> Vec3d \<Rightarrow> PointTileId"
    and router_valid :: "'r \<Rightarrow> bool"
  assumes invalid_router: "\<not> router_valid r \<Longrightarrow> \<not> TileId_IsValid (get_tile r p)"
    and nonfinite_position:
      "\<not> is_finite (vx p) \<or> \<not> is_finite (vy p) \<Longrightarrow> \<not> TileId_IsValid (get_tile r p)"
begin

lemma routed_finite:
  "TileId_IsValid (get_tile r p) \<Longrightarrow> router_valid r \<and> is_finite (vx p) \<and> is_finite (vy p)"
  using invalid_router nonfinite_position by blast

lemma routed_all_finite:
  "list_all (\<lambda>p. TileId_IsValid (get_tile r p)) ps \<Longrightarrow>
   list_all (\<lambda>p. is_finite (vx p) \<and> is_finite (vy p)) ps"
  using routed_finite by (auto simp: list_all_iff)

end

section \<open>The fixed grid\<close>

definition ToTileCoordinate :: "fmt \<Rightarrow> fl \<Rightarrow> fl \<Rightarrow> int option" where
  "ToTileCoordinate LD coordinate tileSz =
     (let index = ffloor (fdiv LD coordinate tileSz) in
      if flt index (F_Fin (- 9223372036854775808)) \<or> fle (F_Fin 9223372036854775808) index
      then None else Some \<lfloor>fval index\<rfloor>)"

definition FixedGridTileRouter_IsValid :: "TileGridConfig \<Rightarrow> bool" where
  "FixedGridTileRouter_IsValid c = TileGridConfig_IsValid c"

definition FixedGridTileRouter_GetTileId :: "fmt \<Rightarrow> TileGridConfig \<Rightarrow> Vec3d \<Rightarrow> PointTileId" where
  "FixedGridTileRouter_GetTileId LD c p =
     (if \<not> FixedGridTileRouter_IsValid c \<or> \<not> is_finite (vx p) \<or> \<not> is_finite (vy p)
      then tile_id (- 1) 0 0 0
      else case ToTileCoordinate LD (vx p) (grid_tileSize c) of
        None \<Rightarrow> tile_id (- 1) 0 0 0
      | Some x \<Rightarrow>
          (case ToTileCoordinate LD (vy p) (grid_tileSize c) of
             None \<Rightarrow> tile_id (- 1) x 0 0
           | Some y \<Rightarrow> tile_id (grid_level c) x y 0))"

interpretation grid_router: tile_router "FixedGridTileRouter_GetTileId LD" FixedGridTileRouter_IsValid
  for LD
  by unfold_locales (auto simp: FixedGridTileRouter_GetTileId_def TileId_IsValid_def tile_id_def)

lemma fdiv_fin:
  "is_finite x \<Longrightarrow> is_finite s \<Longrightarrow> 0 < fval s \<Longrightarrow>
   fdiv F x s = fround F (fsign x \<noteq> fsign s) (fval x / fval s)"
  by (auto simp: fdiv_def)

lemma fdiv_mono:
  assumes "is_finite x" "is_finite y" "fle x y" "is_finite s" "0 < fval s" "0 < prec F"
  shows "fle (fdiv F x s) (fdiv F y s)"
  using assms by (simp add: fdiv_fin fround_mono divide_right_mono)

lemma ffloor_fin [simp]:
  "is_finite x \<Longrightarrow> is_finite (ffloor x)" "is_finite x \<Longrightarrow> fval (ffloor x) = of_int \<lfloor>fval x\<rfloor>"
  by (cases x; simp)+

lemma ffloor_nonfinite: "\<not> is_finite x \<Longrightarrow> ffloor x = x"
  by (cases x) auto

lemma ToTileCoordinate_Some_iff:
  assumes "fdiv F x s \<noteq> F_NaN"
  shows "ToTileCoordinate F x s = Some i \<longleftrightarrow>
    is_finite (fdiv F x s) \<and> i = \<lfloor>fval (fdiv F x s)\<rfloor> \<and> - (2 ^ 63) \<le> i \<and> i < 2 ^ 63"
proof (cases "is_finite (fdiv F x s)")
  case True
  define k where "k = \<lfloor>fval (fdiv F x s)\<rfloor>"
  have *: "(of_int k :: rat) < - 9223372036854775808 \<longleftrightarrow> k < - 9223372036854775808"
    "(9223372036854775808 :: rat) \<le> of_int k \<longleftrightarrow> 9223372036854775808 \<le> k"
    by linarith+
  from True * show ?thesis
    by (simp add: ToTileCoordinate_def Let_def flip: k_def) auto
next
  case False
  then show ?thesis using assms
    by (cases "fdiv F x s") (auto simp: ToTileCoordinate_def Let_def fle_def)
qed

section \<open>Tiles of the fixed grid\<close>

lemma grid_size:
  "TileGridConfig_IsValid c \<Longrightarrow> is_finite (grid_tileSize c)"
  "TileGridConfig_IsValid c \<Longrightarrow> 0 < fval (grid_tileSize c)"
  by (auto simp: TileGridConfig_IsValid_def)

lemma grid_quotient:
  assumes "TileGridConfig_IsValid c" "is_finite x"
  shows "fdiv F x (grid_tileSize c) =
      fround F (fsign x \<noteq> fsign (grid_tileSize c)) (fval x / fval (grid_tileSize c))"
    and "fdiv F x (grid_tileSize c) \<noteq> F_NaN"
  using grid_size [OF assms(1)] assms(2) by (simp_all add: fdiv_fin)

lemma grid_tile_iff:
  assumes "TileGridConfig_IsValid c"
  shows "FixedGridTileRouter_GetTileId F c p = t \<and> TileId_IsValid t \<longleftrightarrow>
    (\<exists>i j. is_finite (vx p) \<and> is_finite (vy p) \<and>
       ToTileCoordinate F (vx p) (grid_tileSize c) = Some i \<and>
       ToTileCoordinate F (vy p) (grid_tileSize c) = Some j \<and> t = tile_id (grid_level c) i j 0)"
  using assms
  by (auto simp: FixedGridTileRouter_GetTileId_def FixedGridTileRouter_IsValid_def TileId_IsValid_def
      tile_id_def TileGridConfig_IsValid_def split: option.splits)

lemma ToTileCoordinate_between:
  assumes c: "TileGridConfig_IsValid c" and F: "0 < prec F"
    and x: "is_finite x" "is_finite y" "is_finite z" "fle x y" "fle y z"
    and i: "ToTileCoordinate F x (grid_tileSize c) = Some i"
      "ToTileCoordinate F z (grid_tileSize c) = Some k"
  shows "\<exists>j. ToTileCoordinate F y (grid_tileSize c) = Some j \<and> i \<le> j \<and> j \<le> k"
proof -
  let ?q = "\<lambda>x. fdiv F x (grid_tileSize c)"
  have s: "is_finite (grid_tileSize c)" "0 < fval (grid_tileSize c)"
    using grid_size [OF c] by simp_all
  have le: "fle (?q x) (?q y)" "fle (?q y) (?q z)"
    using x s F by (auto intro!: fdiv_mono)
  note iff = ToTileCoordinate_Some_iff [OF grid_quotient(2) [OF c]]
  have fin: "is_finite (?q x)" "is_finite (?q z)"
    using i iff [OF x(1)] iff [OF x(3)] by auto
  then have "is_finite (?q y)" using le is_finite_between by blast
  moreover have "\<lfloor>fval (?q x)\<rfloor> \<le> \<lfloor>fval (?q y)\<rfloor>" "\<lfloor>fval (?q y)\<rfloor> \<le> \<lfloor>fval (?q z)\<rfloor>"
    using le fin calculation by (auto intro: floor_mono)
  moreover have "\<lfloor>fval (?q x)\<rfloor> = i \<and> - (2 ^ 63) \<le> i" "\<lfloor>fval (?q z)\<rfloor> = k \<and> k < 2 ^ 63"
    using iffD1 [OF iff [OF x(1)] i(1)] iffD1 [OF iff [OF x(3)] i(2)] by metis+
  ultimately have "ToTileCoordinate F y (grid_tileSize c) = Some \<lfloor>fval (?q y)\<rfloor>"
    "i \<le> \<lfloor>fval (?q y)\<rfloor>" "\<lfloor>fval (?q y)\<rfloor> \<le> k"
    unfolding iff [OF x(2)] by (metis le_less_trans order_trans, metis, metis)
  then show ?thesis by blast
qed

text \<open>
  The points of one fixed-grid tile form a box: if two positions are routed to the
  same valid tile, every position between them in x and in y is routed to it as well, for every
  rounding format of the division.
\<close>

theorem grid_tiles_are_boxes:
  assumes "0 < prec LD" "FixedGridTileRouter_GetTileId LD c p = t"
    "FixedGridTileRouter_GetTileId LD c q = t" "TileId_IsValid t"
    "fle (vx p) (vx r)" "fle (vx r) (vx q)" "fle (vy p) (vy r)" "fle (vy r) (vy q)"
  shows "FixedGridTileRouter_GetTileId LD c r = t"
proof -
  have c: "TileGridConfig_IsValid c"
    using grid_router.routed_finite [of LD c p] assms(2,4) by (simp add: FixedGridTileRouter_IsValid_def)
  obtain i j where p: "is_finite (vx p)" "is_finite (vy p)"
      "ToTileCoordinate LD (vx p) (grid_tileSize c) = Some i"
      "ToTileCoordinate LD (vy p) (grid_tileSize c) = Some j" "t = tile_id (grid_level c) i j 0"
    using grid_tile_iff [OF c] assms(2,4) by metis
  obtain i' j' where q: "is_finite (vx q)" "is_finite (vy q)"
      "ToTileCoordinate LD (vx q) (grid_tileSize c) = Some i'"
      "ToTileCoordinate LD (vy q) (grid_tileSize c) = Some j'" "t = tile_id (grid_level c) i' j' 0"
    using grid_tile_iff [OF c] assms(3,4) by metis
  have ij: "i' = i" "j' = j" using p(5) q(5) by (auto simp: tile_id_def)
  have r: "is_finite (vx r)" "is_finite (vy r)"
    using is_finite_between assms(5-8) p(1,2) q(1,2) by blast+
  have "ToTileCoordinate LD (vx r) (grid_tileSize c) = Some i"
    using ToTileCoordinate_between [OF c assms(1) p(1) r(1) q(1) assms(5,6) p(3) q(3)] ij by auto
  moreover have "ToTileCoordinate LD (vy r) (grid_tileSize c) = Some j"
    using ToTileCoordinate_between [OF c assms(1) p(2) r(2) q(2) assms(7,8) p(4) q(4)] ij by auto
  ultimately show ?thesis using grid_tile_iff [OF c, of LD r t] r p(5) assms(4) by blast
qed

definition sample_grid :: TileGridConfig where
  "sample_grid = \<lparr>grid_tileSize = F_Fin 10, grid_level = 3\<rparr>"

lemma sample_grid_routes:
  "FixedGridTileRouter_GetTileId x87_extended sample_grid (vec (F_Fin 11) (F_Fin (- 9)) fzero) =
     tile_id 3 1 (- 1) 0"
  "FixedGridTileRouter_GetTileId x87_extended sample_grid (vec (F_Fin 19) (F_Fin (- 2)) fzero) =
     tile_id 3 1 (- 1) 0"
  by code_simp+

theorem grid_tiles_are_boxes_witness:
  "FixedGridTileRouter_GetTileId x87_extended sample_grid (vec (F_Fin (31/2)) (F_Fin (- 5)) F_NaN) =
     tile_id 3 1 (- 1) 0"
  by (rule grid_tiles_are_boxes [OF _ sample_grid_routes])
    (simp_all add: x87_extended_def TileId_IsValid_def tile_id_def)

text \<open>
  The cell of one coordinate.  The quotient is rounded once, in the format of the division, so the
  index can be off by what that rounding moves: the coordinate lies in the cell widened on both
  sides by half a unit in the last place of the quotient, the index is the exact floor whenever the
  quotient needs no rounding, and while integers of the index's size are exact in the format it is
  the floor or, where the quotient was rounded up to an integer, that integer.
\<close>

definition cell_of_coordinate :: "fmt \<Rightarrow> rat \<Rightarrow> rat \<Rightarrow> int \<Rightarrow> bool" where
  "cell_of_coordinate LD s x i \<longleftrightarrow>
     s * (of_int i - 2 powi ulp_exp LD (x / s) / 2) \<le> x \<and>
     x < s * (of_int i + 1 + 2 powi ulp_exp LD (x / s) / 2) \<and>
     (repr LD (x / s) \<longrightarrow> i = \<lfloor>x / s\<rfloor>) \<and>
     (\<bar>i\<bar> + 1 < 2 ^ prec LD \<longrightarrow>
        i = \<lfloor>x / s\<rfloor> \<or> i = \<lfloor>x / s\<rfloor> + 1 \<and> round_rat LD (x / s) = of_int i)"

lemma floor_of_rounded:
  assumes "\<bar>i\<bar> + 1 < 2 ^ prec F" "min_exp F \<le> 0" "0 < prec F" "i = \<lfloor>round_rat F q\<rfloor>"
  shows "i = \<lfloor>q\<rfloor> \<or> i = \<lfloor>q\<rfloor> + 1 \<and> round_rat F q = of_int i"
proof -
  have exact: "round_rat F (of_int n) = of_int n" if "\<bar>n\<bar> \<le> \<bar>i\<bar> + 1" for n
    using that assms(1,2) by (intro round_rat_repr repr_of_int) auto
  have "q < of_int (i + 1)"
    using round_rat_mono [OF _ assms(3), of "of_int (i + 1)" q] exact [of "i + 1"] assms(4) by linarith
  moreover have "of_int (i - 1) \<le> q"
    using round_rat_mono [OF _ assms(3), of q "of_int (i - 1)"] exact [of "i - 1"] assms(4) by linarith
  moreover have "round_rat F q \<le> of_int i" if "q < of_int i"
    using round_rat_mono [OF _ assms(3), of q "of_int i"] exact [of i] that by simp
  ultimately show ?thesis using assms(4) by linarith
qed

lemma ToTileCoordinate_cell:
  assumes "TileGridConfig_IsValid c" "is_finite x" "ToTileCoordinate LD x (grid_tileSize c) = Some i"
    "min_exp LD \<le> 0" "0 < prec LD"
  shows "cell_of_coordinate LD (fval (grid_tileSize c)) (fval x) i \<and> - (2 ^ 63) \<le> i \<and> i < 2 ^ 63"
proof -
  let ?s = "fval (grid_tileSize c)" and ?q = "fval x / fval (grid_tileSize c)"
  have s: "0 < ?s" using assms(1) by (rule grid_size)
  have fin: "is_finite (fdiv LD x (grid_tileSize c))" and k: "i = \<lfloor>fval (fdiv LD x (grid_tileSize c))\<rfloor>"
    "- (2 ^ 63) \<le> i" "i < 2 ^ 63"
    using assms(3) ToTileCoordinate_Some_iff [OF grid_quotient(2) [OF assms(1,2)]] by auto
  have i: "i = \<lfloor>round_rat LD ?q\<rfloor>"
    using fin k(1) by (simp add: grid_quotient(1) [OF assms(1,2)] fval_fround)
  define h where "h = (2 :: rat) powi ulp_exp LD ?q / 2"
  have "of_int i - h \<le> ?q" "?q < of_int i + 1 + h"
    using round_rat_near [of LD ?q] i unfolding h_def by linarith+
  then have "?s * (of_int i - h) \<le> fval x" "fval x < ?s * (of_int i + 1 + h)"
    using s by (simp_all add: field_simps)
  then show ?thesis
    using floor_of_rounded [OF _ assms(4,5) i] k(2,3) i round_rat_repr [of LD ?q]
    unfolding cell_of_coordinate_def h_def by auto
qed

text \<open>
  Claim C27: The tile of any position the fixed grid routes is the cell that contains it, up to the
  single rounding of the division: each coordinate lies in the cell widened on both sides by half
  a unit in the last place of its quotient by the tile size, the index is the exact floor of a quotient
  that needs no rounding, and as long as the integers next to the index are exact in the division's
  format it is the floor, or the integer just above the quotient when the quotient was rounded up
  to it.  The tile has the grid's level and indices that fit 64 bits.
\<close>

theorem grid_tile_contains:
  assumes "TileGridConfig_IsValid c" "FixedGridTileRouter_GetTileId LD c p = t" "TileId_IsValid t"
    "min_exp LD \<le> 0" "0 < prec LD"
  shows "cell_of_coordinate LD (fval (grid_tileSize c)) (fval (vx p)) (tx t) \<and>
    cell_of_coordinate LD (fval (grid_tileSize c)) (fval (vy p)) (ty t) \<and>
    level t = grid_level c \<and> tz t = 0 \<and>
    - (2 ^ 63) \<le> tx t \<and> tx t < 2 ^ 63 \<and> - (2 ^ 63) \<le> ty t \<and> ty t < 2 ^ 63"
proof -
  obtain i j where p: "is_finite (vx p)" "is_finite (vy p)"
      "ToTileCoordinate LD (vx p) (grid_tileSize c) = Some i"
      "ToTileCoordinate LD (vy p) (grid_tileSize c) = Some j" "t = tile_id (grid_level c) i j 0"
    using grid_tile_iff [OF assms(1)] assms(2,3) by metis
  show ?thesis
    using ToTileCoordinate_cell [OF assms(1) p(1,3) assms(4,5)] ToTileCoordinate_cell [OF assms(1) p(2,4) assms(4,5)]
      p(5) by (simp add: tile_id_def)
qed

text \<open>
  A position whose quotient the division rounds up: with a 53-bit \<^verbatim>\<open>long double\<close> and tiles of size 3,
  the coordinate one below \<open>3 * (2 ^ 52 + 1)\<close> is given the tile \<open>2 ^ 52 + 1\<close>, which starts behind it.
\<close>

definition rounding_grid :: TileGridConfig where
  "rounding_grid = \<lparr>grid_tileSize = F_Fin 3, grid_level = 0\<rparr>"

lemma rounding_grid_route:
  "FixedGridTileRouter_GetTileId binary64 rounding_grid (vec (F_Fin 13510798882111490) (F_Fin 1) fzero) =
     tile_id 0 4503599627370497 0 0"
  by code_simp

lemma rounding_quotient: "\<lfloor>13510798882111490 / 3 :: rat\<rfloor> = 4503599627370496"
  by (rule floor_unique) simp_all

theorem grid_tile_contains_witness:
  "FixedGridTileRouter_GetTileId binary64 rounding_grid (vec (F_Fin 13510798882111490) (F_Fin 1) fzero) =
     tile_id 0 4503599627370497 0 0 \<and>
   cell_of_coordinate binary64 3 13510798882111490 4503599627370497 \<and>
   \<lfloor>13510798882111490 / 3 :: rat\<rfloor> = 4503599627370496"
  using grid_tile_contains [of rounding_grid binary64 "vec (F_Fin 13510798882111490) (F_Fin 1) fzero",
      OF _ rounding_grid_route] rounding_grid_route rounding_quotient
  by (simp add: rounding_grid_def TileGridConfig_IsValid_def TileId_IsValid_def tile_id_def vec_def)

end
