(* ===== verification/Budget_Plan.thy ===== *)
theory Budget_Plan
  imports Tile_Grid
begin

text \<open>
  The adaptive point-budget planner of \<^verbatim>\<open>Tiling.cpp\<close> for points in memory: the recursive
  quadrant split, the recorded leaves and the statistics of the plan.  A list of indices of the
  code is the list of the points it selects, in the same order.  The recursion ends because the
  depth grows up to the configured maximum.
\<close>

section \<open>Plans\<close>

record Rect =
  minX :: fl
  maxX :: fl
  minY :: fl
  maxY :: fl

definition rect :: "fl \<Rightarrow> fl \<Rightarrow> fl \<Rightarrow> fl \<Rightarrow> Rect" where
  "rect a b c d = \<lparr>minX = a, maxX = b, minY = c, maxY = d\<rparr>"

record PointBudgetTile =
  bt_id :: PointTileId
  bt_rect :: Rect
  bt_count :: nat

record PointBudgetPlan =
  tileCount :: nat
  maximumPointsPerTile :: nat
  plan_depth :: int
  plan_pointCount :: nat
  minimumPointsPerTile :: nat
  averagePointsPerTile :: fl
  splitCount :: nat
  tiles :: "PointBudgetTile list"

definition empty_plan :: PointBudgetPlan where
  "empty_plan = \<lparr>tileCount = 0, maximumPointsPerTile = 0, plan_depth = 0, plan_pointCount = 0,
     minimumPointsPerTile = 0, averagePointsPerTile = fzero, splitCount = 0, tiles = []\<rparr>"

definition PointBudgetTile_IsValid :: "PointBudgetTile \<Rightarrow> bool" where
  "PointBudgetTile_IsValid t \<longleftrightarrow>
     TileId_IsValid (bt_id t) \<and> is_finite (minX (bt_rect t)) \<and> is_finite (maxX (bt_rect t)) \<and>
     is_finite (minY (bt_rect t)) \<and> is_finite (maxY (bt_rect t)) \<and>
     fle (minX (bt_rect t)) (maxX (bt_rect t)) \<and> fle (minY (bt_rect t)) (maxY (bt_rect t)) \<and>
     0 < bt_count t"

section \<open>Quadrants\<close>

definition split_of :: "fl \<Rightarrow> fl \<Rightarrow> fl" where
  "split_of lo hi = dadd lo (dmul (dsub hi lo) dhalf)"

definition child_of :: "Rect \<Rightarrow> Vec3d \<Rightarrow> nat" where
  "child_of r p = (if fle (split_of (minX r) (maxX r)) (vx p) then 1 else 0) +
     (if fle (split_of (minY r) (maxY r)) (vy p) then 2 else 0)"

definition child_rect :: "Rect \<Rightarrow> nat \<Rightarrow> Rect" where
  "child_rect r k =
     (let splitX = split_of (minX r) (maxX r); splitY = split_of (minY r) (maxY r);
          r' = (if k mod 2 \<noteq> 0 then r\<lparr>minX := splitX\<rparr> else r\<lparr>maxX := splitX\<rparr>)
      in if k div 2 mod 2 \<noteq> 0 then r'\<lparr>minY := splitY\<rparr> else r'\<lparr>maxY := splitY\<rparr>)"

definition child_id :: "PointTileId \<Rightarrow> nat \<Rightarrow> PointTileId" where
  "child_id t k = tile_id (level t + 1) (tx t * 2 + int (k mod 2)) (ty t * 2 + int (k div 2)) 0"

definition root_id :: PointTileId where
  "root_id = tile_id 0 0 0 0"

definition expand_rect :: "Rect \<Rightarrow> Vec3d \<Rightarrow> Rect" where
  "expand_rect r p = rect (fmin (minX r) (vx p)) (fmax (maxX r) (vx p))
     (fmin (minY r) (vy p)) (fmax (maxY r) (vy p))"

definition point_rect :: "Vec3d \<Rightarrow> Rect" where
  "point_rect p = rect (vx p) (vx p) (vy p) (vy p)"

definition makeBounds :: "Vec3d list \<Rightarrow> Rect" where
  "makeBounds ps = foldl expand_rect (point_rect (hd ps)) ps"

section \<open>The recursion\<close>

definition recordLeaf :: "nat \<Rightarrow> Rect \<Rightarrow> PointTileId \<Rightarrow> PointBudgetPlan \<Rightarrow> PointBudgetPlan" where
  "recordLeaf n r t plan = plan\<lparr>tileCount := tileCount plan + 1,
     minimumPointsPerTile :=
       (if minimumPointsPerTile plan = 0 then n else min (minimumPointsPerTile plan) n),
     maximumPointsPerTile := max (maximumPointsPerTile plan) n,
     tiles := tiles plan @ [\<lparr>bt_id = t, bt_rect = r, bt_count = n\<rparr>]\<rparr>"

definition reach_depth :: "int \<Rightarrow> PointBudgetPlan \<Rightarrow> PointBudgetPlan" where
  "reach_depth d plan = plan\<lparr>plan_depth := max (plan_depth plan) d\<rparr>"

definition count_split :: "PointBudgetPlan \<Rightarrow> PointBudgetPlan" where
  "count_split plan = plan\<lparr>splitCount := splitCount plan + 1\<rparr>"

definition can_split :: "PointBudgetConfig \<Rightarrow> nat \<Rightarrow> int \<Rightarrow> Rect \<Rightarrow> bool" where
  "can_split cfg n depth r \<longleftrightarrow>
     budget_maxPoints cfg < n \<and> depth < budget_maxDepth cfg \<and>
     \<not> feq (minX r) (maxX r) \<and> \<not> feq (minY r) (maxY r)"

definition refuse_split :: "PointBudgetConfig \<Rightarrow> nat list \<Rightarrow> bool" where
  "refuse_split cfg counts \<longleftrightarrow>
     length (filter (\<lambda>n. n \<noteq> 0) counts) < 2 \<or>
     \<not> list_all (\<lambda>n. budget_minPoints cfg \<le> n) (filter (\<lambda>n. n \<noteq> 0) counts)"

definition children_of :: "Rect \<Rightarrow> Vec3d list \<Rightarrow> Vec3d list list" where
  "children_of r ps = map (\<lambda>k. filter (\<lambda>p. child_of r p = k) ps) [0, 1, 2, 3]"

function visit :: "PointBudgetConfig \<Rightarrow> Vec3d list \<Rightarrow> int \<Rightarrow> PointTileId \<Rightarrow> Rect
    \<Rightarrow> PointBudgetPlan \<times> bool \<Rightarrow> PointBudgetPlan \<times> bool" where
  "visit cfg ps depth t r s =
     (let plan = reach_depth depth (fst s) in
      if \<not> can_split cfg (length ps) depth r
      then (recordLeaf (length ps) r t plan, snd s \<and> length ps \<le> budget_maxPoints cfg)
      else if refuse_split cfg (map length (children_of r ps))
      then (recordLeaf (length ps) r t plan, False)
      else foldl (\<lambda>s k. if children_of r ps ! k = [] then s
             else visit cfg (children_of r ps ! k) (depth + 1) (child_id t k) (child_rect r k) s)
           (count_split plan, snd s) [0, 1, 2, 3])"
  by pat_completeness auto
termination
  by (relation "measure (\<lambda>(cfg, ps, depth, t, r, s). nat (budget_maxDepth cfg - depth))")
    (auto simp: can_split_def)

declare visit.simps [simp del]

definition finish_plan :: "PointBudgetPlan \<times> bool \<Rightarrow> bool \<times> PointBudgetPlan \<times> Diagnostic list" where
  "finish_plan s =
     (let plan = (if 0 < tileCount (fst s)
        then (fst s)\<lparr>averagePointsPerTile := ddiv (fof_int binary64 (int (plan_pointCount (fst s))))
               (fof_int binary64 (int (tileCount (fst s))))\<rparr>
        else fst s)
      in (snd s, plan, report_if (\<not> snd s) InvalidPointTile
            ''point budget cannot be satisfied for the source distribution''))"

definition horizontal_finite :: "Vec3d \<Rightarrow> bool" where
  "horizontal_finite p \<longleftrightarrow> is_finite (vx p) \<and> is_finite (vy p)"

definition BuildPointBudgetPlan ::
  "Vec3d list \<Rightarrow> PointBudgetConfig \<Rightarrow> bool \<times> PointBudgetPlan \<times> Diagnostic list" where
  "BuildPointBudgetPlan ps cfg =
     (case ValidatePointBudgetConfig cfg of (valid, ds) \<Rightarrow>
        if \<not> valid then (False, empty_plan, ds)
        else if ps = [] then (True, empty_plan, ds)
        else if \<not> list_all horizontal_finite ps
        then (False, empty_plan\<lparr>plan_pointCount := length ps\<rparr>, ds @
          [error_diag NonFiniteCoordinate
             ''point-budget planning requires finite horizontal coordinates''])
        else case finish_plan (visit cfg ps 0 root_id (makeBounds ps)
               (empty_plan\<lparr>plan_pointCount := length ps\<rparr>, True)) of
          (ok, plan, reports) \<Rightarrow> (ok, plan, ds @ reports))"

section \<open>Nodes as paths of quadrants\<close>

text \<open>
  A node is named by the quadrants on the way to it; its rectangle, its identifier and the points
  in it are functions of that path.
\<close>

fun rect_at :: "Rect \<Rightarrow> nat list \<Rightarrow> Rect" where
  "rect_at r [] = r"
| "rect_at r (k # ks) = rect_at (child_rect r k) ks"

fun id_at :: "PointTileId \<Rightarrow> nat list \<Rightarrow> PointTileId" where
  "id_at t [] = t"
| "id_at t (k # ks) = id_at (child_id t k) ks"

fun in_node :: "Rect \<Rightarrow> nat list \<Rightarrow> Vec3d \<Rightarrow> bool" where
  "in_node r [] p = True"
| "in_node r (k # ks) p = (child_of r p = k \<and> in_node (child_rect r k) ks p)"

definition leaf_at :: "PointTileId \<Rightarrow> Rect \<Rightarrow> Vec3d list \<Rightarrow> nat list \<Rightarrow> PointBudgetTile" where
  "leaf_at t r ps ks = \<lparr>bt_id = id_at t ks, bt_rect = rect_at r ks,
     bt_count = length (filter (in_node r ks) ps)\<rparr>"

definition splits :: "PointBudgetConfig \<Rightarrow> Vec3d list \<Rightarrow> int \<Rightarrow> Rect \<Rightarrow> bool" where
  "splits cfg ps depth r \<longleftrightarrow>
     can_split cfg (length ps) depth r \<and> \<not> refuse_split cfg (map length (children_of r ps))"

function leaf_paths :: "PointBudgetConfig \<Rightarrow> Vec3d list \<Rightarrow> int \<Rightarrow> Rect \<Rightarrow> nat list list" where
  "leaf_paths cfg ps depth r =
     (if splits cfg ps depth r
      then concat (map (\<lambda>k. if children_of r ps ! k = [] then []
             else map ((#) k) (leaf_paths cfg (children_of r ps ! k) (depth + 1) (child_rect r k)))
           [0, 1, 2, 3])
      else [[]])"
  by pat_completeness auto
termination
  by (relation "measure (\<lambda>(cfg, ps, depth, r). nat (budget_maxDepth cfg - depth))")
    (auto simp: splits_def can_split_def)

declare leaf_paths.simps [simp del]

lemma child_of_less: "child_of r p < 4"
  by (simp add: child_of_def)

lemma child_of_cases: "child_of r p = 0 \<or> child_of r p = 1 \<or> child_of r p = 2 \<or> child_of r p = 3"
  using child_of_less [of r p] by linarith

lemma children_of_nth [simp]: "k < 4 \<Longrightarrow> children_of r ps ! k = filter (\<lambda>p. child_of r p = k) ps"
proof -
  assume "k < 4"
  then consider "k = 0" | "k = 1" | "k = 2" | "k = 3" by linarith
  then show ?thesis by cases (simp_all add: children_of_def)
qed

lemma filter_in_node:
  "filter (in_node (child_rect r k) ks) (filter (\<lambda>p. child_of r p = k) ps) = filter (in_node r (k # ks)) ps"
  unfolding filter_filter by (rule filter_cong) auto

lemma leaf_at_child:
  "leaf_at (child_id t k) (child_rect r k) (filter (\<lambda>p. child_of r p = k) ps) ks = leaf_at t r ps (k # ks)"
  by (simp only: leaf_at_def filter_in_node id_at.simps rect_at.simps)

lemma leaf_paths_split:
  assumes "splits cfg ps depth r"
  shows "ks \<in> set (leaf_paths cfg ps depth r) \<longleftrightarrow>
    (\<exists>k ks'. ks = k # ks' \<and> k < 4 \<and> filter (\<lambda>p. child_of r p = k) ps \<noteq> [] \<and>
       ks' \<in> set (leaf_paths cfg (filter (\<lambda>p. child_of r p = k) ps) (depth + 1) (child_rect r k)))"
proof -
  have four: "(k :: nat) \<in> {0, 1, 2, 3} \<longleftrightarrow> k < 4" for k by auto
  have "ks \<in> set (leaf_paths cfg ps depth r) \<longleftrightarrow>
    (\<exists>k \<in> {0, 1, 2, 3}. \<exists>ks'. ks = k # ks' \<and> filter (\<lambda>p. child_of r p = k) ps \<noteq> [] \<and>
       ks' \<in> set (leaf_paths cfg (filter (\<lambda>p. child_of r p = k) ps) (depth + 1) (child_rect r k)))"
    using assms by (subst leaf_paths.simps) auto
  then show ?thesis unfolding four [symmetric] by blast
qed

lemma leaf_paths_stop [simp]: "\<not> splits cfg ps depth r \<Longrightarrow> leaf_paths cfg ps depth r = [[]]"
  by (subst leaf_paths.simps) simp

lemma leaf_paths_induct [consumes 0, case_names stop split]:
  fixes P :: "Vec3d list \<Rightarrow> int \<Rightarrow> Rect \<Rightarrow> bool"
  assumes "\<And>ps depth r. \<not> splits cfg ps depth r \<Longrightarrow> P ps depth r"
    and "\<And>ps depth r. splits cfg ps depth r \<Longrightarrow>
      (\<And>k. k < 4 \<Longrightarrow> filter (\<lambda>p. child_of r p = k) ps \<noteq> [] \<Longrightarrow>
         P (filter (\<lambda>p. child_of r p = k) ps) (depth + 1) (child_rect r k)) \<Longrightarrow> P ps depth r"
  shows "P ps depth r"
proof (induction "nat (budget_maxDepth cfg - depth)" arbitrary: ps depth r rule: less_induct)
  case (less depth ps r)
  show ?case
  proof (cases "splits cfg ps depth r")
    case False
    with assms(1) show ?thesis by blast
  next
    case True
    then have "nat (budget_maxDepth cfg - (depth + 1)) < nat (budget_maxDepth cfg - depth)"
      by (simp add: splits_def can_split_def)
    then show ?thesis using less by (intro assms(2) [OF True]) blast
  qed
qed

lemma leaf_path_bounds:
  "ks \<in> set (leaf_paths cfg ps depth r) \<Longrightarrow> depth \<le> budget_maxDepth cfg \<Longrightarrow>
   int (length ks) + depth \<le> budget_maxDepth cfg \<and> list_all (\<lambda>k. k < 4) ks"
proof (induction ps depth r arbitrary: ks rule: leaf_paths_induct [where cfg = cfg])
  case (split ps depth r)
  then have "depth + 1 \<le> budget_maxDepth cfg" by (simp add: splits_def can_split_def)
  with split show ?case by (fastforce simp: leaf_paths_split)
qed simp

lemma leaf_path_nonempty:
  "ks \<in> set (leaf_paths cfg ps depth r) \<Longrightarrow> ps \<noteq> [] \<Longrightarrow> filter (in_node r ks) ps \<noteq> []"
proof (induction ps depth r arbitrary: ks rule: leaf_paths_induct [where cfg = cfg])
  case (split ps depth r)
  then obtain k ks' where k: "ks = k # ks'" "k < 4" "filter (\<lambda>p. child_of r p = k) ps \<noteq> []"
    "ks' \<in> set (leaf_paths cfg (filter (\<lambda>p. child_of r p = k) ps) (depth + 1) (child_rect r k))"
    by (auto simp: leaf_paths_split)
  from split.IH [OF k(2,3,4,3)] show ?case unfolding k(1) filter_in_node .
qed simp

lemma leaf_paths_distinct: "distinct (leaf_paths cfg ps depth r)"
proof (induction ps depth r rule: leaf_paths_induct [where cfg = cfg])
  case (split ps depth r)
  then show ?case
    by (subst leaf_paths.simps) (auto simp: distinct_map)
qed simp

text \<open>Every point lies in exactly one leaf.\<close>

lemma leaf_paths_partition:
  "p \<in> set ps \<Longrightarrow> length (filter (\<lambda>ks. in_node r ks p) (leaf_paths cfg ps depth r)) = 1"
proof (induction ps depth r rule: leaf_paths_induct [where cfg = cfg])
  case (split ps depth r)
  let ?k = "child_of r p"
  have other: "filter (\<lambda>ks. in_node r ks p) (map ((#) k) kss) = (if ?k = k
      then map ((#) k) (filter (\<lambda>ks. in_node (child_rect r k) ks p) kss) else [])" for k kss
    by (simp add: filter_map o_def)
  have ne: "filter (\<lambda>q. child_of r q = ?k) ps \<noteq> []" "p \<in> set (filter (\<lambda>q. child_of r q = ?k) ps)"
    using split.prems by (auto simp: filter_empty_conv)
  note IH = split.IH [OF child_of_less ne]
  from child_of_cases [of r p] show ?case
    using IH ne split.hyps by (subst leaf_paths.simps) (elim disjE; simp add: other)
qed simp

section \<open>The recursion records exactly the leaves\<close>

lemma visit_stop:
  "\<not> splits cfg ps depth r \<Longrightarrow> visit cfg ps depth t r s =
     (recordLeaf (length ps) r t (reach_depth depth (fst s)),
      snd s \<and> length ps \<le> budget_maxPoints cfg)"
  by (subst visit.simps) (auto simp: Let_def splits_def can_split_def)

definition child_step :: "PointBudgetConfig \<Rightarrow> Vec3d list \<Rightarrow> int \<Rightarrow> PointTileId \<Rightarrow> Rect
    \<Rightarrow> PointBudgetPlan \<times> bool \<Rightarrow> nat \<Rightarrow> PointBudgetPlan \<times> bool" where
  "child_step cfg ps depth t r s k =
     (if filter (\<lambda>p. child_of r p = k) ps = [] then s
      else visit cfg (filter (\<lambda>p. child_of r p = k) ps) (depth + 1) (child_id t k) (child_rect r k) s)"

definition child_paths :: "PointBudgetConfig \<Rightarrow> Vec3d list \<Rightarrow> int \<Rightarrow> Rect \<Rightarrow> nat \<Rightarrow> nat list list" where
  "child_paths cfg ps depth r k =
     (if filter (\<lambda>p. child_of r p = k) ps = [] then []
      else map ((#) k) (leaf_paths cfg (filter (\<lambda>p. child_of r p = k) ps) (depth + 1) (child_rect r k)))"

lemma visit_split:
  "splits cfg ps depth r \<Longrightarrow> visit cfg ps depth t r s =
     foldl (child_step cfg ps depth t r) (count_split (reach_depth depth (fst s)), snd s) [0, 1, 2, 3]"
  by (subst visit.simps) (simp add: Let_def splits_def child_step_def)

lemma leaf_paths_children:
  "splits cfg ps depth r \<Longrightarrow> leaf_paths cfg ps depth r =
     concat (map (child_paths cfg ps depth r) [0, 1, 2, 3])"
  by (subst leaf_paths.simps) (simp add: child_paths_def)

lemma visit_tiles:
  "tiles (fst (visit cfg ps depth t r s)) =
     tiles (fst s) @ map (leaf_at t r ps) (leaf_paths cfg ps depth r)"
proof (induction ps depth r arbitrary: t s rule: leaf_paths_induct [where cfg = cfg])
  case (stop ps depth r)
  then show ?case by (simp add: visit_stop recordLeaf_def reach_depth_def leaf_at_def)
next
  case (split ps depth r)
  have step: "tiles (fst (child_step cfg ps depth t r s k)) =
      tiles (fst s) @ map (leaf_at t r ps) (child_paths cfg ps depth r k)" if "k < 4" for s k
    using split.IH [OF that] by (simp add: child_step_def child_paths_def leaf_at_child o_def)
  show ?case
    using split.hyps
    by (simp add: visit_split leaf_paths_children step count_split_def reach_depth_def)
qed

lemma visit_verdict:
  "snd (visit cfg ps depth t r s) \<longleftrightarrow> snd s \<and>
     list_all (\<lambda>ks. length (filter (in_node r ks) ps) \<le> budget_maxPoints cfg) (leaf_paths cfg ps depth r)"
proof (induction ps depth r arbitrary: t s rule: leaf_paths_induct [where cfg = cfg])
  case (stop ps depth r)
  then show ?case by (simp add: visit_stop)
next
  case (split ps depth r)
  have step: "snd (child_step cfg ps depth t r s k) \<longleftrightarrow> snd s \<and>
      list_all (\<lambda>ks. length (filter (in_node r ks) ps) \<le> budget_maxPoints cfg) (child_paths cfg ps depth r k)"
    if "k < 4" for s k
    using split.IH [OF that] filter_in_node [of r k _ ps]
    by (simp add: child_step_def child_paths_def list.pred_map o_def del: filter_filter)
  show ?case
    using split.hyps by (simp add: visit_split leaf_paths_children step)
qed

text \<open>The statistics are those of the recorded tiles.\<close>

definition stats_ok :: "PointBudgetConfig \<Rightarrow> nat \<Rightarrow> PointBudgetPlan \<Rightarrow> bool" where
  "stats_ok cfg n plan \<longleftrightarrow>
     tileCount plan = length (tiles plan) \<and> plan_pointCount plan = n \<and>
     maximumPointsPerTile plan = Max (insert 0 (bt_count ` set (tiles plan))) \<and>
     minimumPointsPerTile plan =
       (if tiles plan = [] then 0 else Min (bt_count ` set (tiles plan))) \<and>
     (\<forall>t \<in> set (tiles plan). 0 < bt_count t) \<and>
     0 \<le> plan_depth plan \<and> plan_depth plan \<le> budget_maxDepth cfg"

lemma stats_ok_recordLeaf:
  assumes "stats_ok cfg m plan" "0 < n"
  shows "stats_ok cfg m (recordLeaf n r t plan)"
proof -
  have "minimumPointsPerTile plan = 0 \<longleftrightarrow> tiles plan = []"
  proof (cases "tiles plan = []")
    case False
    then have "Min (bt_count ` set (tiles plan)) \<in> bt_count ` set (tiles plan)" by (intro Min_in) auto
    with assms(1) False show ?thesis by (auto simp: stats_ok_def)
  qed (use assms(1) in \<open>simp add: stats_ok_def\<close>)
  then show ?thesis
    using assms by (auto simp: stats_ok_def recordLeaf_def Max_insert2 insert_commute min.commute max.commute)
qed

lemma stats_ok_reach_depth:
  "stats_ok cfg m plan \<Longrightarrow> d \<le> budget_maxDepth cfg \<Longrightarrow> stats_ok cfg m (reach_depth d plan)"
  by (auto simp: stats_ok_def reach_depth_def)

lemma stats_ok_count_split: "stats_ok cfg m plan \<Longrightarrow> stats_ok cfg m (count_split plan)"
  by (simp add: stats_ok_def count_split_def)

lemma visit_stats:
  "stats_ok cfg m (fst s) \<Longrightarrow> ps \<noteq> [] \<Longrightarrow> depth \<le> budget_maxDepth cfg \<Longrightarrow>
   stats_ok cfg m (fst (visit cfg ps depth t r s))"
proof (induction ps depth r arbitrary: t s rule: leaf_paths_induct [where cfg = cfg])
  case (stop ps depth r)
  then show ?case by (simp add: visit_stop stats_ok_recordLeaf stats_ok_reach_depth)
next
  case (split ps depth r)
  have "depth + 1 \<le> budget_maxDepth cfg" using split.hyps by (simp add: splits_def can_split_def)
  then have step: "stats_ok cfg m (fst s) \<Longrightarrow> stats_ok cfg m (fst (child_step cfg ps depth t r s k))"
    if "k < 4" for s k
    using split.IH [OF that] by (simp add: child_step_def)
  show ?case
    using split.hyps split.prems
    by (simp add: visit_split step stats_ok_count_split stats_ok_reach_depth)
qed

section \<open>The plan of a point set\<close>

lemma ValidatePointBudgetConfig_valid:
  "PointBudgetConfig_IsValid cfg \<Longrightarrow> ValidatePointBudgetConfig cfg = (True, [])"
  by (auto simp: ValidatePointBudgetConfig_def PointBudgetConfig_IsValid_def report_if_def)

definition planned :: "Vec3d list \<Rightarrow> PointBudgetConfig \<Rightarrow> PointBudgetPlan \<times> bool" where
  "planned ps cfg = visit cfg ps 0 root_id (makeBounds ps) (empty_plan\<lparr>plan_pointCount := length ps\<rparr>, True)"

definition plan_paths :: "Vec3d list \<Rightarrow> PointBudgetConfig \<Rightarrow> nat list list" where
  "plan_paths ps cfg = leaf_paths cfg ps 0 (makeBounds ps)"

lemma BuildPointBudgetPlan_planned:
  assumes "PointBudgetConfig_IsValid cfg" "ps \<noteq> []" "list_all horizontal_finite ps"
  shows "BuildPointBudgetPlan ps cfg = finish_plan (planned ps cfg)"
  using assms by (simp add: BuildPointBudgetPlan_def ValidatePointBudgetConfig_valid planned_def
      split: prod.splits)

lemma planned_tiles: "tiles (fst (planned ps cfg)) = map (leaf_at root_id (makeBounds ps) ps) (plan_paths ps cfg)"
  by (simp add: planned_def visit_tiles plan_paths_def empty_plan_def)

lemma finish_plan_simps:
  "fst (finish_plan s) = snd s" "tiles (fst (snd (finish_plan s))) = tiles (fst s)"
  "stats_ok cfg n (fst (snd (finish_plan s))) = stats_ok cfg n (fst s)"
  "snd (snd (finish_plan s)) = [] \<longleftrightarrow> snd s"
  by (simp_all add: finish_plan_def Let_def stats_ok_def)

lemma sum_list_indicator:
  "sum_list (map (\<lambda>k. (if Q k then 1 else 0) + f k) ks) = length (filter Q ks) + sum_list (map f ks)"
  by (induction ks) auto

lemma sum_counts:
  "(\<And>p. p \<in> set ps \<Longrightarrow> length (filter (\<lambda>k. P k p) ks) = 1) \<Longrightarrow>
   sum_list (map (\<lambda>k. length (filter (P k) ps)) ks) = length ps"
proof (induction ps)
  case (Cons p ps)
  have "map (\<lambda>k. length (filter (P k) (p # ps))) ks =
      map (\<lambda>k. (if P k p then 1 else 0) + length (filter (P k) ps)) ks" by simp
  then have "sum_list (map (\<lambda>k. length (filter (P k) (p # ps))) ks) =
      length (filter (\<lambda>k. P k p) ks) + sum_list (map (\<lambda>k. length (filter (P k) ps)) ks)"
    by (simp only: sum_list_indicator)
  also have "\<dots> = length (p # ps)" using Cons by simp
  finally show ?case .
qed (simp add: sum_list_0)

text \<open>
  Claim C4: The planner splits any finite point set into the leaves of one quadtree: the
  recorded tiles are the leaves of the split, in order, pairwise different; every point lies in
  exactly one of them; each tile counts the points in it, none is empty, and the counts add up
  to the number of points.
\<close>

theorem budget_plan_partitions:
  assumes "PointBudgetConfig_IsValid cfg" "ps \<noteq> []" "list_all horizontal_finite ps"
    "BuildPointBudgetPlan ps cfg = (ok, plan, ds)"
  shows "\<exists>paths. tiles plan = map (leaf_at root_id (makeBounds ps) ps) paths \<and> distinct paths \<and>
    (\<forall>p \<in> set ps. length (filter (\<lambda>ks. in_node (makeBounds ps) ks p) paths) = 1) \<and>
    (\<forall>t \<in> set (tiles plan). 0 < bt_count t) \<and>
    sum_list (map bt_count (tiles plan)) = length ps"
proof -
  have plan: "tiles plan = map (leaf_at root_id (makeBounds ps) ps) (plan_paths ps cfg)"
    using assms(4) planned_tiles finish_plan_simps(2) [of "planned ps cfg"]
    by (simp add: BuildPointBudgetPlan_planned [OF assms(1-3)])
  have part: "length (filter (\<lambda>ks. in_node (makeBounds ps) ks p) (plan_paths ps cfg)) = 1"
    if "p \<in> set ps" for p
    using leaf_paths_partition [OF that] by (simp add: plan_paths_def)
  have "sum_list (map bt_count (tiles plan)) = length ps"
    using sum_counts [of ps "in_node (makeBounds ps)" "plan_paths ps cfg"] part
    by (simp add: plan leaf_at_def o_def)
  moreover have "0 < bt_count t" if "t \<in> set (tiles plan)" for t
    using that leaf_path_nonempty [of _ cfg ps 0 "makeBounds ps"] assms(2)
    by (auto simp: plan leaf_at_def plan_paths_def)
  ultimately show ?thesis
    using plan part leaf_paths_distinct [of cfg ps 0 "makeBounds ps"]
    by (intro exI [of _ "plan_paths ps cfg"]) (simp add: plan_paths_def)
qed

definition sample_points :: "Vec3d list" where
  "sample_points = [vec fzero fzero fzero, vec (F_Fin 1) (F_Fin 3) fzero, vec (F_Fin 8) (F_Fin 8) fzero]"

definition sample_budget :: PointBudgetConfig where
  "sample_budget = \<lparr>budget_maxPoints = 2, budget_minPoints = 1, budget_maxDepth = 4\<rparr>"

lemma sample_budget_valid: "PointBudgetConfig_IsValid sample_budget"
  by (simp add: PointBudgetConfig_IsValid_def sample_budget_def kMaxPointBudgetDepth_def)

lemma sample_points_finite: "sample_points \<noteq> []" "list_all horizontal_finite sample_points"
  by (simp_all add: sample_points_def horizontal_finite_def)

theorem budget_plan_partitions_witness:
  "\<exists>ok plan ds. BuildPointBudgetPlan sample_points sample_budget = (ok, plan, ds) \<and>
     sum_list (map bt_count (tiles plan)) = 3"
proof -
  obtain ok plan ds where b: "BuildPointBudgetPlan sample_points sample_budget = (ok, plan, ds)"
    by (rule prod_cases3)
  from budget_plan_partitions [OF sample_budget_valid sample_points_finite b] show ?thesis
    using b by (auto simp: sample_points_def)
qed



end
