(* ===== verification/Float_Midpoint.thy ===== *)
theory Float_Midpoint
  imports Binary_Float
begin

text \<open>
  The midpoint \<open>lo + (hi - lo) * 0.5\<close> in binary64: for doubles of moderate size it does not
  overflow and lies between its arguments, rounding included.  The quadrant splits of the tile
  planner rest on it.
\<close>

section \<open>Rounded values are representable\<close>

lemma ulp_quotient_bound:
  assumes "q \<noteq> 0" "0 < prec F"
  shows "\<bar>q / 2 powi ulp_exp F q\<bar> < 2 ^ prec F"
proof -
  have "ilog2 \<bar>q\<bar> + 1 \<le> ulp_exp F q + int (prec F)" by (simp add: ulp_exp_def)
  then have *: "(2 :: rat) powi (ilog2 \<bar>q\<bar> + 1) \<le> 2 powi (ulp_exp F q + int (prec F))"
    by (simp only: powi2_le_iff)
  have "\<bar>q\<bar> < 2 powi (ilog2 \<bar>q\<bar> + 1)" using assms(1) by (intro ilog2_bounds(2)) simp
  then have "\<bar>q\<bar> < 2 powi (ulp_exp F q + int (prec F))" using * by (rule less_le_trans)
  then show ?thesis by (simp add: powi2_add abs_divide divide_less_eq mult.commute)
qed

lemma rne_less_abs:
  assumes "\<bar>x\<bar> < 2 ^ n"
  shows "\<bar>rne x\<bar> \<le> 2 ^ n"
proof -
  have "x \<le> of_int (2 ^ n)" "of_int (- (2 ^ n)) \<le> x" using assms by auto
  then have "rne x \<le> rne (of_int (2 ^ n))" "rne (of_int (- (2 ^ n))) \<le> rne x"
    by (simp_all only: rne_mono)
  then show ?thesis unfolding rne_of_int by auto
qed

lemma repr_multiple:
  assumes "\<bar>m\<bar> \<le> 2 ^ prec F" "min_exp F \<le> e" "0 < prec F"
  shows "repr F (of_int m * 2 powi e)"
proof (cases "\<bar>m\<bar> = 2 ^ prec F")
  case False
  then show ?thesis using assms unfolding repr_def by (intro exI [of _ m] exI [of _ e]) auto
next
  case True
  have p: "(2 :: int) ^ prec F = 2 ^ (prec F - 1) * 2" using assms(3) by (cases "prec F") auto
  then obtain n where n: "m = n * 2" "\<bar>n\<bar> = 2 ^ (prec F - 1)"
    using True by (cases "0 \<le> m") (auto simp: abs_if split: if_splits
        intro: that [of "2 ^ (prec F - 1)"] that [of "- (2 ^ (prec F - 1))"])
  have "of_int m * 2 powi e = (of_int n * 2 powi (e + 1) :: rat)" by (simp add: n(1) powi2_add)
  moreover have "\<bar>n\<bar> < 2 ^ prec F" unfolding n(2) p by simp
  ultimately show ?thesis using assms(2) unfolding repr_def by (intro exI [of _ n] exI [of _ "e + 1"]) auto
qed

lemma repr_0: "repr F 0"
  unfolding repr_def by (rule exI [of _ 0], rule exI [of _ "min_exp F"]) simp

lemma repr_round_rat:
  assumes "0 < prec F"
  shows "repr F (round_rat F q)"
proof (cases "q = 0")
  case False
  have "\<bar>rne (q / 2 powi ulp_exp F q)\<bar> \<le> 2 ^ prec F"
    by (rule rne_less_abs) (rule ulp_quotient_bound [OF False assms])
  then show ?thesis
    using False assms by (simp add: round_rat_round_at round_at_def repr_multiple ulp_exp_def)
qed (simp add: repr_0)

lemma repr_powi: "0 < prec F \<Longrightarrow> min_exp F \<le> e \<Longrightarrow> repr F (2 powi e)"
  using repr_multiple [of 1 F e] by simp

lemma repr_is_multiple:
  assumes "repr F q"
  shows "\<exists>n. q = of_int n * 2 powi min_exp F"
proof -
  obtain m e where "q = of_int m * 2 powi e" "min_exp F \<le> e" using assms by (auto simp: repr_def)
  moreover have "(2 :: rat) powi e = of_int (2 ^ nat (e - min_exp F)) * 2 powi min_exp F"
    using powi2_nat [of "e - min_exp F"] powi2_add [of "e - min_exp F" "min_exp F"] calculation by simp
  ultimately have "q = of_int (m * 2 ^ nat (e - min_exp F)) * 2 powi min_exp F"
    by (metis mult.assoc of_int_mult)
  then show ?thesis by blast
qed

section \<open>Half of a rounded difference\<close>

lemma round_half_le:
  assumes "0 \<le> x" "x = of_int n * 2 powi min_exp F" "1 < prec F"
  shows "round_rat F (round_rat F x / 2) \<le> x"
proof (cases "x = 0")
  case False
  then have x: "0 < x" using assms(1) by simp
  have F: "0 < prec F" using assms(3) by simp
  show ?thesis
  proof (cases "ulp_exp F x = min_exp F")
    case True
    then have "round_rat F x = x"
      using False round_at_multiple [of "min_exp F" "min_exp F" n] by (simp add: round_rat_round_at assms(2))
    moreover have "round_rat F (x / 2) \<le> round_rat F x" using x F by (intro round_rat_mono) auto
    ultimately show ?thesis by simp
  next
    case False
    then have e: "min_exp F < ulp_exp F x" "ulp_exp F x = ilog2 x - int (prec F) + 1"
      using x by (auto simp: ulp_exp_def)
    let ?e = "ulp_exp F x" and ?m = "rne (x / 2 powi ulp_exp F x)"
    have d: "round_rat F x = of_int ?m * 2 powi ?e" using x by (simp add: round_rat_round_at round_at_def)
    have "\<bar>?m\<bar> \<le> 2 ^ prec F" by (rule rne_less_abs) (use ulp_quotient_bound [of x F] x F in auto)
    then have "repr F (of_int ?m * 2 powi (?e - 1))" using e(1) F by (intro repr_multiple) auto
    moreover have "of_int ?m * 2 powi (?e - 1) = round_rat F x / 2" by (simp add: d powi2_diff)
    ultimately have half: "round_rat F (round_rat F x / 2) = round_rat F x / 2"
      by (simp add: round_rat_repr)
    have "repr F (2 powi (ilog2 x + 1))" using e F by (intro repr_powi) auto
    then have "round_rat F x \<le> 2 powi (ilog2 x + 1)"
      using round_rat_mono [of x "2 powi (ilog2 x + 1)" F] ilog2_bounds(2) [OF x] F
      by (simp add: round_rat_repr)
    also have "\<dots> \<le> 2 * x" using ilog2_bounds(1) [OF x] by (simp add: powi2_add)
    finally show ?thesis using half by simp
  qed
qed simp

section \<open>The midpoint\<close>

definition moderate :: "fl \<Rightarrow> bool" where
  "moderate x \<longleftrightarrow> is_finite x \<and> repr binary64 (fval x) \<and> \<bar>fval x\<bar> \<le> 2 powi 1022"

lemma moderate_finite [simp]: "moderate x \<Longrightarrow> is_finite x"
  by (simp add: moderate_def)

lemma fadd_val:
  assumes "is_finite x" "is_finite y" "\<bar>round_rat F (fval x + fval y)\<bar> < 2 powi max_exp F"
  shows "is_finite (fadd F x y) \<and> fval (fadd F x y) = round_rat F (fval x + fval y)"
  using assms by (auto simp: fadd_fin is_finite_fround fval_fround)

lemma fsub_val:
  assumes "is_finite x" "is_finite y" "\<bar>round_rat F (fval x - fval y)\<bar> < 2 powi max_exp F"
  shows "is_finite (fsub F x y) \<and> fval (fsub F x y) = round_rat F (fval x - fval y)"
  using fadd_val [of x "fneg y" F] assms by (simp add: fsub_def)

lemma dhalf_val:
  assumes "is_finite x" "\<bar>round_rat binary64 (fval x / 2)\<bar> < 2 powi 1024"
  shows "is_finite (dmul x dhalf) \<and> fval (dmul x dhalf) = round_rat binary64 (fval x / 2)"
  using assms by (auto simp: fmul_def is_finite_fround fval_fround)

lemma round_rat_le_powi:
  assumes "0 \<le> q" "q \<le> 2 powi k" "0 < prec F" "min_exp F \<le> k"
  shows "0 \<le> round_rat F q \<and> round_rat F q \<le> 2 powi k"
  using round_rat_nonneg [OF assms(1)] round_rat_mono [OF assms(2,3)]
    round_rat_repr [OF repr_powi [OF assms(3,4)]] by simp

definition midpoint :: "fl \<Rightarrow> fl \<Rightarrow> fl" where
  "midpoint lo hi = dadd lo (dmul (dsub hi lo) dhalf)"

lemma midpoint_val:
  assumes "moderate a" "moderate b" "fval a \<le> fval b"
  shows "moderate (midpoint a b)" "fval a \<le> fval (midpoint a b)" "fval (midpoint a b) \<le> fval b"
    "fval (midpoint a b) = round_rat binary64
       (fval a + round_rat binary64 (round_rat binary64 (fval b - fval a) / 2))"
proof -
  let ?R = "round_rat binary64" and ?x = "fval b - fval a"
  have fin: "is_finite a" "is_finite b" using assms by simp_all
  have two: "(2 :: rat) powi 1023 = 2 powi 1022 + 2 powi 1022"
    using powi2_add [of 1022 1] by simp
  have big: "(2 :: rat) powi 1023 < 2 powi 1024" by (simp only: powi2_less_iff)
  have x: "0 \<le> ?x" "?x \<le> 2 powi 1023"
    using assms unfolding two moderate_def by linarith+
  have d: "0 \<le> ?R ?x \<and> ?R ?x \<le> 2 powi 1023" by (rule round_rat_le_powi [OF x]) simp_all
  then have h: "0 \<le> ?R (?R ?x / 2) \<and> ?R (?R ?x / 2) \<le> 2 powi 1023"
    by (intro round_rat_le_powi) auto
  have sub: "is_finite (dsub b a)" "fval (dsub b a) = ?R ?x"
    using fsub_val [of b a binary64] fin d big by auto
  have half: "is_finite (dmul (dsub b a) dhalf)" "fval (dmul (dsub b a) dhalf) = ?R (?R ?x / 2)"
    using dhalf_val [OF sub(1)] h big by (auto simp: sub(2))
  obtain m n where mn: "fval a = of_int m * 2 powi (- 1074)" "fval b = of_int n * 2 powi (- 1074)"
    using assms repr_is_multiple [of binary64] unfolding moderate_def by (metis binary64_simps(2))
  have "?x = of_int (n - m) * 2 powi (- 1074)" by (simp only: mn of_int_diff left_diff_distrib)
  then have hx: "?R (?R ?x / 2) \<le> ?x" using x(1) by (intro round_half_le [where n = "n - m"]) auto
  have ra: "?R (fval a) = fval a" "?R (fval b) = fval b"
    using assms by (simp_all add: round_rat_repr moderate_def)
  have s: "fval a \<le> ?R (fval a + ?R (?R ?x / 2))" "?R (fval a + ?R (?R ?x / 2)) \<le> fval b"
    using round_rat_mono [of "fval a" "fval a + ?R (?R ?x / 2)" binary64]
      round_rat_mono [of "fval a + ?R (?R ?x / 2)" "fval b" binary64] h hx ra by auto
  have less: "(2 :: rat) powi 1022 < 2 powi 1024" by (simp only: powi2_less_iff)
  have small: "\<bar>?R (fval a + ?R (?R ?x / 2))\<bar> \<le> 2 powi 1022"
    using s assms unfolding moderate_def by linarith
  then have m: "is_finite (midpoint a b)" "fval (midpoint a b) = ?R (fval a + ?R (?R ?x / 2))"
    using fadd_val [of a "dmul (dsub b a) dhalf" binary64] fin(1) half less
    by (auto simp: midpoint_def)
  show "moderate (midpoint a b)"
    using m small repr_round_rat [of binary64] by (simp add: moderate_def)
  show "fval a \<le> fval (midpoint a b)" "fval (midpoint a b) \<le> fval b" using s m by simp_all
  show "fval (midpoint a b) = ?R (fval a + ?R (?R ?x / 2))" by (rule m(2))
qed

end
