(* ===== verification/Budget_Router.thy ===== *)
theory Budget_Router
  imports Budget_Plan Float_Midpoint
begin

text \<open>
  The point-budget router of \<^verbatim>\<open>Tiling.cpp\<close>: it rebuilds the root rectangle from the tiles of a
  plan and descends the quadrants of a position until it meets the identifier of a tile.  For
  coordinates of moderate size, where no split overflows, it sends every planned point to the
  leaf that counted it.
\<close>

section \<open>The router\<close>

record PointBudgetTileRouter =
  router_tiles :: "PointBudgetTile list"
  router_root :: Rect

definition tile_before :: "PointBudgetTile \<Rightarrow> PointBudgetTile \<Rightarrow> bool" where
  "tile_before l r = TileIdLess (bt_id l) (bt_id r)"

definition union_rect :: "Rect \<Rightarrow> Rect \<Rightarrow> Rect" where
  "union_rect r s = rect (fmin (minX r) (minX s)) (fmax (maxX r) (maxX s))
     (fmin (minY r) (minY s)) (fmax (maxY r) (maxY s))"

definition root_rect :: "PointBudgetTile list \<Rightarrow> Rect" where
  "root_rect ts = (if ts = [] then rect fzero fzero fzero fzero
     else foldl (\<lambda>r t. union_rect r (bt_rect t)) (bt_rect (hd ts)) ts)"

definition router_of_tiles :: "PointBudgetTile list \<Rightarrow> PointBudgetTileRouter" where
  "router_of_tiles ts =
     (let sorted_tiles = sort_by tile_before ts
      in \<lparr>router_tiles = sorted_tiles, router_root = root_rect sorted_tiles\<rparr>)"

definition router_of_plan :: "PointBudgetPlan \<Rightarrow> PointBudgetTileRouter" where
  "router_of_plan plan = router_of_tiles (tiles plan)"

definition PointBudgetTileRouter_IsValid :: "PointBudgetTileRouter \<Rightarrow> bool" where
  "PointBudgetTileRouter_IsValid q \<longleftrightarrow>
     (let r = router_root q in
      router_tiles q \<noteq> [] \<and> is_finite (minX r) \<and> is_finite (maxX r) \<and> is_finite (minY r) \<and>
      is_finite (maxY r) \<and> fle (minX r) (maxX r) \<and> fle (minY r) (maxY r) \<and>
      list_all PointBudgetTile_IsValid (router_tiles q))"

definition findTile :: "PointBudgetTile list \<Rightarrow> PointTileId \<Rightarrow> bool" where
  "findTile ts t =
     (let i = lower_bound_index (\<lambda>tile. TileIdLess (bt_id tile) t) ts
      in i < length ts \<and> TileIdEqual (bt_id (ts ! i)) t)"

function descend :: "PointBudgetTile list \<Rightarrow> Vec3d \<Rightarrow> Rect \<Rightarrow> PointTileId \<Rightarrow> PointTileId" where
  "descend ts p r t =
     (if findTile ts t then t
      else if kMaxPointBudgetDepth \<le> level t \<or> feq (minX r) (maxX r) \<or> feq (minY r) (maxY r)
      then tile_id (- 1) 0 0 0
      else descend ts p (child_rect r (child_of r p)) (child_id t (child_of r p)))"
  by pat_completeness auto
termination
  by (relation "measure (\<lambda>(ts, p, r, t). nat (kMaxPointBudgetDepth - level t))")
    (auto simp: child_id_def tile_id_def)

declare descend.simps [simp del]

definition PointBudgetTileRouter_GetTileId :: "PointBudgetTileRouter \<Rightarrow> Vec3d \<Rightarrow> PointTileId" where
  "PointBudgetTileRouter_GetTileId q p =
     (let r = router_root q in
      if \<not> PointBudgetTileRouter_IsValid q \<or> \<not> is_finite (vx p) \<or> \<not> is_finite (vy p)
      then tile_id (- 1) 0 0 0
      else if flt (vx p) (minX r) \<or> flt (maxX r) (vx p) \<or> flt (vy p) (minY r) \<or> flt (maxY r) (vy p)
      then tile_id (- 1) 0 0 0
      else descend (router_tiles q) p r root_id)"

interpretation budget_router: tile_router PointBudgetTileRouter_GetTileId PointBudgetTileRouter_IsValid
  by unfold_locales (auto simp: PointBudgetTileRouter_GetTileId_def TileId_IsValid_def tile_id_def Let_def)

section \<open>Identifiers name nodes\<close>

lemma id_at_snoc: "id_at t (ks @ [k]) = child_id (id_at t ks) k"
  by (induction ks arbitrary: t) auto

lemma rect_at_snoc: "rect_at r (ks @ [k]) = child_rect (rect_at r ks) k"
  by (induction ks arbitrary: r) auto

lemma in_node_snoc: "in_node r (ks @ [k]) p \<longleftrightarrow> in_node r ks p \<and> child_of (rect_at r ks) p = k"
  by (induction ks arbitrary: r) auto

lemma in_node_take: "in_node r ks p \<Longrightarrow> in_node r (take n ks) p"
  by (induction ks arbitrary: r n) (auto simp: take_Cons')

lemma level_id_at [simp]: "level (id_at t ks) = level t + int (length ks)"
  by (induction ks arbitrary: t) (auto simp: child_id_def tile_id_def)

lemma halves_inj:
  "a * 2 + int e = b * 2 + int f \<Longrightarrow> e < 2 \<Longrightarrow> f < 2 \<Longrightarrow> a = b \<and> e = f"
  by presburger

lemma child_id_inj:
  assumes "child_id t k = child_id u l" "k < 4" "l < 4"
  shows "k = l \<and> level t = level u \<and> tx t = tx u \<and> ty t = ty u"
proof -
  have e: "tx t * 2 + int (k mod 2) = tx u * 2 + int (l mod 2)"
    "ty t * 2 + int (k div 2) = ty u * 2 + int (l div 2)" "level t = level u"
    using assms(1) by (auto simp: child_id_def tile_id_def)
  have "tx t = tx u \<and> k mod 2 = l mod 2" using e(1) by (rule halves_inj) simp_all
  moreover have "ty t = ty u \<and> k div 2 = l div 2" using e(2) assms(2,3) by (intro halves_inj) auto
  ultimately show ?thesis using e(3) by (metis div_mult_mod_eq)
qed

lemma id_at_root_inj:
  "id_at root_id ks = id_at root_id ls \<Longrightarrow> list_all (\<lambda>k. k < 4) ks \<Longrightarrow> list_all (\<lambda>k. k < 4) ls \<Longrightarrow> ks = ls"
proof (induction ks arbitrary: ls rule: rev_induct)
  case Nil
  then have "level (id_at root_id []) = level (id_at root_id ls)" by simp
  then show ?case by simp
next
  case (snoc k ks)
  have "level (id_at root_id (ks @ [k])) = level (id_at root_id ls)" using snoc.prems(1) by simp
  then obtain l ls' where ls: "ls = ls' @ [l]" by (cases ls rule: rev_cases) auto
  have c: "child_id (id_at root_id ks) k = child_id (id_at root_id ls') l"
    using snoc.prems(1) ls by (simp add: id_at_snoc)
  have z: "tz (id_at root_id ms) = 0" for ms
    by (cases ms rule: rev_cases) (simp_all add: id_at_snoc root_id_def child_id_def tile_id_def)
  have "k = l" "id_at root_id ks = id_at root_id ls'"
    using child_id_inj [OF c] snoc.prems ls z [of ks] z [of ls'] by (auto intro: TileId.equality)
  then show ?case using snoc.IH [of ls'] snoc.prems ls by simp
qed

section \<open>Rectangles of moderate size\<close>

definition good_rect :: "Rect \<Rightarrow> bool" where
  "good_rect r \<longleftrightarrow> moderate (minX r) \<and> moderate (maxX r) \<and> moderate (minY r) \<and> moderate (maxY r) \<and>
     fval (minX r) \<le> fval (maxX r) \<and> fval (minY r) \<le> fval (maxY r)"

definition same_rect :: "Rect \<Rightarrow> Rect \<Rightarrow> bool" where
  "same_rect r s \<longleftrightarrow> fval (minX r) = fval (minX s) \<and> fval (maxX r) = fval (maxX s) \<and>
     fval (minY r) = fval (minY s) \<and> fval (maxY r) = fval (maxY s)"

definition inside :: "Rect \<Rightarrow> Rect \<Rightarrow> bool" where
  "inside inner outer \<longleftrightarrow>
     fval (minX outer) \<le> fval (minX inner) \<and> fval (maxX inner) \<le> fval (maxX outer) \<and>
     fval (minY outer) \<le> fval (minY inner) \<and> fval (maxY inner) \<le> fval (maxY outer)"

definition covers :: "Rect \<Rightarrow> Vec3d \<Rightarrow> bool" where
  "covers r p \<longleftrightarrow> fval (minX r) \<le> fval (vx p) \<and> fval (vx p) \<le> fval (maxX r) \<and>
     fval (minY r) \<le> fval (vy p) \<and> fval (vy p) \<le> fval (maxY r)"

lemma split_of_midpoint: "split_of = midpoint"
  by (simp add: split_of_def midpoint_def fun_eq_iff)

lemma split_of_good:
  assumes "moderate a" "moderate b" "fval a \<le> fval b"
  shows "moderate (split_of a b)" "fval a \<le> fval (split_of a b)" "fval (split_of a b) \<le> fval b"
  using midpoint_val [OF assms] by (simp_all add: split_of_midpoint)

lemma split_of_same:
  assumes "moderate a" "moderate b" "fval a \<le> fval b" "moderate a'" "moderate b'"
    "fval a' = fval a" "fval b' = fval b"
  shows "fval (split_of a' b') = fval (split_of a b)"
  using midpoint_val(4) [OF assms(1-3)] midpoint_val(4) [of a' b'] assms by (simp add: split_of_midpoint)

lemma good_rect_child: "good_rect r \<Longrightarrow> good_rect (child_rect r k) \<and> inside (child_rect r k) r"
  using split_of_good [of "minX r" "maxX r"] split_of_good [of "minY r" "maxY r"]
  by (simp add: good_rect_def child_rect_def Let_def inside_def)

lemma same_rect_child:
  assumes "good_rect r" "good_rect s" "same_rect s r"
  shows "same_rect (child_rect s k) (child_rect r k)"
    and "horizontal_finite p \<Longrightarrow> child_of s p = child_of r p"
proof -
  have x: "fval (split_of (minX s) (maxX s)) = fval (split_of (minX r) (maxX r))"
    "fval (split_of (minY s) (maxY s)) = fval (split_of (minY r) (maxY r))"
    using assms by (auto simp: good_rect_def same_rect_def intro!: split_of_same)
  then show "same_rect (child_rect s k) (child_rect r k)"
    using assms(3) by (simp add: same_rect_def child_rect_def Let_def)
  have "is_finite (split_of (minX s) (maxX s))" "is_finite (split_of (minX r) (maxX r))"
    "is_finite (split_of (minY s) (maxY s))" "is_finite (split_of (minY r) (maxY r))"
    using assms(1,2) split_of_good(1) by (auto simp: good_rect_def)
  then show "horizontal_finite p \<Longrightarrow> child_of s p = child_of r p"
    using x by (simp add: child_of_def horizontal_finite_def)
qed

lemma rect_at_good: "good_rect r \<Longrightarrow> good_rect (rect_at r ks) \<and> inside (rect_at r ks) r"
proof (induction ks arbitrary: r)
  case (Cons k ks)
  have "good_rect (child_rect r k)" "inside (child_rect r k) r" using good_rect_child [OF Cons.prems] by simp_all
  with Cons.IH [of "child_rect r k"] show ?case by (fastforce simp: inside_def)
qed (simp add: inside_def)

lemma child_covers:
  assumes "good_rect r" "covers r p" "horizontal_finite p"
  shows "covers (child_rect r (child_of r p)) p"
proof -
  have "is_finite (split_of (minX r) (maxX r))" "is_finite (split_of (minY r) (maxY r))"
    using assms(1) split_of_good(1) by (auto simp: good_rect_def)
  then show ?thesis
    using assms(2,3) by (auto simp: covers_def child_of_def child_rect_def Let_def horizontal_finite_def)
qed

lemma in_node_covers:
  "good_rect r \<Longrightarrow> covers r p \<Longrightarrow> horizontal_finite p \<Longrightarrow> in_node r ks p \<Longrightarrow> covers (rect_at r ks) p"
  by (induction ks arbitrary: r) (auto simp: good_rect_child child_covers)

section \<open>The bounds of the points\<close>

lemma expand_rect_props:
  assumes "good_rect r" "moderate (vx p)" "moderate (vy p)"
  shows "good_rect (expand_rect r p)" "covers (expand_rect r p) p" "inside r (expand_rect r p)"
  using assms by (auto simp: good_rect_def expand_rect_def rect_def covers_def inside_def fmin_def fmax_def)

definition touched :: "Rect \<Rightarrow> Vec3d set \<Rightarrow> bool" where
  "touched r P \<longleftrightarrow> (\<exists>p \<in> P. fval (vx p) = fval (minX r)) \<and> (\<exists>p \<in> P. fval (vx p) = fval (maxX r)) \<and>
     (\<exists>p \<in> P. fval (vy p) = fval (minY r)) \<and> (\<exists>p \<in> P. fval (vy p) = fval (maxY r))"

lemma expand_rect_touched:
  "good_rect r \<Longrightarrow> moderate (vx p) \<Longrightarrow> moderate (vy p) \<Longrightarrow> touched r P \<Longrightarrow> p \<in> Q \<Longrightarrow> P \<subseteq> Q \<Longrightarrow>
   touched (expand_rect r p) Q"
  unfolding touched_def expand_rect_def rect_def good_rect_def fmin_def fmax_def by auto

lemma foldl_expand_rect:
  assumes "good_rect r" "touched r P" "\<forall>p \<in> set ps. moderate (vx p) \<and> moderate (vy p)"
    "P \<subseteq> Q" "set ps \<subseteq> Q"
  shows "good_rect (foldl expand_rect r ps) \<and> inside r (foldl expand_rect r ps) \<and>
    touched (foldl expand_rect r ps) Q \<and> (\<forall>p \<in> set ps. covers (foldl expand_rect r ps) p)"
  using assms
proof (induction ps arbitrary: r P)
  case Nil
  then show ?case by (auto simp: inside_def touched_def)
next
  case (Cons p ps)
  have m: "moderate (vx p)" "moderate (vy p)" using Cons.prems by auto
  note e = expand_rect_props [OF Cons.prems(1) m]
  have "touched (expand_rect r p) Q"
    using expand_rect_touched [OF Cons.prems(1) m Cons.prems(2), of Q] Cons.prems by auto
  from Cons.IH [OF e(1) this] Cons.prems e(2,3) show ?case
    by (auto simp: inside_def covers_def)
qed

definition moderate_points :: "Vec3d list \<Rightarrow> bool" where
  "moderate_points ps \<longleftrightarrow> list_all (\<lambda>p. moderate (vx p) \<and> moderate (vy p)) ps"

lemma moderate_points_finite: "moderate_points ps \<Longrightarrow> list_all horizontal_finite ps"
  by (auto simp: moderate_points_def list_all_iff horizontal_finite_def)

lemma makeBounds_props:
  assumes "moderate_points ps" "ps \<noteq> []"
  shows "good_rect (makeBounds ps) \<and> touched (makeBounds ps) (set ps) \<and>
    (\<forall>p \<in> set ps. covers (makeBounds ps) p)"
proof -
  have "moderate (vx (hd ps))" "moderate (vy (hd ps))"
    using assms by (auto simp: moderate_points_def list_all_iff)
  then have "good_rect (point_rect (hd ps))" "touched (point_rect (hd ps)) {hd ps}"
    by (auto simp: good_rect_def point_rect_def rect_def touched_def)
  from foldl_expand_rect [OF this, of ps "set ps"] show ?thesis
    using assms by (auto simp: makeBounds_def moderate_points_def list_all_iff)
qed

section \<open>The rebuilt root\<close>

lemma foldl_union_rect:
  assumes "good_rect r" "\<forall>s \<in> set rs. good_rect s" "inside r R" "\<forall>s \<in> set rs. inside s R"
  shows "good_rect (foldl union_rect r rs) \<and> inside (foldl union_rect r rs) R \<and>
    (\<forall>s \<in> set rs. inside s (foldl union_rect r rs)) \<and> inside r (foldl union_rect r rs)"
  using assms
proof (induction rs arbitrary: r)
  case Nil
  then show ?case by (simp add: inside_def)
next
  case (Cons s rs)
  have "good_rect (union_rect r s)" "inside (union_rect r s) R" "inside r (union_rect r s)"
    "inside s (union_rect r s)"
    using Cons.prems
    by (auto simp: good_rect_def union_rect_def rect_def inside_def fmin_def fmax_def)
  with Cons.IH [of "union_rect r s"] Cons.prems show ?case
    by (fastforce simp: inside_def)
qed

lemma root_rect_same:
  assumes "ts \<noteq> []" "\<forall>t \<in> set ts. good_rect (bt_rect t) \<and> inside (bt_rect t) R"
    "touched R P" "\<forall>p \<in> P. \<exists>t \<in> set ts. covers (bt_rect t) p" 
  shows "good_rect (root_rect ts) \<and> same_rect (root_rect ts) R"
proof -
  let ?U = "foldl union_rect (bt_rect (hd ts)) (map bt_rect ts)"
  have U: "root_rect ts = ?U" using assms(1) by (simp add: root_rect_def foldl_map)
  have g: "good_rect ?U" "inside ?U R" "\<forall>t \<in> set ts. inside (bt_rect t) ?U"
    using foldl_union_rect [of "bt_rect (hd ts)" "map bt_rect ts" R] assms(1,2) by auto
  have "covers ?U p" if "p \<in> P" for p
    using assms(4) g(3) that by (fastforce simp: covers_def inside_def)
  then have "inside R ?U"
    using assms(3) by (fastforce simp: touched_def covers_def inside_def)
  then show ?thesis using g U by (auto simp: same_rect_def inside_def)
qed

section \<open>Finding a tile\<close>

interpretation tile_before_order: comparator tile_before
  by unfold_locales (auto simp: tile_before_def tile_order.irrefl intro: tile_order.trans
      dest: tile_order.neg_trans)

lemma findTile_iff:
  "sorted_wrt (\<lambda>a b. \<not> tile_before b a) ts \<Longrightarrow> findTile ts t \<longleftrightarrow> t \<in> bt_id ` set ts"
proof (induction ts)
  case Nil
  then show ?case by (simp add: findTile_def Let_def lower_bound_index_def)
next
  case (Cons x ts)
  show ?case
  proof (cases "TileIdLess (bt_id x) t")
    case True
    then have "findTile (x # ts) t = findTile ts t" by (simp add: findTile_def Let_def lower_bound_index_def)
    moreover have "t \<noteq> bt_id x" using True tile_order.irrefl by auto
    ultimately show ?thesis using Cons by auto
  next
    case False
    have "findTile (x # ts) t \<longleftrightarrow> bt_id x = t"
      using False by (simp add: findTile_def Let_def lower_bound_index_def)
    moreover have "bt_id x = t" if "y \<in> set ts" "bt_id y = t" for y
      using that Cons.prems False tile_order.total [of "bt_id x" t] by (auto simp: tile_before_def)
    ultimately show ?thesis by auto
  qed
qed

section \<open>Planned points reach their leaf\<close>

lemma leaf_path_splits:
  "ks \<in> set (leaf_paths cfg ps depth r) \<Longrightarrow> n < length ks \<Longrightarrow>
   \<not> feq (minX (rect_at r (take n ks))) (maxX (rect_at r (take n ks))) \<and>
   \<not> feq (minY (rect_at r (take n ks))) (maxY (rect_at r (take n ks)))"
proof (induction ps depth r arbitrary: ks n rule: leaf_paths_induct [where cfg = cfg])
  case (split ps depth r)
  then obtain k ks' where k: "ks = k # ks'" "k < 4" "filter (\<lambda>p. child_of r p = k) ps \<noteq> []"
    "ks' \<in> set (leaf_paths cfg (filter (\<lambda>p. child_of r p = k) ps) (depth + 1) (child_rect r k))"
    by (auto simp: leaf_paths_split)
  show ?case
  proof (cases n)
    case 0
    then show ?thesis using split.hyps by (simp add: splits_def can_split_def)
  next
    case (Suc m)
    then show ?thesis using split.IH [OF k(2,3,4), of m] split.prems k(1) by simp
  qed
qed simp

lemma unique_path_no_prefix:
  assumes "length (filter (\<lambda>ks. in_node r ks p) paths) = 1" "ks \<in> set paths" "in_node r ks p"
    "ls \<in> set paths" "in_node r ls p"
  shows "ls = ks"
proof -
  obtain x where "filter (\<lambda>ks. in_node r ks p) paths = [x]"
    using assms(1) by (metis One_nat_def length_0_conv length_Suc_conv)
  moreover have "ks \<in> set (filter (\<lambda>ks. in_node r ks p) paths)" "ls \<in> set (filter (\<lambda>ks. in_node r ks p) paths)"
    using assms by auto
  ultimately show ?thesis by simp
qed

lemma descend_finds:
  assumes "ks \<in> set paths" "in_node R ks p" "length (filter (\<lambda>ks. in_node R ks p) paths) = 1"
    "\<forall>ls \<in> set paths. list_all (\<lambda>k. k < 4) ls \<and> length ls \<le> 31"
    "\<forall>n < length ks. \<not> feq (minX (rect_at R (take n ks))) (maxX (rect_at R (take n ks))) \<and>
       \<not> feq (minY (rect_at R (take n ks))) (maxY (rect_at R (take n ks)))"
    "\<And>t. findTile ts t \<longleftrightarrow> t \<in> id_at root_id ` set paths"
    "good_rect R" "horizontal_finite p" "n \<le> length ks"
    "good_rect r" "same_rect r (rect_at R (take n ks))"
  shows "descend ts p r (id_at root_id (take n ks)) = id_at root_id ks"
  using assms(9-11)
proof (induction "length ks - n" arbitrary: n r)
  case 0
  then have "findTile ts (id_at root_id ks)" using assms(1,6) by auto
  with 0 show ?case by (simp add: descend.simps)
next
  case (Suc m)
  then have n: "n < length ks" by simp
  let ?t = "id_at root_id (take n ks)" and ?r = "rect_at R (take n ks)"
  have g: "good_rect ?r" using rect_at_good [OF assms(7)] by simp
  have take4: "list_all (\<lambda>k. k < 4) (take n ks)"
    using assms(1,4) by (auto simp: list_all_iff dest: in_set_takeD)
  have "\<not> findTile ts ?t"
  proof
    assume "findTile ts ?t"
    then obtain ls where ls: "ls \<in> set paths" "id_at root_id (take n ks) = id_at root_id ls"
      using assms(6) by auto
    then have "take n ks = ls" using id_at_root_inj [OF ls(2)] take4 assms(4) by auto
    moreover have "in_node R (take n ks) p" using assms(2) by (rule in_node_take)
    ultimately have "ls = ks" using unique_path_no_prefix [OF assms(3,1,2) ls(1)] by simp
    with \<open>take n ks = ls\<close> n show False by (metis length_take min.absorb2 less_imp_le nat_neq_iff)
  qed
  moreover have "\<not> kMaxPointBudgetDepth \<le> level ?t"
    using n assms(1,4) by (auto simp: kMaxPointBudgetDepth_def root_id_def tile_id_def)
  moreover have "\<not> feq (minX r) (maxX r)" "\<not> feq (minY r) (maxY r)"
    using assms(5) n g Suc.prems(2,3) by (auto simp: good_rect_def same_rect_def)
  moreover have k: "child_of r p = ks ! n"
    using same_rect_child(2) [OF g Suc.prems(2,3) assms(8)] in_node_take [OF assms(2), of "Suc n"] n
    by (simp add: take_Suc_conv_app_nth in_node_snoc)
  ultimately have "descend ts p r ?t = descend ts p (child_rect r (ks ! n)) (child_id ?t (ks ! n))"
    by (subst descend.simps) simp
  also have "child_id ?t (ks ! n) = id_at root_id (take (Suc n) ks)"
    using n by (simp add: take_Suc_conv_app_nth id_at_snoc)
  also have "descend ts p (child_rect r (ks ! n)) (id_at root_id (take (Suc n) ks)) = id_at root_id ks"
  proof (rule Suc.hyps(1))
    show "m = length ks - Suc n" "Suc n \<le> length ks" using Suc.hyps(2) n by simp_all
    show "good_rect (child_rect r (ks ! n))" using good_rect_child [OF Suc.prems(2)] by simp
    show "same_rect (child_rect r (ks ! n)) (rect_at R (take (Suc n) ks))"
      using same_rect_child(1) [OF g Suc.prems(2,3)] n by (simp add: take_Suc_conv_app_nth rect_at_snoc)
  qed
  finally show ?case .
qed

lemma router_finds_leaf:
  assumes "PointBudgetConfig_IsValid cfg" "ps \<noteq> []" "moderate_points ps" "p \<in> set ps"
    "tiles plan = map (leaf_at root_id (makeBounds ps) ps) (plan_paths ps cfg)"
    "ks \<in> set (plan_paths ps cfg)" "in_node (makeBounds ps) ks p"
  shows "PointBudgetTileRouter_GetTileId (router_of_plan plan) p = id_at root_id ks"
proof -
  let ?R = "makeBounds ps" and ?paths = "plan_paths ps cfg"
  define ts where "ts = sort_by tile_before (tiles plan)"
  have set_ts: "set ts = leaf_at root_id ?R ps ` set ?paths" by (simp add: ts_def assms(5))
  have R: "good_rect ?R" "touched ?R (set ps)" "\<forall>p \<in> set ps. covers ?R p"
    using makeBounds_props [OF assms(3,2)] by auto
  have fin: "horizontal_finite q" if "q \<in> set ps" for q
    using moderate_points_finite [OF assms(3)] that by (simp add: list_all_iff)
  have unique: "length (filter (\<lambda>ks. in_node ?R ks q) ?paths) = 1" if "q \<in> set ps" for q
    using leaf_paths_partition [OF that] by (simp add: plan_paths_def)
  have bounds: "\<forall>ls \<in> set ?paths. list_all (\<lambda>k. k < 4) ls \<and> length ls \<le> 31"
    using leaf_path_bounds [of _ cfg ps 0 ?R] assms(1)
    by (fastforce simp: plan_paths_def PointBudgetConfig_IsValid_def kMaxPointBudgetDepth_def)
  have rects: "\<forall>t \<in> set ts. good_rect (bt_rect t) \<and> inside (bt_rect t) ?R"
    using rect_at_good [OF R(1)] by (auto simp: set_ts leaf_at_def)
  have ne: "ts \<noteq> []" using set_ts assms(6) by auto
  have "\<exists>t \<in> set ts. covers (bt_rect t) q" if q: "q \<in> set ps" for q
  proof -
    obtain ls where "ls \<in> set ?paths" "in_node ?R ls q"
      using unique [OF q] by (metis (mono_tags, lifting) One_nat_def filter_empty_conv length_0_conv nat.simps(3))
    then show ?thesis using in_node_covers [OF R(1) _ fin [OF q]] R(3) q by (auto simp: set_ts leaf_at_def)
  qed
  then have root: "good_rect (root_rect ts)" "same_rect (root_rect ts) ?R"
    using root_rect_same [OF ne rects R(2)] by auto
  have find: "findTile ts t \<longleftrightarrow> t \<in> id_at root_id ` set ?paths" for t
    using findTile_iff [OF tile_before_order.sorted_sort_by, of "tiles plan" t]
    by (simp add: flip: ts_def) (simp add: set_ts image_image leaf_at_def)
  have router: "router_of_plan plan = \<lparr>router_tiles = ts, router_root = root_rect ts\<rparr>"
    by (simp add: router_of_plan_def router_of_tiles_def ts_def Let_def)
  have "PointBudgetTile_IsValid t" if t: "t \<in> set ts" for t
  proof -
    obtain ls where ls: "ls \<in> set ?paths" "t = leaf_at root_id ?R ps ls" using t by (auto simp: set_ts)
    have "filter (in_node ?R ls) ps \<noteq> []"
      using leaf_path_nonempty ls(1) assms(2) by (auto simp: plan_paths_def)
    then show ?thesis using rects t ls(2)
      by (auto simp: PointBudgetTile_IsValid_def TileId_IsValid_def leaf_at_def good_rect_def root_id_def tile_id_def)
  qed
  then have valid: "PointBudgetTileRouter_IsValid (router_of_plan plan)"
    using root(1) ne by (auto simp: router PointBudgetTileRouter_IsValid_def good_rect_def list_all_iff)
  have "covers (root_rect ts) p" using R(3) assms(4) root(2) by (simp add: covers_def same_rect_def)
  then have "PointBudgetTileRouter_GetTileId (router_of_plan plan) p = descend ts p (root_rect ts) root_id"
    using valid fin [OF assms(4)] root(1)
    by (auto simp: PointBudgetTileRouter_GetTileId_def router covers_def good_rect_def horizontal_finite_def)
  also have "\<dots> = id_at root_id ks"
    using descend_finds [OF assms(6,7) unique [OF assms(4)] bounds _ find R(1) fin [OF assms(4)], of 0 "root_rect ts"]
      leaf_path_splits [of ks cfg ps 0 ?R] assms(6) root
    by (simp add: plan_paths_def)
  finally show ?thesis .
qed

text \<open>
  Claim C5: The router made from a plan sends every planned point to the tile of the plan whose
  rectangle contains the point, and it sends to each tile exactly as many of the points as the
  planner counted there.  The coordinates are doubles up to \<open>2 ^ 1022\<close> in size, so that no split
  overflows; nothing is assumed about their distribution, ties and coincident points included.
\<close>

theorem router_agrees_with_planner:
  assumes "PointBudgetConfig_IsValid cfg" "ps \<noteq> []" "moderate_points ps"
    "BuildPointBudgetPlan ps cfg = (ok, plan, ds)"
  shows "(\<forall>p \<in> set ps. \<exists>t \<in> set (tiles plan).
      PointBudgetTileRouter_GetTileId (router_of_plan plan) p = bt_id t \<and> covers (bt_rect t) p) \<and>
    (\<forall>t \<in> set (tiles plan).
      length (filter (\<lambda>p. PointBudgetTileRouter_GetTileId (router_of_plan plan) p = bt_id t) ps) = bt_count t)"
proof -
  let ?R = "makeBounds ps" and ?paths = "plan_paths ps cfg"
  have plan: "tiles plan = map (leaf_at root_id ?R ps) ?paths"
    using assms(4) planned_tiles finish_plan_simps(2) [of "planned ps cfg"]
    by (simp add: BuildPointBudgetPlan_planned [OF assms(1,2) moderate_points_finite [OF assms(3)]])
  note reach = router_finds_leaf [OF assms(1-3) _ plan]
  have R: "good_rect ?R" "\<forall>p \<in> set ps. covers ?R p" using makeBounds_props [OF assms(3,2)] by auto
  have fin: "horizontal_finite q" if "q \<in> set ps" for q
    using moderate_points_finite [OF assms(3)] that by (simp add: list_all_iff)
  have leaf: "\<exists>ks \<in> set ?paths. in_node ?R ks p" if "p \<in> set ps" for p
    using leaf_paths_partition [OF that, of ?R cfg 0]
    by (metis (mono_tags, lifting) One_nat_def filter_empty_conv length_0_conv nat.simps(3) plan_paths_def)
  have bounds: "list_all (\<lambda>k. k < 4) ls" if "ls \<in> set ?paths" for ls
    using leaf_path_bounds [of ls cfg ps 0 ?R] that assms(1)
    by (simp add: plan_paths_def PointBudgetConfig_IsValid_def)
  have "PointBudgetTileRouter_GetTileId (router_of_plan plan) p = id_at root_id ks \<longleftrightarrow> in_node ?R ks p"
    if "p \<in> set ps" "ks \<in> set ?paths" for p ks
    using reach [OF that(1)] leaf [OF that(1)] that(2) bounds id_at_root_inj by metis
  then have "length (filter (\<lambda>p. PointBudgetTileRouter_GetTileId (router_of_plan plan) p = bt_id t) ps) = bt_count t"
    if "t \<in> set (tiles plan)" for t
    using that by (auto simp: plan leaf_at_def intro!: arg_cong [where f = length] filter_cong)
  moreover have "\<exists>t \<in> set (tiles plan).
      PointBudgetTileRouter_GetTileId (router_of_plan plan) p = bt_id t \<and> covers (bt_rect t) p"
    if p: "p \<in> set ps" for p
  proof -
    obtain ks where ks: "ks \<in> set ?paths" "in_node ?R ks p" using leaf [OF p] by auto
    then show ?thesis
      using reach [OF p ks] in_node_covers [OF R(1) _ fin [OF p] ks(2)] R(2) p
      by (auto simp: plan leaf_at_def)
  qed
  ultimately show ?thesis by blast
qed

lemma moderate_int: "\<bar>n\<bar> < 2 ^ 53 \<Longrightarrow> moderate (F_Fin (of_int n))"
proof -
  assume n: "\<bar>n\<bar> < 2 ^ 53"
  have "(2 :: rat) powi 53 \<le> 2 powi 1022" by (simp only: powi2_le_iff)
  moreover have "\<bar>of_int n :: rat\<bar> \<le> 2 powi 53" using n by (simp flip: of_int_abs)
  ultimately have "\<bar>of_int n :: rat\<bar> \<le> 2 powi 1022" by linarith
  then show ?thesis using repr64_of_int [OF n] by (simp add: moderate_def)
qed

lemma sample_points_moderate: "moderate_points sample_points"
  using moderate_int [of 0] moderate_int [of 1] moderate_int [of 3] moderate_int [of 8]
  by (simp add: moderate_points_def sample_points_def)

theorem router_agrees_with_planner_witness:
  "\<exists>ok plan ds. BuildPointBudgetPlan sample_points sample_budget = (ok, plan, ds) \<and>
     (\<exists>t \<in> set (tiles plan). PointBudgetTileRouter_GetTileId (router_of_plan plan)
        (vec (F_Fin 1) (F_Fin 3) fzero) = bt_id t)"
proof -
  obtain ok plan ds where b: "BuildPointBudgetPlan sample_points sample_budget = (ok, plan, ds)"
    by (rule prod_cases3)
  have "vec (F_Fin 1) (F_Fin 3) fzero \<in> set sample_points" by (simp add: sample_points_def)
  with router_agrees_with_planner [OF sample_budget_valid sample_points_finite(1) sample_points_moderate b]
  show ?thesis using b by blast
qed

end
