(* ===== verification/Budget_Stream.thy ===== *)
theory Budget_Stream
  imports Budget_Router
begin

text \<open>
  The streaming point-budget planner of \<^verbatim>\<open>Tiling.cpp\<close>: two passes over a point stream, the
  Morton codes of the terminal cells, their counts in key order with prefix totals, and the
  recursion over counted ranges.  A stream of \<^verbatim>\<open>PointStream::ReadNext\<close> results is the list of
  what it returns before the end.  The main theorem is that this planner computes the plan of
  the planner in memory.
\<close>

section \<open>Streams\<close>

datatype StreamRead =
  ReadChunk PointChunk PointData Diagnostic
| ReadError PointChunk PointData Diagnostic

fun read_data :: "StreamRead \<Rightarrow> PointData" where
  "read_data (ReadChunk c d diag) = d"
| "read_data (ReadError c d diag) = d"

fun read_diagnostic :: "StreamRead \<Rightarrow> Diagnostic" where
  "read_diagnostic (ReadChunk c d diag) = diag"
| "read_diagnostic (ReadError c d diag) = diag"

fun read_bad :: "StreamRead \<Rightarrow> bool" where
  "read_bad (ReadError c d diag) = True"
| "read_bad (ReadChunk c d diag) =
     (\<not> PointChunk_IsValid c \<or> \<not> PointData_IsValid d \<or> chunk_pointCount c \<noteq> length (positions d))"

definition read_failure :: "StreamRead \<Rightarrow> Diagnostic" where
  "read_failure rd =
     (if message (read_diagnostic rd) = []
      then error_diag DecodeFailure ''point stream failed during budget planning''
      else read_diagnostic rd)"

definition count_overflow :: Diagnostic where
  "count_overflow = error_diag InvalidPointTile ''point count exceeds the planner range''"

section \<open>First pass: bounds and count\<close>

fun scan_bounds :: "Vec3d list \<Rightarrow> Rect option \<Rightarrow> Diagnostic + Rect option" where
  "scan_bounds [] b = Inr b"
| "scan_bounds (p # ps) b =
     (if \<not> is_finite (vx p) \<or> \<not> is_finite (vy p)
      then Inl (error_diag NonFiniteCoordinate
        ''point-budget planning requires finite horizontal coordinates'')
      else scan_bounds ps (Some (case b of None \<Rightarrow> point_rect p | Some r \<Rightarrow> expand_rect r p)))"

fun first_pass :: "StreamRead list \<Rightarrow> Rect option \<Rightarrow> nat \<Rightarrow> Diagnostic + (Rect option \<times> nat)" where
  "first_pass [] b n = Inr (b, n)"
| "first_pass (rd # rds) b n =
     (if read_bad rd then Inl (read_failure rd)
      else if u64_max - length (positions (read_data rd)) < n then Inl count_overflow
      else case scan_bounds (positions (read_data rd)) b of
        Inl d \<Rightarrow> Inl d
      | Inr b' \<Rightarrow> first_pass rds b' (n + length (positions (read_data rd))))"

section \<open>Second pass: the counts of the terminal cells\<close>

definition EncodeMortonPrefix :: "int \<Rightarrow> int \<Rightarrow> nat \<Rightarrow> u64" where
  "EncodeMortonPrefix x y depth =
     foldl (\<lambda>code b. push_bit 2 code OR of_bool (bit x b) OR push_bit 1 (of_bool (bit y b)))
       0 (rev [0..<depth])"

fun terminal_cell :: "nat \<Rightarrow> Rect \<Rightarrow> Vec3d \<Rightarrow> int \<times> int \<Rightarrow> int \<times> int" where
  "terminal_cell 0 r p xy = xy"
| "terminal_cell (Suc n) r p xy =
     (let k = child_of r p
      in terminal_cell n (child_rect r k) p (fst xy * 2 + int (k mod 2), snd xy * 2 + int (k div 2)))"

definition terminal_code :: "nat \<Rightarrow> Rect \<Rightarrow> Vec3d \<Rightarrow> u64" where
  "terminal_code maxDepth rootBounds p =
     (case terminal_cell maxDepth rootBounds p (0, 0) of (x, y) \<Rightarrow> EncodeMortonPrefix x y maxDepth)"

definition count_code :: "u64 \<Rightarrow> (u64 \<times> nat) list \<Rightarrow> (u64 \<times> nat) list" where
  "count_code c counts = upsert c (\<lambda>v. (case v of None \<Rightarrow> 0 | Some n \<Rightarrow> n) + 1) counts"

definition count_positions :: "nat \<Rightarrow> Rect \<Rightarrow> Vec3d list \<Rightarrow> (u64 \<times> nat) list \<Rightarrow> (u64 \<times> nat) list" where
  "count_positions maxDepth rootBounds ps counts =
     foldl (\<lambda>counts p. count_code (terminal_code maxDepth rootBounds p) counts) counts ps"

fun second_pass :: "nat \<Rightarrow> Rect \<Rightarrow> StreamRead list \<Rightarrow> (u64 \<times> nat) list \<Rightarrow> nat
    \<Rightarrow> Diagnostic + ((u64 \<times> nat) list \<times> nat)" where
  "second_pass maxDepth rootBounds [] counts n = Inr (counts, n)"
| "second_pass maxDepth rootBounds (rd # rds) counts n =
     (if read_bad rd then Inl (read_failure rd)
      else if u64_max - length (positions (read_data rd)) < n then Inl count_overflow
      else second_pass maxDepth rootBounds rds (count_positions maxDepth rootBounds (positions (read_data rd)) counts)
             (n + length (positions (read_data rd))))"

section \<open>The recursion over counted ranges\<close>

definition prefix_counts :: "nat list \<Rightarrow> nat list" where
  "prefix_counts ns = foldl (\<lambda>totals n. totals @ [last totals + n]) [0] ns"

definition countFor :: "(u64 \<times> nat) list \<Rightarrow> int \<Rightarrow> PointTileId \<Rightarrow> nat" where
  "countFor counts maxDepth t =
     (let terminalCodes = map fst counts; totals = prefix_counts (map snd counts);
          remaining = nat (maxDepth - level t);
          prefix = EncodeMortonPrefix (tx t) (ty t) (nat (level t));
          firstCode = push_bit (remaining * 2) prefix;
          lastCode = push_bit (remaining * 2) (prefix + 1)
      in totals ! lower_bound_index (\<lambda>c. c < lastCode) terminalCodes -
         totals ! lower_bound_index (\<lambda>c. c < firstCode) terminalCodes)"

function visit_counts :: "PointBudgetConfig \<Rightarrow> (PointTileId \<Rightarrow> nat) \<Rightarrow> PointTileId \<Rightarrow> Rect
    \<Rightarrow> PointBudgetPlan \<times> bool \<Rightarrow> PointBudgetPlan \<times> bool" where
  "visit_counts cfg cf t r s =
     (let plan = reach_depth (level t) (fst s) in
      if \<not> can_split cfg (cf t) (level t) r
      then (recordLeaf (cf t) r t plan, snd s \<and> cf t \<le> budget_maxPoints cfg)
      else if refuse_split cfg (map (\<lambda>k. cf (child_id t k)) [0, 1, 2, 3])
      then (recordLeaf (cf t) r t plan, False)
      else foldl (\<lambda>s k. if cf (child_id t k) = 0 then s
             else visit_counts cfg cf (child_id t k) (child_rect r k) s)
           (count_split plan, snd s) [0, 1, 2, 3])"
  by pat_completeness auto
termination
  by (relation "measure (\<lambda>(cfg, cf, t, r, s). nat (budget_maxDepth cfg - level t))")
    (auto simp: can_split_def child_id_def tile_id_def)

declare visit_counts.simps [simp del]

text \<open>
  \<open>factory\<close> is \<open>None\<close> for an empty \<^verbatim>\<open>std::function\<close>; otherwise the two streams it opens, \<open>None\<close> for a
  null pointer.
\<close>

definition BuildPointBudgetPlan_stream ::
  "(StreamRead list option \<times> StreamRead list option) option \<Rightarrow> PointBudgetConfig
   \<Rightarrow> bool \<times> PointBudgetPlan \<times> Diagnostic list" where
  "BuildPointBudgetPlan_stream factory cfg =
     (case ValidatePointBudgetConfig cfg of (valid, ds) \<Rightarrow>
      if \<not> valid then (False, empty_plan, ds)
      else case factory of
        None \<Rightarrow> (False, empty_plan, ds @ [error_diag SourceOpenFailed
                  ''point-budget planning requires a stream factory''])
      | Some (None, second) \<Rightarrow> (False, empty_plan, ds @ [error_diag SourceOpenFailed
                  ''unable to open point stream for budget planning''])
      | Some (Some rds, second) \<Rightarrow>
        (case first_pass rds None 0 of
           Inl d \<Rightarrow> (False, empty_plan, ds @ [d])
         | Inr (None, n) \<Rightarrow> (True, empty_plan, ds)
         | Inr (Some rootBounds, n) \<Rightarrow>
           (case second of
              None \<Rightarrow> (False, empty_plan, ds @ [error_diag SourceOpenFailed
                  ''unable to reopen point stream for budget planning''])
            | Some rds2 \<Rightarrow>
              (case second_pass (nat (budget_maxDepth cfg)) rootBounds rds2 [] 0 of
                 Inl d \<Rightarrow> (False, empty_plan, ds @ [d])
               | Inr (counts, n2) \<Rightarrow>
                 if n2 \<noteq> n
                 then (False, empty_plan, ds @ [error_diag DecodeFailure
                        ''point stream changed between budget planning passes''])
                 else (case finish_plan (visit_counts cfg (countFor counts (budget_maxDepth cfg)) root_id rootBounds
                              (empty_plan\<lparr>plan_pointCount := n\<rparr>, True)) of
                         (ok, plan, reports) \<Rightarrow> (ok, plan, ds @ reports))))))"

section \<open>Morton codes of paths\<close>

primrec full_path :: "nat \<Rightarrow> Rect \<Rightarrow> Vec3d \<Rightarrow> nat list" where
  "full_path 0 r p = []"
| "full_path (Suc n) r p = child_of r p # full_path n (child_rect r (child_of r p)) p"

definition path_code :: "nat list \<Rightarrow> nat" where
  "path_code = foldl (\<lambda>a k. 4 * a + k) 0"

lemma length_full_path [simp]: "length (full_path n r p) = n"
  by (induction n arbitrary: r) auto

lemma full_path_less: "list_all (\<lambda>k. k < 4) (full_path n r p)"
  by (induction n arbitrary: r) (auto simp: child_of_less)

lemma in_node_full_path:
  "length ks \<le> n \<Longrightarrow> in_node r ks p \<longleftrightarrow> take (length ks) (full_path n r p) = ks"
proof (induction ks arbitrary: r n)
  case (Cons k ks)
  then show ?case by (cases n) auto
qed simp

lemma path_code_snoc [simp]: "path_code (ks @ [k]) = 4 * path_code ks + k"
  by (simp add: path_code_def)

lemma path_code_Nil [simp]: "path_code [] = 0"
  by (simp add: path_code_def)

lemma path_code_less: "list_all (\<lambda>k. k < 4) ks \<Longrightarrow> path_code ks < 4 ^ length ks"
  by (induction ks rule: rev_induct) auto

lemma path_code_append: "path_code (ks @ ls) = path_code ks * 4 ^ length ls + path_code ls"
proof (induction ls rule: rev_induct)
  case (snoc l ls)
  have "path_code (ks @ ls @ [l]) = 4 * path_code (ks @ ls) + l"
    using path_code_snoc [of "ks @ ls" l] by simp
  then show ?case using snoc by (simp add: algebra_simps)
qed simp

lemma path_code_inj:
  "path_code ks = path_code ls \<Longrightarrow> length ks = length ls \<Longrightarrow> list_all (\<lambda>k. k < 4) ks \<Longrightarrow>
   list_all (\<lambda>k. k < 4) ls \<Longrightarrow> ks = ls"
proof (induction ks arbitrary: ls rule: rev_induct)
  case (snoc k ks)
  then obtain ls' l where ls: "ls = ls' @ [l]" by (cases ls rule: rev_cases) auto
  have "k < 4" "l < 4" using snoc.prems(3,4) ls by auto
  moreover have "4 * path_code ks + k = 4 * path_code ls' + l" using snoc.prems(1) ls by simp
  ultimately have "path_code ks = path_code ls' \<and> k = l" by presburger
  then show ?case using snoc ls by auto
qed simp

lemma div_interval: "0 < (m :: nat) \<Longrightarrow> x div m = a \<longleftrightarrow> a * m \<le> x \<and> x < (a + 1) * m"
  using dividend_less_times_div [of m x] times_div_less_eq_dividend [of m x]
  by (auto simp: mult.commute intro: div_nat_eqI)

text \<open>The codes with a given prefix are the codes of one interval.\<close>

lemma path_code_prefix:
  assumes "list_all (\<lambda>k. k < 4) fs" "list_all (\<lambda>k. k < 4) ks" "length ks \<le> length fs"
  shows "take (length ks) fs = ks \<longleftrightarrow>
    path_code ks * 4 ^ (length fs - length ks) \<le> path_code fs \<and>
    path_code fs < (path_code ks + 1) * 4 ^ (length fs - length ks)"
proof -
  let ?a = "take (length ks) fs" and ?b = "drop (length ks) fs"
  have b: "path_code ?b < 4 ^ (length fs - length ks)"
    using path_code_less [of ?b] assms(1) by (simp add: list_all_iff) (meson in_set_dropD)
  have fs: "path_code fs = path_code ?a * 4 ^ (length fs - length ks) + path_code ?b"
    using path_code_append [of ?a ?b] by simp
  have eq: "?a = ks \<longleftrightarrow> path_code ?a = path_code ks"
    using path_code_inj [of ?a ks] assms by (auto simp: list_all_iff dest: in_set_takeD)
  have "path_code ?a = path_code fs div 4 ^ (length fs - length ks)"
    unfolding fs using b by simp
  then show ?thesis
    using div_interval [of "4 ^ (length fs - length ks)" "path_code fs" "path_code ks"]
    unfolding eq by auto
qed

section \<open>Morton codes are the codes of paths\<close>

lemma EncodeMortonPrefix_0 [simp]: "EncodeMortonPrefix x y 0 = 0"
  by (simp add: EncodeMortonPrefix_def)

lemma rev_upt_Suc_map: "rev [0..<Suc d] = map Suc (rev [0..<d]) @ [0]"
  by (simp add: rev_map [symmetric] map_Suc_upt upt_conv_Cons del: upt_Suc)

lemma EncodeMortonPrefix_Suc:
  "EncodeMortonPrefix x y (Suc d) =
     push_bit 2 (EncodeMortonPrefix (x div 2) (y div 2) d) OR of_bool (odd x) OR push_bit 1 (of_bool (odd y))"
  unfolding EncodeMortonPrefix_def rev_upt_Suc_map foldl_append foldl_map
  by (simp add: bit_Suc bit_0)

lemma morton_step_add:
  fixes w :: u64
  shows "push_bit 2 w OR of_bool p OR push_bit 1 (of_bool q) = w * 4 + of_bool p + of_bool q * 2"
proof -
  have "push_bit 2 w AND of_bool p = 0"
    by (rule bit_eqI) (auto simp: bit_simps)
  then have a: "push_bit 2 w OR of_bool p = push_bit 2 w + of_bool p"
    by (simp add: disjunctive_add_eq_or)
  have "(push_bit 2 w OR of_bool p) AND push_bit 1 (of_bool q) = 0"
    by (rule bit_eqI) (auto simp: bit_simps)
  then have "push_bit 2 w OR of_bool p OR push_bit 1 (of_bool q) =
      (push_bit 2 w OR of_bool p) + push_bit 1 (of_bool q)"
    by (simp add: disjunctive_add_eq_or or.assoc)
  then have "push_bit 2 w OR of_bool p OR push_bit 1 (of_bool q) =
      push_bit 2 w + of_bool p + push_bit 1 (of_bool q)"
    unfolding a .
  then show ?thesis by (simp only: push_bit_eq_mult) simp
qed

lemma tx_child_div:
  "k < 4 \<Longrightarrow> tx (child_id t k) div 2 = tx t \<and> ty (child_id t k) div 2 = ty t \<and>
   odd (tx (child_id t k)) = odd k \<and> odd (ty (child_id t k)) = odd (k div 2)"
proof -
  assume "k < 4"
  then consider "k = 0" | "k = 1" | "k = 2" | "k = 3" by linarith
  then show ?thesis by cases (auto simp: child_id_def tile_id_def)
qed

lemma of_bool_bits: "k < 4 \<Longrightarrow> (of_bool (odd k) + of_bool (odd (k div 2)) * 2 :: u64) = of_nat k"
proof -
  assume "k < 4"
  then consider "k = 0" | "k = 1" | "k = 2" | "k = 3" by linarith
  then show ?thesis by cases auto
qed

lemma Encode_id_at:
  "list_all (\<lambda>k. k < 4) ks \<Longrightarrow>
   EncodeMortonPrefix (tx (id_at root_id ks)) (ty (id_at root_id ks)) (length ks) = of_nat (path_code ks)"
proof (induction ks rule: rev_induct)
  case (snoc k ks)
  then have k: "k < 4" by simp
  let ?t = "child_id (id_at root_id ks) k"
  have "EncodeMortonPrefix (tx ?t) (ty ?t) (Suc (length ks)) =
      of_nat (path_code ks) * 4 + of_bool (odd k) + of_bool (odd (k div 2)) * 2"
    using snoc tx_child_div [OF k, of "id_at root_id ks"]
    by (simp only: EncodeMortonPrefix_Suc morton_step_add) simp
  then show ?case using of_bool_bits [OF k] by (simp only: add.assoc id_at_snoc) (simp add: mult.commute)
qed simp

lemma terminal_cell_path:
  "terminal_cell n r p (tx t, ty t) = (tx (id_at t (full_path n r p)), ty (id_at t (full_path n r p)))"
proof (induction n arbitrary: r t)
  case (Suc n)
  let ?k = "child_of r p"
  have "terminal_cell (Suc n) r p (tx t, ty t) =
      terminal_cell n (child_rect r ?k) p (tx (child_id t ?k), ty (child_id t ?k))"
    by (simp add: Let_def child_id_def tile_id_def)
  then show ?case using Suc by simp
qed simp

lemma terminal_code_path: "terminal_code n r p = of_nat (path_code (full_path n r p))"
proof -
  have "terminal_cell n r p (0, 0) = terminal_cell n r p (tx root_id, ty root_id)"
    by (simp add: root_id_def tile_id_def)
  then show ?thesis
    using Encode_id_at [OF full_path_less, of n r p] by (simp add: terminal_code_def terminal_cell_path)
qed

section \<open>Counting codes in an interval\<close>

definition sum_below :: "u64 \<Rightarrow> (u64 \<times> nat) list \<Rightarrow> nat" where
  "sum_below v counts = sum_list (map snd (filter (\<lambda>kv. fst kv < v) counts))"

lemma sum_below_count_code:
  "sum_below v (count_code c counts) = sum_below v counts + (if c < v then 1 else 0)"
  unfolding count_code_def sum_below_def
  by (induction counts) auto

lemma sum_below_count_positions:
  "sum_below v (count_positions n r ps counts) =
     sum_below v counts + length (filter (\<lambda>p. terminal_code n r p < v) ps)"
  unfolding count_positions_def by (induction ps arbitrary: counts) (auto simp: sum_below_count_code)

lemma key_sorted_count_positions: "key_sorted counts \<Longrightarrow> key_sorted (count_positions n r ps counts)"
  unfolding count_positions_def by (induction ps arbitrary: counts) (auto simp: count_code_def)

lemma prefix_counts_nth:
  "length (prefix_counts ns) = Suc (length ns) \<and> last (prefix_counts ns) = sum_list ns \<and>
   (\<forall>i \<le> length ns. prefix_counts ns ! i = sum_list (take i ns))"
proof (induction ns rule: rev_induct)
  case (snoc n ns)
  have "prefix_counts (ns @ [n]) = prefix_counts ns @ [last (prefix_counts ns) + n]"
    by (simp add: prefix_counts_def)
  then show ?case using snoc by (auto simp: nth_append le_Suc_eq not_less)
qed (simp add: prefix_counts_def)

lemma takeWhile_sorted_filter:
  "key_sorted counts \<Longrightarrow> takeWhile (\<lambda>kv. fst kv < (v :: u64)) counts = filter (\<lambda>kv. fst kv < v) counts"
proof (induction counts)
  case (Cons kv counts)
  obtain k n where kv: "kv = (k, n)" by (cases kv)
  have "\<not> fst x < v" if "\<not> k < v" "x \<in> set counts" for x
    using Cons.prems that kv by (auto simp: not_less)
  then show ?case using Cons kv by (auto simp: filter_empty_conv)
qed simp

lemma prefix_lower_bound:
  assumes "key_sorted counts"
  shows "prefix_counts (map snd counts) ! lower_bound_index (\<lambda>c. c < v) (map fst counts) = sum_below v counts"
proof -
  let ?i = "lower_bound_index (\<lambda>c. c < v) (map fst counts)"
  have i: "?i = length (takeWhile (\<lambda>kv. fst kv < v) counts)"
    by (simp add: lower_bound_index_def takeWhile_map o_def)
  then have "?i \<le> length counts" by (simp add: length_takeWhile_le)
  then have "prefix_counts (map snd counts) ! ?i = sum_list (map snd (take ?i counts))"
    using prefix_counts_nth [of "map snd counts"] by (simp add: take_map)
  also have "take ?i counts = takeWhile (\<lambda>kv. fst kv < v) counts"
    by (simp only: i takeWhile_eq_take [symmetric])
  finally show ?thesis
    by (simp add: takeWhile_sorted_filter [OF assms] sum_below_def)
qed


section \<open>Counted ranges are counts of nodes\<close>

lemma small_code:
  assumes "(n :: nat) \<le> 4 ^ d" "d \<le> 31"
  shows "unat (of_nat n :: u64) = n"
proof -
  have "(4 :: nat) ^ d \<le> 4 ^ 31" using assms(2) by (intro power_increasing) auto
  also have "\<dots> < 2 ^ 64" by simp
  finally have "n < 2 ^ 64" using assms(1) by simp
  then show ?thesis by (simp add: unat_of_nat)
qed

lemma less_code:
  assumes "(m :: nat) \<le> 4 ^ d" "n \<le> 4 ^ d" "d \<le> 31"
  shows "(of_nat m :: u64) < of_nat n \<longleftrightarrow> m < n"
  by (simp add: word_less_nat_alt small_code [OF assms(1,3)] small_code [OF assms(2,3)])

lemma shift_code: "push_bit (r * 2) (of_nat n :: u64) = of_nat (n * 4 ^ r)"
proof -
  have "(2 :: u64) ^ (r * 2) = of_nat (4 ^ r)" by (simp add: mult.commute [of r] power_mult)
  then show ?thesis by (simp add: push_bit_eq_mult)
qed

lemma sum_below_codes:
  assumes "v \<le> 4 ^ d" "d \<le> 31"
  shows "sum_below (of_nat v) (count_positions d r ps []) =
    length (filter (\<lambda>p. path_code (full_path d r p) < v) ps)"
proof -
  have "path_code (full_path d r p) \<le> 4 ^ d" for p
    using path_code_less [OF full_path_less, of d r p] by simp
  then have "terminal_code d r p < of_nat v \<longleftrightarrow> path_code (full_path d r p) < v" for p
    unfolding terminal_code_path using assms by (intro less_code) auto
  then show ?thesis by (simp add: sum_below_count_positions) (simp add: sum_below_def)
qed

lemma length_filter_diff:
  "(\<And>x. P x \<Longrightarrow> Q x) \<Longrightarrow>
   length (filter Q xs) - length (filter P xs) = length (filter (\<lambda>x. Q x \<and> \<not> P x) xs)"
proof (induction xs)
  case (Cons x xs)
  have "length (filter P xs) \<le> length (filter Q xs)"
    using Cons.prems by (induction xs) auto
  then show ?case using Cons by auto
qed simp

lemma countFor_node:
  assumes "0 \<le> maxDepth" "maxDepth \<le> 31" "int (length ks) \<le> maxDepth" "list_all (\<lambda>k. k < 4) ks"
  shows "countFor (count_positions (nat maxDepth) r ps []) maxDepth (id_at root_id ks) =
    length (filter (in_node r ks) ps)"
proof -
  let ?d = "nat maxDepth" and ?n = "length ks"
  let ?m = "?d - ?n" and ?c = "path_code ks"
  have d: "?d \<le> 31" "?n \<le> ?d" using assms by auto
  have "(?c + 1) * 4 ^ ?m \<le> 4 ^ ?n * 4 ^ ?m"
    using path_code_less [OF assms(4)] by (intro mult_le_mono) auto
  also have "\<dots> = 4 ^ ?d" using d by (simp add: power_add [symmetric])
  finally have b: "(?c + 1) * 4 ^ ?m \<le> 4 ^ ?d" .
  have level: "level (id_at root_id ks) = int ?n" by (simp add: root_id_def tile_id_def)
  have rem: "nat (maxDepth - int ?n) = ?m" using assms by simp
  have last: "of_nat ?c + 1 = (of_nat (?c + 1) :: u64)" by simp
  have key: "key_sorted (count_positions ?d r ps [])" by (simp add: key_sorted_count_positions)
  have "countFor (count_positions ?d r ps []) maxDepth (id_at root_id ks) =
      length (filter (\<lambda>p. path_code (full_path ?d r p) < (?c + 1) * 4 ^ ?m) ps) -
      length (filter (\<lambda>p. path_code (full_path ?d r p) < ?c * 4 ^ ?m) ps)"
    unfolding countFor_def Let_def level rem nat_int Encode_id_at [OF assms(4)] last shift_code
      prefix_lower_bound [OF key]
    using b d by (subst (1 2) sum_below_codes) auto
  also have "\<dots> = length (filter (\<lambda>p. path_code (full_path ?d r p) < (?c + 1) * 4 ^ ?m \<and>
      \<not> path_code (full_path ?d r p) < ?c * 4 ^ ?m) ps)"
    by (rule length_filter_diff) simp
  also have "\<dots> = length (filter (in_node r ks) ps)"
    using path_code_prefix [OF full_path_less assms(4), of ?d r] d
    by (intro arg_cong [where f = length] filter_cong)
      (auto simp: in_node_full_path [OF d(2)] not_less)
  finally show ?thesis .
qed

section \<open>The two recursions agree\<close>

lemma filter_child: "filter (\<lambda>p. child_of (rect_at r ks) p = k) (filter (in_node r ks) ps) =
   filter (in_node r (ks @ [k])) ps"
  unfolding filter_filter by (rule filter_cong) (auto simp: in_node_snoc)

lemma map_children_of: "map length (children_of r ps) = map (\<lambda>k. length (filter (\<lambda>p. child_of r p = k) ps)) [0, 1, 2, 3]"
  by (simp add: children_of_def)

lemma level_root_id [simp]: "level root_id = 0"
  by (simp add: root_id_def tile_id_def)

lemma visit_counts_visit:
  assumes cf: "\<And>ks. int (length ks) \<le> budget_maxDepth cfg \<Longrightarrow> list_all (\<lambda>k. k < 4) ks \<Longrightarrow>
      cf (id_at root_id ks) = length (filter (in_node r ks) ps)"
  shows "int (length ks) \<le> budget_maxDepth cfg \<Longrightarrow> list_all (\<lambda>k. k < 4) ks \<Longrightarrow>
    visit_counts cfg cf (id_at root_id ks) (rect_at r ks) s =
    visit cfg (filter (in_node r ks) ps) (int (length ks)) (id_at root_id ks) (rect_at r ks) s"
proof (induction "nat (budget_maxDepth cfg - int (length ks))" arbitrary: ks s rule: less_induct)
  case less
  let ?t = "id_at root_id ks" and ?r = "rect_at r ks" and ?ps = "filter (in_node r ks) ps"
  have level: "level ?t = int (length ks)" by simp
  have here: "cf ?t = length ?ps" using cf less.prems by simp
  show ?case
  proof (cases "can_split cfg (length ?ps) (int (length ks)) ?r")
    case False
    then show ?thesis by (subst visit_counts.simps) (subst visit.simps, simp add: Let_def level here)
  next
    case True
    then have deeper: "int (length (ks @ [k])) \<le> budget_maxDepth cfg" for k
      by (simp add: can_split_def)
    have child: "cf (child_id ?t k) = length (filter (\<lambda>p. child_of ?r p = k) ?ps)" if "k < 4" for k
      using cf [OF deeper, of k] less.prems(2) that unfolding filter_child by (simp add: id_at_snoc)
    have step: "visit_counts cfg cf (child_id ?t k) (child_rect ?r k) s =
        visit cfg (filter (\<lambda>p. child_of ?r p = k) ?ps) (int (length ks) + 1) (child_id ?t k) (child_rect ?r k) s"
      if "k < 4" for k s
    proof -
      have "nat (budget_maxDepth cfg - int (length (ks @ [k]))) < nat (budget_maxDepth cfg - int (length ks))"
        using deeper [of k] by simp
      from less.hyps [OF this deeper, of s] less.prems(2) that show ?thesis
        unfolding filter_child by (simp add: id_at_snoc rect_at_snoc algebra_simps)
    qed
    show ?thesis
      by (subst visit_counts.simps, subst visit.simps)
        (simp add: Let_def level here child step map_children_of del: filter_filter)
  qed
qed

section \<open>The streaming planner computes the plan in memory\<close>

definition delivers :: "StreamRead list \<Rightarrow> Vec3d list \<Rightarrow> bool" where
  "delivers rds ps \<longleftrightarrow> list_all (\<lambda>rd. \<not> read_bad rd) rds \<and> concat (map (\<lambda>rd. positions (read_data rd)) rds) = ps"

definition bounds_from :: "Rect option \<Rightarrow> Vec3d list \<Rightarrow> Rect option" where
  "bounds_from b ps = foldl (\<lambda>b p. Some (case b of None \<Rightarrow> point_rect p | Some r \<Rightarrow> expand_rect r p)) b ps"

lemma scan_bounds_finite: "list_all horizontal_finite ps \<Longrightarrow> scan_bounds ps b = Inr (bounds_from b ps)"
  by (induction ps arbitrary: b) (auto simp: horizontal_finite_def bounds_from_def)

lemma first_pass_delivers:
  "list_all (\<lambda>rd. \<not> read_bad rd) rds \<Longrightarrow> ps = concat (map (\<lambda>rd. positions (read_data rd)) rds) \<Longrightarrow>
   list_all horizontal_finite ps \<Longrightarrow> n + length ps \<le> u64_max \<Longrightarrow>
   first_pass rds b n = Inr (bounds_from b ps, n + length ps)"
proof (induction rds arbitrary: b n ps)
  case (Cons rd rds)
  then have "\<not> u64_max - length (positions (read_data rd)) < n" by simp
  with Cons show ?case by (simp add: scan_bounds_finite) (simp add: bounds_from_def)
qed (simp add: bounds_from_def)

lemma second_pass_delivers:
  "list_all (\<lambda>rd. \<not> read_bad rd) rds \<Longrightarrow> ps = concat (map (\<lambda>rd. positions (read_data rd)) rds) \<Longrightarrow>
   n + length ps \<le> u64_max \<Longrightarrow>
   second_pass d r rds counts n = Inr (count_positions d r ps counts, n + length ps)"
proof (induction rds arbitrary: counts n ps)
  case (Cons rd rds)
  then have "\<not> u64_max - length (positions (read_data rd)) < n" by simp
  with Cons show ?case by (simp) (simp add: count_positions_def)
qed (simp add: count_positions_def)

lemma expand_point_rect [simp]: "expand_rect (point_rect p) p = point_rect p"
  by (simp add: expand_rect_def point_rect_def rect_def fmin_def fmax_def)

lemma bounds_from_makeBounds: "ps \<noteq> [] \<Longrightarrow> bounds_from None ps = Some (makeBounds ps)"
proof -
  have "bounds_from (Some r) qs = Some (foldl expand_rect r qs)" for r qs
    by (induction qs arbitrary: r) (auto simp: bounds_from_def)
  then show "ps \<noteq> [] \<Longrightarrow> ?thesis"
    by (cases ps) (auto simp: makeBounds_def bounds_from_def)
qed

text \<open>
  Claim C1: When both streams deliver the same finite points in chunks of any sizes, the
  streaming planner, which keeps only the counts of the terminal Morton cells, returns exactly
  what the planner over the points in memory returns: verdict, plan and diagnostics.  No shift
  or sum of the codes wraps around up to the largest configurable depth.
\<close>

theorem streaming_plan_equals_memory_plan:
  assumes "delivers rds1 ps" "delivers rds2 ps" "list_all horizontal_finite ps" "length ps \<le> u64_max"
  shows "BuildPointBudgetPlan_stream (Some (Some rds1, Some rds2)) cfg = BuildPointBudgetPlan ps cfg"
proof (cases "PointBudgetConfig_IsValid cfg \<and> ps \<noteq> []")
  case True
  let ?d = "budget_maxDepth cfg" and ?r = "makeBounds ps"
  have d: "0 \<le> ?d" "?d \<le> 31"
    using True by (auto simp: PointBudgetConfig_IsValid_def kMaxPointBudgetDepth_def)
  have one: "first_pass rds1 None 0 = Inr (Some ?r, length ps)"
    using first_pass_delivers [of rds1 ps 0 None] assms True
    by (auto simp: delivers_def bounds_from_makeBounds)
  have two: "second_pass (nat ?d) ?r rds2 [] 0 = Inr (count_positions (nat ?d) ?r ps [], length ps)"
    using second_pass_delivers [of rds2 ps 0] assms by (auto simp: delivers_def)
  have "visit_counts cfg (countFor (count_positions (nat ?d) ?r ps []) ?d) root_id ?r s =
      visit cfg ps 0 root_id ?r s" for s
    using visit_counts_visit [of cfg _ ?r ps "[]" s, OF countFor_node [OF d]] d by simp
  then show ?thesis
    using True assms(3)
    by (simp add: BuildPointBudgetPlan_stream_def BuildPointBudgetPlan_def one two
        ValidatePointBudgetConfig_valid split: prod.splits)
next
  case False
  have "first_pass rds1 None 0 = Inr (bounds_from None ps, length ps)"
    using first_pass_delivers [of rds1 ps 0 None] assms by (auto simp: delivers_def)
  then show ?thesis
    using False
    by (auto simp: BuildPointBudgetPlan_stream_def BuildPointBudgetPlan_def bounds_from_def
        ValidatePointBudgetConfig_def PointBudgetConfig_IsValid_def report_if_def split: prod.splits)
qed

definition read_of :: "Vec3d list \<Rightarrow> StreamRead" where
  "read_of ps = ReadChunk \<lparr>chunk_pointCount = length ps, chunk_bounds = sample_bounds,
     chunk_attributes = [attribute ''positions'' Float64Vec3]\<rparr> (empty_data\<lparr>positions := ps\<rparr>) default_diagnostic"

definition sample_reads :: "nat \<Rightarrow> StreamRead list" where
  "sample_reads k = [read_of (take k sample_points), read_of (drop k sample_points)]"

lemma sample_reads_deliver: "delivers (sample_reads 1) sample_points" "delivers (sample_reads 2) sample_points"
  by code_simp+

theorem streaming_plan_equals_memory_plan_witness:
  "BuildPointBudgetPlan_stream (Some (Some (sample_reads 1), Some (sample_reads 2))) sample_budget =
   BuildPointBudgetPlan sample_points sample_budget"
  using streaming_plan_equals_memory_plan
    [OF sample_reads_deliver sample_points_finite(2), of sample_budget]
  by (simp add: sample_points_def)

end
