(* ===== verification/Tile_Plan.thy ===== *)
theory Tile_Plan
  imports Budget_Router
begin

text \<open>
  Tile plans (\<^verbatim>\<open>Tiling.h\<close>, \<^verbatim>\<open>Tiling.cpp\<close>): the node tree built from a budget plan, its validator
  with the depth-first search over visit states, the cache arguments and the stable key, and the
  router made from a tile plan.  The main theorem says which plans the validator accepts: the
  node lists that are one tree.  The search runs on fuel; one unit per node and one more are enough.
\<close>

section \<open>Nodes and plans\<close>

record TilePlanSourceRange =
  range_offset :: nat
  range_length :: nat

record TilePlanNode =
  node_id :: PointTileId
  node_bounds :: SpatialBounds
  node_pointCount :: nat
  node_parent :: PointTileId
  node_children :: "PointTileId list"
  sourceRanges :: "TilePlanSourceRange list"
  isLeaf :: bool

record TilePlan =
  plannerId :: string
  plannerVersion :: nat
  nodes :: "TilePlanNode list"

definition empty_tile_plan :: TilePlan where
  "empty_tile_plan = \<lparr>plannerId = [], plannerVersion = 0, nodes = []\<rparr>"

definition TilePlanSourceRange_IsValid :: "TilePlanSourceRange \<Rightarrow> bool" where
  "TilePlanSourceRange_IsValid r \<longleftrightarrow> 0 < range_length r \<and> range_offset r \<le> u64_max - range_length r"

definition TilePlanNode_IsValid :: "TilePlanNode \<Rightarrow> bool" where
  "TilePlanNode_IsValid n \<longleftrightarrow>
     (if \<not> TileId_IsValid (node_id n) \<or> \<not> SpatialBounds_IsValid (node_bounds n) \<or> node_pointCount n = 0
      then False
      else if isLeaf n \<and> node_children n \<noteq> [] then False
      else list_all TilePlanSourceRange_IsValid (sourceRanges n))"

definition TilePlan_IsValid :: "TilePlan \<Rightarrow> bool" where
  "TilePlan_IsValid p \<longleftrightarrow>
     plannerId p \<noteq> [] \<and> 0 < plannerVersion p \<and> list_all TilePlanNode_IsValid (nodes p)"

section \<open>The validator\<close>

definition find_node :: "TilePlanNode list \<Rightarrow> PointTileId \<Rightarrow> nat" where
  "find_node ns t = length (takeWhile (\<lambda>n. \<not> TileIdEqual (node_id n) t) ns)"

fun first_some :: "'a option list \<Rightarrow> 'a option" where
  "first_some [] = None"
| "first_some (None # xs) = first_some xs"
| "first_some (Some x # xs) = Some x"

definition parent_error :: "TilePlanNode list \<Rightarrow> TilePlanNode \<Rightarrow> string option" where
  "parent_error ns n =
     (let p = node_parent n in
      if level p = - 1 then
        (if tx p \<noteq> 0 \<or> ty p \<noteq> 0 \<or> tz p \<noteq> 0 then Some ''tile plan root has an invalid parent sentinel''
         else None)
      else if level p < - 1 then Some ''tile plan node has an invalid parent level''
      else if level (node_id n) - level p \<noteq> 1
      then Some ''tile plan parent and child levels are not adjacent''
      else if find_node ns p = length ns \<or>
              \<not> list_ex (\<lambda>c. TileIdEqual c (node_id n)) (node_children (ns ! find_node ns p))
      then Some ''tile plan node has an inconsistent parent relationship''
      else None)"

definition child_error :: "TilePlanNode list \<Rightarrow> TilePlanNode \<Rightarrow> nat \<Rightarrow> string option" where
  "child_error ns n i =
     (let c = node_children n ! i in
      if list_ex (\<lambda>j. TileIdEqual (node_children n ! j) c) [0..<i]
      then Some ''tile plan contains duplicate child identities''
      else if find_node ns c = length ns \<or> level c - level (node_id n) \<noteq> 1 \<or>
              \<not> TileIdEqual (node_parent (ns ! find_node ns c)) (node_id n)
      then Some ''tile plan node has an inconsistent child relationship''
      else None)"

definition node_error :: "TilePlanNode list \<Rightarrow> nat \<Rightarrow> string option" where
  "node_error ns i =
     (let n = ns ! i in
      if list_ex (\<lambda>j. TileIdEqual (node_id (ns ! j)) (node_id n)) [0..<i]
      then Some ''tile plan contains duplicate node identities''
      else case parent_error ns n of
        Some e \<Rightarrow> Some e
      | None \<Rightarrow>
        (case first_some (map (child_error ns n) [0..<length (node_children n)]) of
           Some e \<Rightarrow> Some e
         | None \<Rightarrow> if \<not> isLeaf n \<and> node_children n = []
                   then Some ''tile plan contains an internal node without children'' else None))"

definition is_root_node :: "TilePlanNode \<Rightarrow> bool" where
  "is_root_node n \<longleftrightarrow> level (node_parent n) = - 1"

definition root_index :: "TilePlanNode list \<Rightarrow> nat" where
  "root_index ns = foldl (\<lambda>r i. if is_root_node (ns ! i) then i else r) 0 [0..<length ns]"

text \<open>
  The recursive search: the verdict, the states (0 unseen, 1 on the path, 2 done) and the
  diagnostic of a cycle; \<open>None\<close> when the fuel runs out.
\<close>

fun visit_node :: "TilePlanNode list \<Rightarrow> nat \<Rightarrow> nat \<Rightarrow> nat list \<Rightarrow> (bool \<times> nat list \<times> string option) option"
  and visit_children :: "TilePlanNode list \<Rightarrow> nat \<Rightarrow> PointTileId list \<Rightarrow> nat list
    \<Rightarrow> (bool \<times> nat list \<times> string option) option" where
  "visit_node ns 0 i st = None"
| "visit_node ns (Suc f) i st =
     (if st ! i = 1 then Some (False, st, Some ''tile plan contains a parent-child cycle'')
      else if st ! i = 2 then Some (True, st, None)
      else case visit_children ns f (node_children (ns ! i)) (st[i := 1]) of
        None \<Rightarrow> None
      | Some (True, st', e) \<Rightarrow> Some (True, st'[i := 2], e)
      | Some (False, st', e) \<Rightarrow> Some (False, st', e))"
| "visit_children ns f [] st = Some (True, st, None)"
| "visit_children ns f (c # cs) st =
     (if find_node ns c = length ns then Some (False, st, None)
      else case visit_node ns f (find_node ns c) st of
        None \<Rightarrow> None
      | Some (False, st', e) \<Rightarrow> Some (False, st', e)
      | Some (True, st', e) \<Rightarrow> visit_children ns f cs st')"

definition invalid_plan :: "string \<Rightarrow> bool \<times> Diagnostic list" where
  "invalid_plan msg = (False, [error_diag InvalidPointTile msg])"

definition search_tree :: "TilePlanNode list \<Rightarrow> (bool \<times> Diagnostic list) option" where
  "search_tree ns =
     (if ns = [] then Some (True, [])
      else case visit_node ns (Suc (length ns)) (root_index ns) (replicate (length ns) 0) of
        None \<Rightarrow> None
      | Some (False, st, e) \<Rightarrow> Some (False, case e of None \<Rightarrow> [] | Some msg \<Rightarrow> [error_diag InvalidPointTile msg])
      | Some (True, st, e) \<Rightarrow>
          if 0 \<in> set st then Some (invalid_plan ''tile plan contains a node disconnected from its root'')
          else Some (True, []))"

definition ValidateTilePlan :: "TilePlan \<Rightarrow> (bool \<times> Diagnostic list) option" where
  "ValidateTilePlan p =
     (if plannerId p = [] \<or> CHR 0x0A \<in> set (plannerId p) \<or> CHR 0x0D \<in> set (plannerId p)
      then Some (invalid_plan ''tile plan requires a non-empty single-line planner identity'')
      else if plannerVersion p = 0
      then Some (invalid_plan ''tile plan planner version must be greater than zero'')
      else if \<not> TilePlan_IsValid p
      then Some (invalid_plan ''tile plan contains an invalid node'')
      else case first_some (map (node_error (nodes p)) [0..<length (nodes p)]) of
        Some e \<Rightarrow> Some (invalid_plan e)
      | None \<Rightarrow>
        if nodes p \<noteq> [] \<and> length (filter is_root_node (nodes p)) \<noteq> 1
        then Some (invalid_plan ''tile plan must contain exactly one root node'')
        else search_tree (nodes p))"

section \<open>Building a plan\<close>

definition half_toward_zero :: "int \<Rightarrow> int" where
  "half_toward_zero x = (if x < 0 then - ((- x) div 2) else x div 2)"

fun ancestors_of :: "nat \<Rightarrow> PointTileId \<Rightarrow> PointTileId list" where
  "ancestors_of 0 t = [t]"
| "ancestors_of (Suc l) t = t # ancestors_of l (tile_id (int l) (half_toward_zero (tx t))
     (half_toward_zero (ty t)) (half_toward_zero (tz t)))"

definition path_to :: "PointTileId \<Rightarrow> PointTileId list" where
  "path_to t = rev (ancestors_of (nat (level t)) t)"

definition no_parent :: PointTileId where
  "no_parent = tile_id (- 1) 0 0 0"

type_synonym plan_state = "TilePlanNode list \<times> (string \<times> nat) list"

definition new_node :: "PointTileId \<Rightarrow> TilePlanNode" where
  "new_node t = \<lparr>node_id = t, node_bounds = SpatialBounds_Empty, node_pointCount = 0,
     node_parent = no_parent, node_children = [], sourceRanges = [], isLeaf = False\<rparr>"

definition addNode :: "PointTileId \<Rightarrow> plan_state \<Rightarrow> nat \<times> plan_state" where
  "addNode t s =
     (case map_of (snd s) (TileId_ToString t) of
        Some k \<Rightarrow> (k, s)
      | None \<Rightarrow> (length (fst s), fst s @ [new_node t],
                 emplace (TileId_ToString t) (length (fst s)) (snd s)))"

definition addChild :: "PointTileId \<Rightarrow> TilePlanNode \<Rightarrow> TilePlanNode" where
  "addChild c n = (if list_ex (\<lambda>v. TileIdEqual v c) (node_children n) then n
     else n\<lparr>node_children := node_children n @ [c]\<rparr>)"

definition update_at :: "nat \<Rightarrow> (TilePlanNode \<Rightarrow> TilePlanNode) \<Rightarrow> plan_state \<Rightarrow> plan_state" where
  "update_at k f s = ((fst s)[k := f (fst s ! k)], snd s)"

definition count_leaf :: "PointBudgetTile \<Rightarrow> TilePlanNode \<Rightarrow> TilePlanNode" where
  "count_leaf leaf n = n\<lparr>node_pointCount := (node_pointCount n + bt_count leaf) mod 2 ^ 64,
     node_bounds := SpatialBounds_Expand (SpatialBounds_Expand (node_bounds n)
       (vec (minX (bt_rect leaf)) (minY (bt_rect leaf)) fzero))
       (vec (maxX (bt_rect leaf)) (maxY (bt_rect leaf)) fzero)\<rparr>"

definition path_step :: "PointBudgetTile \<Rightarrow> PointTileId list \<Rightarrow> plan_state \<Rightarrow> nat \<Rightarrow> plan_state" where
  "path_step leaf path s index =
     (case addNode (path ! index) s of (k, s1) \<Rightarrow>
      (let s2 = update_at k (count_leaf leaf) s1 in
       if index = 0 then s2
       else case addNode (path ! (index - 1)) s2 of (j, s3) \<Rightarrow>
         update_at j (addChild (path ! index))
           (update_at k (node_parent_update (\<lambda>_. node_id (fst s3 ! j))) s3)))"

definition add_leaf :: "plan_state \<Rightarrow> PointBudgetTile \<Rightarrow> plan_state" where
  "add_leaf s leaf =
     (let path = path_to (bt_id leaf);
          s' = foldl (path_step leaf path) s [0..<length path]
      in case addNode (bt_id leaf) s' of (k, s'') \<Rightarrow> update_at k (isLeaf_update (\<lambda>_. True)) s'')"

fun add_leaves :: "PointBudgetTile list \<Rightarrow> plan_state \<Rightarrow> plan_state option" where
  "add_leaves [] s = Some s"
| "add_leaves (leaf # leaves) s =
     (if PointBudgetTile_IsValid leaf then add_leaves leaves (add_leaf s leaf) else None)"

definition node_before :: "TilePlanNode \<Rightarrow> TilePlanNode \<Rightarrow> bool" where
  "node_before l r = TileIdLess (node_id l) (node_id r)"

definition kAdaptivePointBudgetPlannerId :: string where
  "kAdaptivePointBudgetPlannerId = ''adaptive-point-budget''"

definition kAdaptivePointBudgetPlannerVersion :: nat where
  "kAdaptivePointBudgetPlannerVersion = 1"

definition BuildTilePlan :: "PointBudgetPlan \<Rightarrow> (bool \<times> TilePlan \<times> Diagnostic list) option" where
  "BuildTilePlan budgetPlan =
     (case add_leaves (tiles budgetPlan) ([], []) of
        None \<Rightarrow> Some (False, empty_tile_plan, [error_diag InvalidPointTile
          ''cannot build a tile plan from an invalid adaptive tile''])
      | Some s \<Rightarrow>
        (let plan = \<lparr>plannerId = kAdaptivePointBudgetPlannerId,
               plannerVersion = kAdaptivePointBudgetPlannerVersion, nodes = sort_by node_before (fst s)\<rparr>
         in case ValidateTilePlan plan of
              None \<Rightarrow> None
            | Some (True, ds) \<Rightarrow> Some (True, plan, ds)
            | Some (False, ds) \<Rightarrow> Some (False, empty_tile_plan, ds)))"

section \<open>The router of a tile plan\<close>

definition leaf_tile :: "TilePlanNode \<Rightarrow> PointBudgetTile" where
  "leaf_tile n = \<lparr>bt_id = node_id n,
     bt_rect = rect (vx (minimum (node_bounds n))) (vx (maximum (node_bounds n)))
       (vy (minimum (node_bounds n))) (vy (maximum (node_bounds n))),
     bt_count = node_pointCount n\<rparr>"

definition router_of_tile_plan :: "TilePlan \<Rightarrow> PointBudgetTileRouter" where
  "router_of_tile_plan p =
     router_of_tiles (map leaf_tile (filter (\<lambda>n. isLeaf n \<and> TilePlanNode_IsValid n) (nodes p)))"

interpretation node_before_order: comparator node_before
  by unfold_locales (auto simp: node_before_def tile_order.irrefl intro: tile_order.trans dest: tile_order.neg_trans)

section \<open>The search returns\<close>

lemma find_node_le: "find_node ns t \<le> length ns"
  by (simp add: find_node_def length_takeWhile_le)

lemma find_node_found:
  "find_node ns t < length ns \<longleftrightarrow> (\<exists>n \<in> set ns. node_id n = t)"
  "find_node ns t < length ns \<Longrightarrow> node_id (ns ! find_node ns t) = t"
proof -
  show "find_node ns t < length ns \<longleftrightarrow> (\<exists>n \<in> set ns. node_id n = t)"
    unfolding find_node_def by (induction ns) auto
  show "find_node ns t < length ns \<Longrightarrow> node_id (ns ! find_node ns t) = t"
    using nth_length_takeWhile [of "\<lambda>n. \<not> TileIdEqual (node_id n) t" ns] by (simp add: find_node_def)
qed

lemma find_node_nth:
  assumes "distinct (map node_id ns)" "i < length ns"
  shows "find_node ns (node_id (ns ! i)) = i"
proof -
  have l: "find_node ns (node_id (ns ! i)) < length ns" using assms(2) by (auto simp: find_node_found(1))
  from find_node_found(2) [OF l] assms l show ?thesis by (simp add: distinct_conv_nth) metis
qed

definition unseen :: "nat list \<Rightarrow> nat" where
  "unseen st = length (filter (\<lambda>x. x = 0) st)"

lemma unseen_update: "i < length st \<Longrightarrow> st ! i = 0 \<Longrightarrow> x \<noteq> 0 \<Longrightarrow> Suc (unseen (st[i := x])) = unseen st"
  unfolding unseen_def
proof (induction st arbitrary: i)
  case (Cons a st)
  then show ?case by (cases i) auto
qed simp

lemma unseen_mono:
  "length st' = length st \<Longrightarrow> \<forall>j < length st. st ! j \<noteq> 0 \<longrightarrow> st' ! j \<noteq> 0 \<Longrightarrow> unseen st' \<le> unseen st"
proof (induction st arbitrary: st')
  case (Cons a st)
  then obtain b st'' where st': "st' = b # st''" "length st'' = length st" by (cases st') auto
  have "unseen st'' \<le> unseen st" using Cons.prems(2) by (intro Cons.IH [OF st'(2)]) (auto simp: st')
  then show ?case using Cons.prems(2) by (auto simp: st' unseen_def)
qed (simp add: unseen_def)

definition keeps_seen :: "nat list \<Rightarrow> nat list \<Rightarrow> bool" where
  "keeps_seen st st' \<longleftrightarrow> length st' = length st \<and> set st' \<subseteq> set st \<union> {1, 2} \<and>
     (\<forall>j < length st. st ! j \<noteq> 0 \<longrightarrow> st' ! j \<noteq> 0)"

lemma keeps_seen_trans: "keeps_seen a b \<Longrightarrow> keeps_seen b c \<Longrightarrow> keeps_seen a c"
  by (auto simp: keeps_seen_def)

lemma keeps_seen_refl [simp]: "keeps_seen a a"
  by (auto simp: keeps_seen_def)

lemma keeps_seen_update [simp]: "x \<in> {1, 2} \<Longrightarrow> keeps_seen a (a[i := x])"
  using set_update_subset_insert [of a i x]
  by (cases "i < length a") (auto simp: keeps_seen_def nth_list_update list_update_beyond)

lemma keeps_seen_unseen: "keeps_seen a b \<Longrightarrow> unseen b \<le> unseen a"
  by (rule unseen_mono) (simp_all add: keeps_seen_def)

lemma visit_keeps_seen:
  "visit_node ns f i st = Some (ok, st', e) \<Longrightarrow> keeps_seen st st'"
  "visit_children ns f cs st = Some (ok, st', e) \<Longrightarrow> keeps_seen st st'"
proof (induction ns f i st and ns f cs st arbitrary: ok st' e and ok st' e rule: visit_node_visit_children.induct)
  case (2 ns f i st)
  show ?case
  proof (cases "st ! i = 1 \<or> st ! i = 2")
    case False
    then obtain b st1 e1 where v: "visit_children ns f (node_children (ns ! i)) (st[i := 1]) = Some (b, st1, e1)"
      and st': "st' = st1[i := 2] \<or> st' = st1"
      using "2.prems" by (auto split: option.splits prod.splits bool.splits)
    have "keeps_seen (st[i := 1]) st1" using "2.IH" [OF _ _ v] False by auto
    then have "keeps_seen st st1" by (rule keeps_seen_trans [rotated]) simp
    then show ?thesis using st' keeps_seen_trans [of st st1 st'] by auto
  qed (use 2 in auto)
next
  case (4 ns f c cs st)
  from "4.prems" obtain b st1 e1 where
    v: "find_node ns c = length ns \<and> st' = st \<or> visit_node ns f (find_node ns c) st = Some (b, st1, e1)"
    and w: "find_node ns c = length ns \<or> st' = st1 \<or> b \<and> visit_children ns f cs st1 = Some (ok, st', e)"
    by (auto split: option.splits prod.splits bool.splits if_splits)
  show ?case
  proof (cases "find_node ns c = length ns")
    case True
    then show ?thesis using "4.prems" by simp
  next
    case False
    then have one: "visit_node ns f (find_node ns c) st = Some (b, st1, e1)" using v by simp
    have "keeps_seen st st1" by (rule "4.IH"(1) [OF False one])
    moreover have "keeps_seen st1 st'" if "b" "visit_children ns f cs st1 = Some (ok, st', e)"
      using "4.IH"(2) [OF False one _ _ _ that(2)] that(1) by auto
    ultimately show ?thesis using w False keeps_seen_trans [of st st1 st'] by auto
  qed
qed auto

lemma visit_returns:
  "unseen st < f \<Longrightarrow> length st = length ns \<Longrightarrow> set st \<subseteq> {0, 1, 2} \<Longrightarrow> i < length ns \<Longrightarrow>
   visit_node ns f i st \<noteq> None"
  "unseen st < f \<Longrightarrow> length st = length ns \<Longrightarrow> set st \<subseteq> {0, 1, 2} \<Longrightarrow> visit_children ns f cs st \<noteq> None"
proof (induction ns f i st and ns f cs st rule: visit_node_visit_children.induct)
  case (2 ns f i st)
  have "visit_children ns f (node_children (ns ! i)) (st[i := 1]) \<noteq> None"
    if s: "st ! i \<noteq> 1" "st ! i \<noteq> 2"
  proof -
    have "st ! i \<in> {0, 1, 2}" using "2.prems"(2-4) by (metis nth_mem subsetD)
    then have "Suc (unseen (st[i := 1])) = unseen st" using s "2.prems"(2,4) by (simp add: unseen_update)
    moreover have "set (st[i := 1]) \<subseteq> {0, 1, 2}"
      using set_update_subset_insert [of st i 1] "2.prems"(3) by auto
    ultimately show ?thesis using "2.IH" [OF s] "2.prems" by simp
  qed
  then show ?case
    by (cases "st ! i = 1"; cases "st ! i = 2") (auto split: option.splits bool.splits simp del: One_nat_def)
next
  case (4 ns f c cs st)
  show ?case
  proof (cases "find_node ns c = length ns")
    case False
    then have "find_node ns c < length ns" using find_node_le [of ns c] by simp
    with "4.IH"(1) [OF False] "4.prems" have "visit_node ns f (find_node ns c) st \<noteq> None" by simp
    then obtain ok st1 e where one: "visit_node ns f (find_node ns c) st = Some (ok, st1, e)" by auto
    have k: "keeps_seen st st1" by (rule visit_keeps_seen(1) [OF one])
    then have "unseen st1 < f" "length st1 = length ns" "set st1 \<subseteq> {0, 1, 2}"
      using keeps_seen_unseen [OF k] "4.prems" by (auto simp: keeps_seen_def)
    then have "visit_children ns f cs st1 \<noteq> None" if ok
      using "4.IH"(2) [OF False one] that by auto
    then show ?thesis using False one by (auto split: bool.splits)
  qed simp
qed auto

section \<open>What the node checks establish\<close>

definition parent_ok :: "TilePlanNode list \<Rightarrow> TilePlanNode \<Rightarrow> bool" where
  "parent_ok ns n \<longleftrightarrow> node_parent n = no_parent \<or>
     (0 \<le> level (node_parent n) \<and> level (node_id n) = level (node_parent n) + 1 \<and>
      (\<exists>m \<in> set ns. node_id m = node_parent n \<and> node_id n \<in> set (node_children m)))"

definition children_ok :: "TilePlanNode list \<Rightarrow> TilePlanNode \<Rightarrow> bool" where
  "children_ok ns n \<longleftrightarrow> distinct (node_children n) \<and> (isLeaf n \<or> node_children n \<noteq> []) \<and>
     (\<forall>c \<in> set (node_children n). level c = level (node_id n) + 1 \<and>
        (\<exists>m \<in> set ns. node_id m = c \<and> node_parent m = node_id n))"

lemma first_some_None: "first_some xs = None \<longleftrightarrow> (\<forall>x \<in> set xs. x = None)"
  by (induction xs rule: first_some.induct) auto

lemma find_node_is:
  assumes "distinct (map node_id ns)" "m \<in> set ns"
  shows "ns ! find_node ns (node_id m) = m" "find_node ns (node_id m) < length ns"
  using assms find_node_nth [OF assms(1)] by (auto simp: in_set_conv_nth)

lemma ex_node_iff:
  assumes "distinct (map node_id ns)"
  shows "(\<exists>m \<in> set ns. node_id m = t \<and> P m) \<longleftrightarrow> find_node ns t < length ns \<and> P (ns ! find_node ns t)"
proof
  assume "\<exists>m \<in> set ns. node_id m = t \<and> P m"
  then obtain m where "m \<in> set ns" "node_id m = t" "P m" by auto
  then show "find_node ns t < length ns \<and> P (ns ! find_node ns t)"
    using find_node_is [OF assms] by auto
next
  assume "find_node ns t < length ns \<and> P (ns ! find_node ns t)"
  then show "\<exists>m \<in> set ns. node_id m = t \<and> P m"
    by (intro bexI [of _ "ns ! find_node ns t"]) (simp_all add: find_node_found(2))
qed

lemma parent_error_None:
  assumes "distinct (map node_id ns)" "TileId_IsValid (node_id n)"
  shows "parent_error ns n = None \<longleftrightarrow> parent_ok ns n"
proof -
  let ?p = "node_parent n"
  let ?found = "find_node ns ?p < length ns \<and> node_id n \<in> set (node_children (ns ! find_node ns ?p))"
  have root: "?p = no_parent \<longleftrightarrow> level ?p = - 1 \<and> tx ?p = 0 \<and> ty ?p = 0 \<and> tz ?p = 0"
    by (cases ?p) (simp add: no_parent_def tile_id_def)
  have found: "?found \<longleftrightarrow> \<not> (find_node ns ?p = length ns \<or>
      \<not> list_ex (\<lambda>c. TileIdEqual c (node_id n)) (node_children (ns ! find_node ns ?p)))"
    using find_node_le [of ns ?p] by (auto simp: list_ex_iff)
  have ok: "parent_ok ns n \<longleftrightarrow> ?p = no_parent \<or>
      (0 \<le> level ?p \<and> level (node_id n) = level ?p + 1 \<and> ?found)"
    unfolding parent_ok_def ex_node_iff [OF assms(1)] by simp
  consider "level ?p = - 1" | "level ?p < - 1" | "0 \<le> level ?p" by linarith
  then show ?thesis
  proof cases
    case 1
    then show ?thesis unfolding ok root parent_error_def Let_def by simp
  next
    case 2
    then show ?thesis unfolding ok root parent_error_def Let_def by simp
  next
    case 3
    then have "parent_error ns n = None \<longleftrightarrow> level (node_id n) - level ?p = 1 \<and> ?found"
      unfolding found parent_error_def Let_def by simp
    then show ?thesis unfolding ok root using 3 by auto
  qed
qed

lemma distinct_earlier: "distinct xs \<longleftrightarrow> (\<forall>i < length xs. \<forall>j < i. xs ! j \<noteq> xs ! i)"
proof -
  have "(\<forall>i < length xs. \<forall>j < length xs. i \<noteq> j \<longrightarrow> xs ! i \<noteq> xs ! j) \<longleftrightarrow>
      (\<forall>i < length xs. \<forall>j < i. xs ! j \<noteq> xs ! i)" (is "?L \<longleftrightarrow> ?R")
  proof
    assume R: ?R
    show ?L
    proof (intro allI impI)
      fix i j
      assume "i < length xs" "j < length xs" "i \<noteq> j"
      then consider "i < j" "j < length xs" | "j < i" "i < length xs" by linarith
      then show "xs ! i \<noteq> xs ! j"
      proof cases
        case 1
        with R show ?thesis by blast
      next
        case 2
        with R have "xs ! j \<noteq> xs ! i" by blast
        then show ?thesis by simp
      qed
    qed
  qed auto
  then show ?thesis by (simp add: distinct_conv_nth)
qed

lemma children_errors_None:
  assumes "distinct (map node_id ns)"
  shows "(\<forall>i < length (node_children n). child_error ns n i = None) \<longleftrightarrow>
    distinct (node_children n) \<and> (\<forall>c \<in> set (node_children n). level c = level (node_id n) + 1 \<and>
        (\<exists>m \<in> set ns. node_id m = c \<and> node_parent m = node_id n))"
proof -
  have "child_error ns n i = None \<longleftrightarrow> (\<forall>j < i. node_children n ! j \<noteq> node_children n ! i) \<and>
      level (node_children n ! i) = level (node_id n) + 1 \<and>
      (\<exists>m \<in> set ns. node_id m = node_children n ! i \<and> node_parent m = node_id n)" for i
    using find_node_le [of ns "node_children n ! i"]
    by (auto simp: child_error_def Let_def list_ex_iff ex_node_iff [OF assms])
  then show ?thesis unfolding distinct_earlier [of "node_children n"] by (auto simp: all_set_conv_all_nth)
qed

lemma node_errors_None:
  assumes "list_all TilePlanNode_IsValid ns"
  shows "first_some (map (node_error ns) [0..<length ns]) = None \<longleftrightarrow>
    distinct (map node_id ns) \<and> (\<forall>n \<in> set ns. parent_ok ns n \<and> children_ok ns n)"
proof -
  have e: "node_error ns i = None \<longleftrightarrow> (\<forall>j < i. node_id (ns ! j) \<noteq> node_id (ns ! i)) \<and>
      parent_error ns (ns ! i) = None \<and>
      (\<forall>k < length (node_children (ns ! i)). child_error ns (ns ! i) k = None) \<and>
      (isLeaf (ns ! i) \<or> node_children (ns ! i) \<noteq> [])" for i
  proof -
    have "(\<forall>k < length (node_children (ns ! i)). child_error ns (ns ! i) k = None) \<longleftrightarrow>
        first_some (map (child_error ns (ns ! i)) [0..<length (node_children (ns ! i))]) = None"
      by (auto simp: first_some_None)
    then show ?thesis by (auto simp: node_error_def Let_def list_ex_iff split: option.splits)
  qed
  have d: "distinct (map node_id ns) \<longleftrightarrow> (\<forall>i < length ns. \<forall>j < i. node_id (ns ! j) \<noteq> node_id (ns ! i))"
    unfolding distinct_earlier [of "map node_id ns"] by auto
  have v: "TileId_IsValid (node_id (ns ! i))" if "i < length ns" for i
    using assms that by (auto simp: list_all_length TilePlanNode_IsValid_def split: if_split_asm)
  show ?thesis
  proof (cases "distinct (map node_id ns)")
    case True
    have "first_some (map (node_error ns) [0..<length ns]) = None \<longleftrightarrow>
        (\<forall>i < length ns. parent_ok ns (ns ! i) \<and> children_ok ns (ns ! i))"
      using True d v
      by (auto simp: first_some_None e parent_error_None [OF True] children_errors_None [OF True] children_ok_def)
    then show ?thesis using True by (auto simp: all_set_conv_all_nth)
  qed (use d in \<open>auto simp: first_some_None e\<close>)
qed

section \<open>The search never fails on linked nodes\<close>

definition linked :: "TilePlanNode list \<Rightarrow> bool" where
  "linked ns \<longleftrightarrow> distinct (map node_id ns) \<and> (\<forall>n \<in> set ns. parent_ok ns n \<and> children_ok ns n)"

definition closed_states :: "TilePlanNode list \<Rightarrow> nat list \<Rightarrow> bool" where
  "closed_states ns st \<longleftrightarrow> length st = length ns \<and> set st \<subseteq> {0, 1, 2} \<and>
     (\<forall>j < length ns. st ! j = 2 \<longrightarrow> (\<forall>c \<in> set (node_children (ns ! j)). st ! find_node ns c = 2))"

definition above :: "TilePlanNode list \<Rightarrow> nat list \<Rightarrow> PointTileId \<Rightarrow> bool" where
  "above ns st t \<longleftrightarrow> (\<forall>j < length ns. st ! j = 1 \<longrightarrow> level (node_id (ns ! j)) < level t)"

definition same_path :: "nat list \<Rightarrow> nat list \<Rightarrow> bool" where
  "same_path st st' \<longleftrightarrow> length st' = length st \<and>
     (\<forall>j < length st. (st' ! j = 1 \<longleftrightarrow> st ! j = 1) \<and> (st ! j = 2 \<longrightarrow> st' ! j = 2))"

lemma same_path_refl [simp]: "same_path st st"
  by (simp add: same_path_def)

lemma same_path_trans: "same_path a b \<Longrightarrow> same_path b c \<Longrightarrow> same_path a c"
  by (auto simp: same_path_def)

lemma above_same_path: "same_path st st' \<Longrightarrow> length st = length ns \<Longrightarrow> above ns st' t \<longleftrightarrow> above ns st t"
  by (auto simp: above_def same_path_def)

lemma linked_child:
  assumes "linked ns" "i < length ns" "c \<in> set (node_children (ns ! i))"
  shows "find_node ns c < length ns" "level c = level (node_id (ns ! i)) + 1"
    "node_id (ns ! find_node ns c) = c"
proof -
  have "children_ok ns (ns ! i)" using assms(1,2) by (simp add: linked_def)
  then have "level c = level (node_id (ns ! i)) + 1" "\<exists>m \<in> set ns. node_id m = c"
    using assms(3) unfolding children_ok_def by blast+
  then show "find_node ns c < length ns" "level c = level (node_id (ns ! i)) + 1"
    "node_id (ns ! find_node ns c) = c"
    using find_node_found [of ns c] by auto
qed

lemma begin_node:
  assumes "closed_states ns st" "i < length ns" "st ! i = 0"
  shows "closed_states ns (st[i := 1])"
proof -
  have "st[i := 1] ! j = 2 \<longleftrightarrow> st ! j = 2" for j
    using assms by (cases "i = j") (auto simp: closed_states_def)
  then show ?thesis
    using assms set_update_subset_insert [of st i 1] by (auto simp: closed_states_def)
qed

lemma begin_above:
  assumes "linked ns" "i < length ns" "above ns st (node_id (ns ! i))" "c \<in> set (node_children (ns ! i))"
  shows "above ns (st[i := 1]) c"
proof -
  have "level (node_id (ns ! j)) < level c" if "j < length ns" "st[i := 1] ! j = 1" for j
    using assms(3) that linked_child(2) [OF assms(1,2,4)] by (cases "i = j") (auto simp: above_def)
  then show ?thesis by (simp add: above_def)
qed

lemma finish_node:
  assumes "linked ns" "i < length ns" "closed_states ns st1" "st1 ! i = 1"
    "\<forall>c \<in> set (node_children (ns ! i)). st1 ! find_node ns c = 2"
  shows "closed_states ns (st1[i := 2])"
proof -
  have "st1[i := 2] ! j = 2 \<longleftrightarrow> j = i \<or> st1 ! j = 2" for j
    using assms by (cases "i = j") (auto simp: closed_states_def)
  then show ?thesis
    using assms set_update_subset_insert [of st1 i 2] by (auto simp: closed_states_def)
qed

lemma visit_linked:
  "visit_node ns f i st = Some (ok, st', e) \<Longrightarrow> linked ns \<Longrightarrow> i < length ns \<Longrightarrow> closed_states ns st \<Longrightarrow>
     above ns st (node_id (ns ! i)) \<Longrightarrow> ok \<and> e = None \<and> closed_states ns st' \<and> same_path st st' \<and> st' ! i = 2"
  "visit_children ns f cs st = Some (ok, st', e) \<Longrightarrow> linked ns \<Longrightarrow> closed_states ns st \<Longrightarrow>
     (\<forall>c \<in> set cs. find_node ns c < length ns \<and> above ns st c) \<Longrightarrow>
     ok \<and> e = None \<and> closed_states ns st' \<and> same_path st st' \<and> (\<forall>c \<in> set cs. st' ! find_node ns c = 2)"
proof (induction ns f i st and ns f cs st arbitrary: ok st' e and ok st' e rule: visit_node_visit_children.induct)
  case (2 ns f i st)
  have no1: "st ! i \<noteq> 1" using "2.prems"(3,5) by (auto simp: above_def)
  show ?case
  proof (cases "st ! i = 2")
    case True
    then show ?thesis using "2.prems" by auto
  next
    case False
    have len: "length st = length ns" using "2.prems"(4) by (simp add: closed_states_def)
    let ?st1 = "st[i := 1]"
    obtain b st2 e2 where v: "visit_children ns f (node_children (ns ! i)) ?st1 = Some (b, st2, e2)"
      using "2.prems"(1) no1 False by (auto split: option.splits)
    have "st ! i \<in> {0, 1, 2}" using "2.prems"(3,4) unfolding closed_states_def by (metis nth_mem subsetD)
    then have "closed_states ns ?st1" using begin_node [OF "2.prems"(4,3)] no1 False by blast
    moreover have "\<forall>c \<in> set (node_children (ns ! i)). find_node ns c < length ns \<and> above ns ?st1 c"
      using begin_above [OF "2.prems"(2,3,5)] linked_child(1) [OF "2.prems"(2,3)] by blast
    ultimately have c: "b" "e2 = None" "closed_states ns st2" "same_path ?st1 st2"
      "\<forall>c \<in> set (node_children (ns ! i)). st2 ! find_node ns c = 2"
      using "2.IH" [OF no1 False v "2.prems"(2)] by auto
    have "st2 ! i = 1" using c(4) "2.prems"(3) len by (simp add: same_path_def)
    from finish_node [OF "2.prems"(2,3) c(3) this c(5)]
    have "closed_states ns (st2[i := 2])" .
    moreover have "same_path st (st2[i := 2])"
      using c(4) no1 False "2.prems"(3) len by (auto simp: same_path_def nth_list_update)
    moreover have "st2[i := 2] ! i = 2" using c(3) "2.prems"(3) by (simp add: closed_states_def)
    ultimately show ?thesis using "2.prems"(1) no1 False v c(1,2) by auto
  qed
next
  case (4 ns f c cs st)
  have c: "find_node ns c < length ns" "above ns st c" using "4.prems"(4) by auto
  then have ne: "find_node ns c \<noteq> length ns" by simp
  obtain b st1 e1 where one: "visit_node ns f (find_node ns c) st = Some (b, st1, e1)"
    using "4.prems"(1) ne by (auto split: option.splits)
  have n1: "b" "e1 = None" "closed_states ns st1" "same_path st st1" "st1 ! find_node ns c = 2"
    using "4.IH"(1) [OF ne one "4.prems"(2) c(1) "4.prems"(3)] c find_node_found(2) [of ns c] by auto
  have two: "visit_children ns f cs st1 = Some (ok, st', e)"
    using "4.prems"(1) ne one n1(1) by (simp split: bool.splits)
  have len: "length st = length ns" using "4.prems"(3) by (simp add: closed_states_def)
  have "\<forall>c \<in> set cs. find_node ns c < length ns \<and> above ns st1 c"
    using "4.prems"(4) above_same_path [OF n1(4) len] by auto
  then have "ok" "e = None" "closed_states ns st'" "same_path st1 st'" "\<forall>c \<in> set cs. st' ! find_node ns c = 2"
    using "4.IH"(2) [OF ne one _ _ _ two "4.prems"(2) n1(3)] n1(1) by auto
  moreover have "st' ! find_node ns c = 2"
    using calculation(4) n1(3,5) c(1) by (simp add: same_path_def closed_states_def)
  ultimately show ?case using same_path_trans [OF n1(4)] by auto
qed auto

lemma root_index_is:
  assumes "length (filter is_root_node ns) = 1"
  shows "root_index ns < length ns" "\<And>j. j < length ns \<Longrightarrow> is_root_node (ns ! j) \<longleftrightarrow> j = root_index ns"
proof -
  have f: "foldl (\<lambda>r i. if P i then i else r) r0 [0..<n] =
      (if \<exists>i < n. P i then Max {i. i < n \<and> P i} else r0)" for P :: "nat \<Rightarrow> bool" and r0 n
  proof (induction n)
    case (Suc n)
    have "{i. i < Suc n \<and> P i} = (if P n then insert n {i. i < n \<and> P i} else {i. i < n \<and> P i})"
      by (auto simp: less_Suc_eq)
    moreover have "Max (insert n {i. i < n \<and> P i}) = n"
      by (rule Max_eqI) auto
    ultimately show ?case using Suc by (auto simp: less_Suc_eq)
  qed simp
  have "card {i. i < length ns \<and> is_root_node (ns ! i)} = 1"
    using assms by (simp add: length_filter_conv_card)
  then obtain r where r: "{i. i < length ns \<and> is_root_node (ns ! i)} = {r}" by (auto simp: card_1_singleton_iff)
  then have "\<exists>i < length ns. is_root_node (ns ! i)" by blast
  then have "root_index ns = r" by (simp add: root_index_def f r)
  with r show "root_index ns < length ns"
    "\<And>j. j < length ns \<Longrightarrow> is_root_node (ns ! j) \<longleftrightarrow> j = root_index ns" by auto
qed

lemma all_reached:
  assumes "linked ns" "closed_states ns st" "list_all TilePlanNode_IsValid ns"
    "length (filter is_root_node ns) = 1" "st ! root_index ns = 2"
  shows "j < length ns \<Longrightarrow> st ! j = 2"
proof (induction "nat (level (node_id (ns ! j)))" arbitrary: j rule: less_induct)
  case less
  show ?case
  proof (cases "is_root_node (ns ! j)")
    case True
    then show ?thesis using root_index_is(2) [OF assms(4) less.prems] assms(5) by simp
  next
    case False
    have "parent_ok ns (ns ! j)" using assms(1) less.prems by (simp add: linked_def)
    then obtain m where m: "0 \<le> level (node_parent (ns ! j))"
      "level (node_id (ns ! j)) = level (node_parent (ns ! j)) + 1"
      "m \<in> set ns" "node_id m = node_parent (ns ! j)" "node_id (ns ! j) \<in> set (node_children m)"
      using False by (auto simp: parent_ok_def is_root_node_def no_parent_def tile_id_def)
    then obtain k where k: "k < length ns" "m = ns ! k" by (auto simp: in_set_conv_nth)
    have "st ! k = 2" using less.hyps [of k] m k by simp
    then have "st ! find_node ns (node_id (ns ! j)) = 2"
      using assms(2) k m(5) by (auto simp: closed_states_def)
    then show ?thesis using find_node_nth [of ns j] assms(1) less.prems by (simp add: linked_def)
  qed
qed

lemma search_tree_accepts:
  assumes "linked ns" "list_all TilePlanNode_IsValid ns" "ns \<noteq> [] \<Longrightarrow> length (filter is_root_node ns) = 1"
  shows "search_tree ns = Some (True, [])"
proof (cases "ns = []")
  case False
  let ?st = "replicate (length ns) (0 :: nat)" and ?f = "Suc (length ns)"
  note one = assms(3) [OF False]
  have "unseen ?st < ?f" by (simp add: unseen_def)
  then have "visit_node ns ?f (root_index ns) ?st \<noteq> None"
    using root_index_is(1) [OF one] by (intro visit_returns) auto
  then obtain ok st e where v: "visit_node ns ?f (root_index ns) ?st = Some (ok, st, e)" by auto
  have "closed_states ns ?st" "above ns ?st t" for t by (auto simp: closed_states_def above_def)
  then have r: "ok" "closed_states ns st" "st ! root_index ns = 2"
    using visit_linked(1) [OF v assms(1) root_index_is(1) [OF one]] by auto
  have "0 \<notin> set st"
    using all_reached [OF assms(1) r(2) assms(2) one r(3)] r(2)
    by (auto simp: in_set_conv_nth closed_states_def)
  then show ?thesis using False v r(1) by (simp add: search_tree_def)
qed (simp add: search_tree_def)

section \<open>The accepted plans\<close>

definition planner_ok :: "TilePlan \<Rightarrow> bool" where
  "planner_ok p \<longleftrightarrow> plannerId p \<noteq> [] \<and> CHR 0x0A \<notin> set (plannerId p) \<and>
     CHR 0x0D \<notin> set (plannerId p) \<and> 0 < plannerVersion p"

definition one_tree :: "TilePlanNode list \<Rightarrow> bool" where
  "one_tree ns \<longleftrightarrow> linked ns \<and> (ns \<noteq> [] \<longrightarrow> length (filter is_root_node ns) = 1)"

lemma ValidateTilePlan_accepts:
  assumes "planner_ok p" "list_all TilePlanNode_IsValid (nodes p)" "one_tree (nodes p)"
  shows "ValidateTilePlan p = Some (True, [])"
proof -
  have "first_some (map (node_error (nodes p)) [0..<length (nodes p)]) = None"
    using node_errors_None [of "nodes p"] assms by (simp add: one_tree_def linked_def)
  then show ?thesis
    using assms search_tree_accepts [of "nodes p"]
    by (auto simp: ValidateTilePlan_def planner_ok_def TilePlan_IsValid_def one_tree_def)
qed

lemma ValidateTilePlan_rejects:
  assumes "\<not> (planner_ok p \<and> list_all TilePlanNode_IsValid (nodes p) \<and> one_tree (nodes p))"
  shows "\<exists>msg. ValidateTilePlan p = Some (False, [error_diag InvalidPointTile msg])"
proof (cases "planner_ok p \<and> list_all TilePlanNode_IsValid (nodes p)")
  case True
  show ?thesis
  proof (cases "first_some (map (node_error (nodes p)) [0..<length (nodes p)])")
    case None
    then have "linked (nodes p)" using node_errors_None [of "nodes p"] True by (simp add: linked_def)
    then have "nodes p \<noteq> [] \<and> length (filter is_root_node (nodes p)) \<noteq> 1"
      using assms True by (simp add: one_tree_def)
    then show ?thesis using True None
      by (auto simp: ValidateTilePlan_def planner_ok_def TilePlan_IsValid_def invalid_plan_def)
  next
    case (Some e)
    then show ?thesis using True
      by (auto simp: ValidateTilePlan_def planner_ok_def TilePlan_IsValid_def invalid_plan_def)
  qed
qed (auto simp: ValidateTilePlan_def planner_ok_def TilePlan_IsValid_def invalid_plan_def)

text \<open>
  Claim C9: The tile plan validator always returns, and it accepts exactly the plans with a
  one-line planner identity, a planner version, valid nodes with different identifiers, exactly
  one root, and parent and child links that agree with each other and with the levels.  On such
  links the search from the root finds neither a cycle nor a disconnected node, so these two
  reports are never made; every rejection reports exactly one diagnostic.
\<close>

theorem tile_plan_accepted_iff:
  "\<exists>ok ds. ValidateTilePlan p = Some (ok, ds) \<and>
     (ok \<longleftrightarrow> planner_ok p \<and> list_all TilePlanNode_IsValid (nodes p) \<and> one_tree (nodes p)) \<and>
     length ds = (if ok then 0 else 1) \<and> list_all (\<lambda>d. code d = InvalidPointTile) ds"
  using ValidateTilePlan_accepts [of p] ValidateTilePlan_rejects [of p]
  by (cases "planner_ok p \<and> list_all TilePlanNode_IsValid (nodes p) \<and> one_tree (nodes p)")
    (auto simp: error_diag_def)

end
