(* ===== verification/Tile_Manifest.thy ===== *)
theory Tile_Manifest
  imports Tile_Plan
begin

text \<open>
  Identities of tile plans and tile manifests (\<^verbatim>\<open>Tiling.cpp\<close>): the cache arguments and the
  stable key of a plan, safe relative payload paths, the manifest validator and its serialised
  text.  The lemmas show that key and text do not depend on the order of the parts they list,
  and which manifests are accepted.
\<close>

section \<open>The stable key of a tile plan\<close>

definition range_before :: "TilePlanSourceRange \<Rightarrow> TilePlanSourceRange \<Rightarrow> bool" where
  "range_before l r = (if range_offset l \<noteq> range_offset r then range_offset l < range_offset r
     else range_length l < range_length r)"

definition triple_text :: "Vec3d \<Rightarrow> string" where
  "triple_text v = stream_double (vx v) @ '','' @ stream_double (vy v) @ '','' @ stream_double (vz v)"

definition indexed :: "string \<Rightarrow> ('a \<Rightarrow> string) \<Rightarrow> 'a list \<Rightarrow> CacheArguments" where
  "indexed prefix f xs = map (\<lambda>i. (prefix @ show_nat i, f (xs ! i))) [0..<length xs]"

definition node_arguments :: "TilePlanNode \<Rightarrow> CacheArguments" where
  "node_arguments n =
     (let prefix = ''node.'' @ TileId_ToString (node_id n) in
      [(prefix @ ''.pointCount'', show_nat (node_pointCount n)),
       (prefix @ ''.parent'', TileId_ToString (node_parent n)),
       (prefix @ ''.bounds.min'', triple_text (minimum (node_bounds n))),
       (prefix @ ''.bounds.max'', triple_text (maximum (node_bounds n))),
       (prefix @ ''.leaf'', if isLeaf n then ''1'' else ''0'')] @
      indexed (prefix @ ''.child.'') TileId_ToString (sort_by TileIdLess (node_children n)) @
      indexed (prefix @ ''.sourceRange.'')
        (\<lambda>r. show_nat (range_offset r) @ '':'' @ show_nat (range_length r))
        (sort_by range_before (sourceRanges n)))"

definition TilePlanCacheArguments :: "TilePlan \<Rightarrow> CacheArguments" where
  "TilePlanCacheArguments p =
     (if \<not> TilePlan_IsValid p then []
      else [(''planner.id'', plannerId p), (''planner.version'', show_nat (plannerVersion p))] @
        concat (map node_arguments (sort_by node_before (nodes p))))"

definition StableTilePlanKey :: "TilePlan \<Rightarrow> string" where
  "StableTilePlanKey p =
     (let arguments = TilePlanCacheArguments p in
      if arguments = [] then [] else StableCacheKey arguments)"

interpretation range_before_order: total_comparator range_before
  by unfold_locales (auto simp: range_before_def split: if_splits)

section \<open>Manifests\<close>

record PointTileManifestEntry =
  entry_id :: PointTileId
  entry_lod :: nat
  entry_bounds :: SpatialBounds
  entry_pointCount :: nat
  payloadPath :: string

function safe_components :: "string \<Rightarrow> bool" where
  "safe_components s =
     (if s = [] then True
      else let c = takeWhile (\<lambda>c. c \<noteq> CHR ''/'') s; r = dropWhile (\<lambda>c. c \<noteq> CHR ''/'') s
           in if c = ''.'' \<or> c = ''..'' then False
              else if r = [] then True else safe_components (tl r))"
  by pat_completeness auto
termination
proof (relation "measure length")
  fix s :: string and c r
  assume a: "s \<noteq> []" "r = dropWhile (\<lambda>c. c \<noteq> CHR ''/'') s"
  have "length (tl r) < length s"
    using length_dropWhile_le [of "\<lambda>c. c \<noteq> CHR ''/''" s] a(1)
    unfolding a(2) length_tl by (simp add: Suc_le_eq flip: length_greater_0_conv)
  then show "(tl r, s) \<in> measure length" by simp
qed simp

declare safe_components.simps [simp del]

definition is_letter :: "char \<Rightarrow> bool" where
  "is_letter c \<longleftrightarrow> (let n = (of_char c :: nat) in (65 \<le> n \<and> n \<le> 90) \<or> (97 \<le> n \<and> n \<le> 122))"

definition IsSafeManifestPath :: "string \<Rightarrow> bool" where
  "IsSafeManifestPath v =
     (if v = [] \<or> CHR 0x5C \<in> set v \<or> CHR 0x0A \<in> set v \<or> CHR 0x0D \<in> set v \<or> CHR ''='' \<in> set v then False
      else if hd v = CHR ''/'' \<or> (2 \<le> length v \<and> is_letter (hd v) \<and> v ! 1 = CHR '':'') then False
      else safe_components v)"

definition PointTileManifestEntry_IsValid :: "PointTileManifestEntry \<Rightarrow> bool" where
  "PointTileManifestEntry_IsValid e \<longleftrightarrow>
     TileId_IsValid (entry_id e) \<and> SpatialBounds_IsValid (entry_bounds e) \<and> 0 < entry_pointCount e \<and>
     IsSafeManifestPath (payloadPath e)"

definition ManifestEntryLess :: "PointTileManifestEntry \<Rightarrow> PointTileManifestEntry \<Rightarrow> bool" where
  "ManifestEntryLess l r =
     (if TileIdLess (entry_id l) (entry_id r) then True
      else if TileIdLess (entry_id r) (entry_id l) then False
      else if entry_lod l \<noteq> entry_lod r then entry_lod l < entry_lod r
      else payloadPath l < payloadPath r)"

definition ValidatePointTileManifest :: "PointTileManifestEntry list \<Rightarrow> bool \<times> Diagnostic list" where
  "ValidatePointTileManifest entries =
     (if \<not> list_all PointTileManifestEntry_IsValid entries
      then (False, [error_diag InvalidPointTile ''tile manifest contains an invalid entry''])
      else let es = sort_by ManifestEntryLess entries in
        if list_ex (\<lambda>i. TileIdEqual (entry_id (es ! (i - 1))) (entry_id (es ! i)) \<and>
             entry_lod (es ! (i - 1)) = entry_lod (es ! i)) [1..<length es]
        then (False, [error_diag InvalidPointTile ''tile manifest contains duplicate tile LOD entries''])
        else (True, []))"

definition newline :: string where
  "newline = [CHR 0x0A]"

definition entry_text :: "nat \<Rightarrow> PointTileManifestEntry \<Rightarrow> string" where
  "entry_text i e =
     (let prefix = ''tile.'' @ show_nat i @ ''.'' in
      prefix @ ''id='' @ TileId_ToString (entry_id e) @ newline @
      prefix @ ''lod='' @ show_nat (entry_lod e) @ newline @
      prefix @ ''pointCount='' @ show_nat (entry_pointCount e) @ newline @
      prefix @ ''bounds.min='' @ triple_text (minimum (entry_bounds e)) @ newline @
      prefix @ ''bounds.max='' @ triple_text (maximum (entry_bounds e)) @ newline @
      prefix @ ''payload='' @ payloadPath e @ newline)"

definition SerializePointTileManifest ::
  "PointTileManifestEntry list \<Rightarrow> bool \<times> string \<times> Diagnostic list" where
  "SerializePointTileManifest entries =
     (case ValidatePointTileManifest entries of (ok, ds) \<Rightarrow>
      if \<not> ok then (False, [], ds)
      else let es = sort_by ManifestEntryLess entries in
        (True, ''format=usd-pointcloud-tile-manifest-v1'' @ newline @
           ''tile.count='' @ show_nat (length es) @ newline @
           concat (map (\<lambda>i. entry_text i (es ! i)) [0..<length es]), ds))"

section \<open>Orders\<close>

lemma TileIdLess_total: "TileIdLess a b \<or> a = b \<or> TileIdLess b a"
  using tile_order.total by blast

lemma ManifestEntryLess_iff:
  "ManifestEntryLess l r \<longleftrightarrow> TileIdLess (entry_id l) (entry_id r) \<or>
     (entry_id l = entry_id r \<and> (entry_lod l < entry_lod r \<or>
       (entry_lod l = entry_lod r \<and> payloadPath l < payloadPath r)))"
  using TileIdLess_total [of "entry_id l" "entry_id r"] tile_order.irrefl tile_order.asym
  by (auto simp: ManifestEntryLess_def)

interpretation entry_order: comparator ManifestEntryLess
proof
  fix a b c :: PointTileManifestEntry
  show "\<not> ManifestEntryLess a a" by (simp add: ManifestEntryLess_iff tile_order.irrefl)
  show "ManifestEntryLess a b \<Longrightarrow> ManifestEntryLess b c \<Longrightarrow> ManifestEntryLess a c"
    by (auto simp: ManifestEntryLess_iff intro: tile_order.trans)
  show "\<not> ManifestEntryLess a b \<Longrightarrow> \<not> ManifestEntryLess b c \<Longrightarrow> \<not> ManifestEntryLess a c"
    using TileIdLess_total [of "entry_id a" "entry_id b"] TileIdLess_total [of "entry_id b" "entry_id c"]
    by (auto simp: ManifestEntryLess_iff dest: tile_order.trans tile_order.asym)
qed

section \<open>Safe paths\<close>

lemma split_on_first:
  "split_on c s = takeWhile (\<lambda>x. x \<noteq> c) s #
     (if dropWhile (\<lambda>x. x \<noteq> c) s = [] then [] else split_on c (tl (dropWhile (\<lambda>x. x \<noteq> c) s)))"
proof (cases "c \<in> set s")
  case True
  then have d: "dropWhile (\<lambda>x. x \<noteq> c) s \<noteq> []" by auto
  then have "hd (dropWhile (\<lambda>x. x \<noteq> c) s) = c" using hd_dropWhile [OF d] by simp
  then have s: "s = takeWhile (\<lambda>x. x \<noteq> c) s @ c # tl (dropWhile (\<lambda>x. x \<noteq> c) s)"
    using d takeWhile_dropWhile_id [of "\<lambda>x. x \<noteq> c" s] by (cases "dropWhile (\<lambda>x. x \<noteq> c) s") auto
  have "c \<notin> set (takeWhile (\<lambda>x. x \<noteq> c) s)" by (auto dest: set_takeWhileD)
  from split_on_append [OF this, of "tl (dropWhile (\<lambda>x. x \<noteq> c) s)"] show ?thesis
    using d by (simp flip: s)
next
  case False
  then have "takeWhile (\<lambda>x. x \<noteq> c) s = s" "dropWhile (\<lambda>x. x \<noteq> c) s = []"
    by (auto simp: takeWhile_eq_all_conv dropWhile_eq_Nil_conv)
  note parts = this
  show ?thesis by (simp only: parts split_on_plain [OF False] if_True simp_thms)
qed

lemma safe_components_split:
  "safe_components s \<longleftrightarrow> (\<forall>c \<in> set (split_on (CHR ''/'') s). c \<noteq> ''.'' \<and> c \<noteq> ''..'')"
proof (induction s rule: safe_components.induct)
  case (1 s)
  show ?case
  proof (cases "s = []")
    case True
    then show ?thesis by (simp add: safe_components.simps)
  next
    case False
    then show ?thesis
      using 1 [OF False refl refl]
      by (subst safe_components.simps, subst split_on_first) (auto simp: Let_def)
  qed
qed

text \<open>What opening a relative path does to the stack of directories below the manifest.\<close>

fun resolve :: "string list \<Rightarrow> string list \<Rightarrow> string list option" where
  "resolve dirs [] = Some dirs"
| "resolve dirs (c # cs) =
     (if c = [] \<or> c = ''.'' then resolve dirs cs
      else if c = ''..'' then (if dirs = [] then None else resolve (butlast dirs) cs)
      else resolve (dirs @ [c]) cs)"

lemma resolve_plain:
  "\<forall>c \<in> set cs. c \<noteq> ''.'' \<and> c \<noteq> ''..'' \<Longrightarrow> resolve dirs cs = Some (dirs @ filter (\<lambda>c. c \<noteq> []) cs)"
  by (induction cs arbitrary: dirs) auto

text \<open>
  Claim C28: A payload path is accepted exactly when it is not empty, has none of the reserved
  characters, is neither absolute nor a drive path, and has no component that is a dot or two
  dots.  Such a path always stays below the directory it is relative to, wherever that is: it
  descends by its non-empty components only.
\<close>

theorem safe_path_iff:
  "(IsSafeManifestPath v \<longleftrightarrow> v \<noteq> [] \<and> set v \<inter> {CHR 0x5C, CHR 0x0A, CHR 0x0D, CHR ''=''} = {} \<and>
      hd v \<noteq> CHR ''/'' \<and> (length v < 2 \<or> \<not> is_letter (hd v) \<or> v ! 1 \<noteq> CHR '':'') \<and>
      ''.'' \<notin> set (split_on (CHR ''/'') v) \<and> ''..'' \<notin> set (split_on (CHR ''/'') v)) \<and>
   (IsSafeManifestPath v \<longrightarrow> (\<forall>dirs. resolve dirs (split_on (CHR ''/'') v) =
      Some (dirs @ filter (\<lambda>c. c \<noteq> []) (split_on (CHR ''/'') v))))"
proof
  show "IsSafeManifestPath v \<longleftrightarrow> v \<noteq> [] \<and> set v \<inter> {CHR 0x5C, CHR 0x0A, CHR 0x0D, CHR ''=''} = {} \<and>
      hd v \<noteq> CHR ''/'' \<and> (length v < 2 \<or> \<not> is_letter (hd v) \<or> v ! 1 \<noteq> CHR '':'') \<and>
      ''.'' \<notin> set (split_on (CHR ''/'') v) \<and> ''..'' \<notin> set (split_on (CHR ''/'') v)"
    by (auto simp: IsSafeManifestPath_def safe_components_split)
  show "IsSafeManifestPath v \<longrightarrow> (\<forall>dirs. resolve dirs (split_on (CHR ''/'') v) =
      Some (dirs @ filter (\<lambda>c. c \<noteq> []) (split_on (CHR ''/'') v)))"
    by (auto simp: IsSafeManifestPath_def safe_components_split resolve_plain split: if_split_asm)
qed

theorem safe_path_iff_witness:
  "resolve [''out''] (split_on (CHR ''/'') ''tiles/L1/0.ply'') = Some [''out'', ''tiles'', ''L1'', ''0.ply'']"
proof -
  have "IsSafeManifestPath ''tiles/L1/0.ply''" by code_simp
  then show ?thesis using safe_path_iff [of "''tiles/L1/0.ply''"] by simp
qed

section \<open>Accepted manifests\<close>

definition entry_key :: "PointTileManifestEntry \<Rightarrow> PointTileId \<times> nat" where
  "entry_key e = (entry_id e, entry_lod e)"

lemma neighbours_find_duplicates:
  "distinct (map entry_key entries) \<longleftrightarrow>
   (let es = sort_by ManifestEntryLess entries in
    \<not> list_ex (\<lambda>i. entry_key (es ! (i - 1)) = entry_key (es ! i)) [1..<length es])"
proof -
  have "distinct (map entry_key (sort_by ManifestEntryLess entries)) \<longleftrightarrow>
    (let es = sort_by ManifestEntryLess entries in
     \<not> list_ex (\<lambda>i. entry_key (es ! (i - 1)) = entry_key (es ! i)) [1..<length es])"
    unfolding Let_def
  proof (rule entry_order.sorted_adjacent_distinct [OF entry_order.sorted_sort_by])
    fix a b c
    assume "\<not> ManifestEntryLess b a" "\<not> ManifestEntryLess c b" "entry_key a = entry_key c"
    then show "entry_key b = entry_key a"
      using TileIdLess_total [of "entry_id a" "entry_id b"] by (auto simp: ManifestEntryLess_iff entry_key_def)
  qed
  then show ?thesis by simp
qed

lemma manifest_verdict:
  "ValidatePointTileManifest entries = (ok, ds) \<Longrightarrow>
   (ok \<longleftrightarrow> list_all PointTileManifestEntry_IsValid entries \<and> distinct (map entry_key entries)) \<and>
   length ds = (if ok then 0 else 1)"
  unfolding neighbours_find_duplicates
  by (auto simp: ValidatePointTileManifest_def Let_def entry_key_def split: if_split_asm)

text \<open>
  Claim C13: The manifest validator accepts exactly the manifests whose entries are valid and
  whose pairs of tile and level are all different: comparing neighbours after sorting finds
  every duplicate, also between entries with different payloads.  A rejection reports exactly
  one diagnostic.
\<close>

theorem manifest_accepted_iff:
  assumes "ValidatePointTileManifest entries = (ok, ds)"
  shows "(ok \<longleftrightarrow> list_all PointTileManifestEntry_IsValid entries \<and>
      distinct (map (\<lambda>e. (entry_id e, entry_lod e)) entries)) \<and>
   length ds = (if ok then 0 else 1)"
  using manifest_verdict [OF assms] by (simp add: entry_key_def [abs_def])

definition sample_entry :: "int \<Rightarrow> nat \<Rightarrow> string \<Rightarrow> PointTileManifestEntry" where
  "sample_entry x l path = \<lparr>entry_id = tile_id 1 x 0 0, entry_lod = l, entry_bounds = sample_bounds,
     entry_pointCount = 3, payloadPath = path\<rparr>"

lemma sample_manifests:
  "ValidatePointTileManifest [sample_entry 1 0 ''a.ply'', sample_entry 0 0 ''b.ply'', sample_entry 1 1 ''c.ply''] = (True, [])"
  "ValidatePointTileManifest [sample_entry 1 0 ''a.ply'', sample_entry 0 0 ''b.ply'', sample_entry 1 0 ''c.ply''] =
     (False, [error_diag InvalidPointTile ''tile manifest contains duplicate tile LOD entries''])"
  by code_simp+

theorem manifest_accepted_iff_witness:
  "\<not> distinct (map (\<lambda>e. (entry_id e, entry_lod e))
     [sample_entry 1 0 ''a.ply'', sample_entry 0 0 ''b.ply'', sample_entry 1 0 ''c.ply''])"
  using manifest_accepted_iff [OF sample_manifests(2)] manifest_accepted_iff [OF sample_manifests(1)]
  by (auto simp: sample_entry_def)

section \<open>Texts and keys do not depend on orders\<close>

lemma sorted_entries_unique:
  assumes "distinct (map entry_key xs)" "mset xs = mset ys"
  shows "sort_by ManifestEntryLess xs = sort_by ManifestEntryLess ys"
proof (rule entry_order.sorted_unique_on)
  show "a = b" if "a \<in> set (sort_by ManifestEntryLess xs)" "b \<in> set (sort_by ManifestEntryLess xs)"
      "\<not> ManifestEntryLess a b" "\<not> ManifestEntryLess b a" for a b
  proof -
    have "entry_key a = entry_key b"
      using that(3,4) TileIdLess_total [of "entry_id a" "entry_id b"]
      by (auto simp: ManifestEntryLess_iff entry_key_def)
    then show ?thesis using assms(1) that(1,2) by (auto simp: distinct_map inj_on_def)
  qed
qed (use assms(2) in \<open>simp_all add: entry_order.sorted_sort_by\<close>)

text \<open>
  Claim C29: The text of a manifest does not depend on the order of its entries: permuting them
  changes neither the verdict nor the serialised text.
\<close>

theorem manifest_text_order_free:
  assumes "mset xs = mset ys"
  shows "fst (SerializePointTileManifest xs) = fst (SerializePointTileManifest ys) \<and>
    fst (snd (SerializePointTileManifest xs)) = fst (snd (SerializePointTileManifest ys))"
proof -
  obtain ok1 ds1 ok2 ds2 where v: "ValidatePointTileManifest xs = (ok1, ds1)"
    "ValidatePointTileManifest ys = (ok2, ds2)" by fastforce
  have "list_all PointTileManifestEntry_IsValid xs = list_all PointTileManifestEntry_IsValid ys"
    using assms by (metis list_all_iff mset_eq_setD)
  moreover have "distinct (map entry_key xs) = distinct (map entry_key ys)"
    using assms by (metis mset_eq_imp_distinct_iff mset_map)
  ultimately have "ok1 = ok2" using manifest_verdict [OF v(1)] manifest_verdict [OF v(2)] by simp
  moreover have "sort_by ManifestEntryLess xs = sort_by ManifestEntryLess ys" if "ok1"
    using sorted_entries_unique [OF _ assms] manifest_verdict [OF v(1)] that by simp
  ultimately show ?thesis using v by (simp add: SerializePointTileManifest_def Let_def)
qed

theorem manifest_text_order_free_witness:
  "fst (snd (SerializePointTileManifest [sample_entry 1 0 ''a.ply'', sample_entry 0 0 ''b.ply''])) =
   fst (snd (SerializePointTileManifest [sample_entry 0 0 ''b.ply'', sample_entry 1 0 ''a.ply'']))"
  using manifest_text_order_free
    [of "[sample_entry 1 0 ''a.ply'', sample_entry 0 0 ''b.ply'']" "[sample_entry 0 0 ''b.ply'', sample_entry 1 0 ''a.ply'']"]
  by (simp add: add_mset_commute)

definition node_parts where
  "node_parts n = (node_id n, node_bounds n, node_pointCount n, node_parent n,
     mset (node_children n), mset (sourceRanges n), isLeaf n)"

lemma node_parts_valid: "node_parts m = node_parts n \<Longrightarrow> TilePlanNode_IsValid m = TilePlanNode_IsValid n"
  using mset_eq_setD [of "sourceRanges m" "sourceRanges n"]
  by (auto simp: node_parts_def TilePlanNode_IsValid_def list_all_iff)

lemma node_parts_arguments: "node_parts m = node_parts n \<Longrightarrow> node_arguments m = node_arguments n"
  using tile_order.sort_by_perm [of "node_children m" "node_children n"]
    range_before_order.sort_by_perm [of "sourceRanges m" "sourceRanges n"]
  by (simp add: node_parts_def node_arguments_def Let_def)

definition parts_before :: "PointTileId \<times> 'a \<Rightarrow> PointTileId \<times> 'a \<Rightarrow> bool" where
  "parts_before l r = TileIdLess (fst l) (fst r)"

interpretation parts_order: comparator parts_before
  by unfold_locales (auto simp: parts_before_def tile_order.irrefl intro: tile_order.trans dest: tile_order.neg_trans)

lemma parts_before_iff: "parts_before (node_parts m) (node_parts n) \<longleftrightarrow> node_before m n"
  by (simp add: parts_before_def node_parts_def node_before_def)

lemma parts_permuted:
  assumes "mset (map node_parts xs) = mset (map node_parts ys)" "distinct (map node_id xs)"
  shows "map node_parts (sort_by node_before xs) = map node_parts (sort_by node_before ys)"
proof (rule parts_order.sorted_unique_on)
  have s: "sorted_wrt (\<lambda>a b. \<not> parts_before b a) (map node_parts (sort_by node_before zs))" for zs
    using node_before_order.sorted_sort_by [of zs] by (simp add: sorted_wrt_map parts_before_iff)
  show "sorted_wrt (\<lambda>a b. \<not> parts_before b a) (map node_parts (sort_by node_before xs))"
    "sorted_wrt (\<lambda>a b. \<not> parts_before b a) (map node_parts (sort_by node_before ys))" by (rule s)+
  show "mset (map node_parts (sort_by node_before xs)) = mset (map node_parts (sort_by node_before ys))"
    using assms(1) by simp
  show "a = b" if ab: "a \<in> set (map node_parts (sort_by node_before xs))"
    "b \<in> set (map node_parts (sort_by node_before xs))" "\<not> parts_before a b" "\<not> parts_before b a" for a b
  proof -
    obtain m n where mn: "m \<in> set xs" "n \<in> set xs" "a = node_parts m" "b = node_parts n"
      using ab(1,2) by auto
    then have "node_id m = node_id n"
      using ab(3,4) TileIdLess_total [of "node_id m" "node_id n"] by (auto simp: parts_before_def node_parts_def)
    then show ?thesis using mn assms(2) by (auto simp: distinct_map inj_on_def)
  qed
qed

lemma valid_parts:
  assumes "node_parts ` A = node_parts ` B"
  shows "(\<forall>n \<in> A. TilePlanNode_IsValid n) \<longleftrightarrow> (\<forall>n \<in> B. TilePlanNode_IsValid n)"
proof -
  have one: "\<forall>n \<in> D. TilePlanNode_IsValid n" if "node_parts ` C = node_parts ` D" "\<forall>n \<in> C. TilePlanNode_IsValid n" for C D
  proof
    fix n assume "n \<in> D"
    then have "node_parts n \<in> node_parts ` C" using that(1) by simp
    then obtain m where m: "m \<in> C" "node_parts n = node_parts m" by auto
    then have "TilePlanNode_IsValid m" using that(2) by simp
    then show "TilePlanNode_IsValid n" by (simp only: node_parts_valid [OF m(2)])
  qed
  show ?thesis using one [OF assms] one [OF assms [symmetric]] by blast
qed

lemma concat_map_cong_parts:
  "map node_parts xs = map node_parts ys \<Longrightarrow> concat (map node_arguments xs) = concat (map node_arguments ys)"
proof (induction xs arbitrary: ys)
  case (Cons x xs)
  then obtain y zs where ys: "ys = y # zs" "node_parts x = node_parts y" "map node_parts xs = map node_parts zs"
    by (cases ys) auto
  then show ?case by (simp only: list.map concat.simps Cons.IH [OF ys(3)] node_parts_arguments [OF ys(2)])
qed simp

text \<open>
  Claim C30: The cache arguments and the stable key of a tile plan with different node
  identifiers depend only on its parts: the order in which it lists its nodes, the children of a
  node and the source ranges of a node has no influence.
\<close>

theorem plan_key_order_free:
  assumes "mset (map node_parts (nodes p)) = mset (map node_parts (nodes q))" "distinct (map node_id (nodes p))"
    "plannerId p = plannerId q" "plannerVersion p = plannerVersion q"
  shows "TilePlanCacheArguments p = TilePlanCacheArguments q \<and> StableTilePlanKey p = StableTilePlanKey q"
proof -
  have "node_parts ` set (nodes p) = node_parts ` set (nodes q)"
    using mset_eq_setD [OF assms(1)] by simp
  then have "list_all TilePlanNode_IsValid (nodes p) \<longleftrightarrow> list_all TilePlanNode_IsValid (nodes q)"
    using valid_parts [of "set (nodes p)" "set (nodes q)"] by (simp add: list_all_iff)
  moreover have "concat (map node_arguments (sort_by node_before (nodes p))) =
      concat (map node_arguments (sort_by node_before (nodes q)))"
    by (rule concat_map_cong_parts) (rule parts_permuted [OF assms(1,2)])
  ultimately have "TilePlanCacheArguments p = TilePlanCacheArguments q"
    using assms(3,4) by (simp add: TilePlanCacheArguments_def TilePlan_IsValid_def)
  then show ?thesis by (simp add: StableTilePlanKey_def)
qed

definition sample_node :: "int \<Rightarrow> PointTileId list \<Rightarrow> TilePlanNode" where
  "sample_node l cs = \<lparr>node_id = tile_id l 0 0 0, node_bounds = sample_bounds, node_pointCount = 3,
     node_parent = (if l = 0 then no_parent else tile_id (l - 1) 0 0 0), node_children = cs,
     sourceRanges = [], isLeaf = (cs = [])\<rparr>"

definition sample_plan :: "TilePlanNode list \<Rightarrow> TilePlan" where
  "sample_plan ns = \<lparr>plannerId = ''p'', plannerVersion = 1, nodes = ns\<rparr>"

theorem plan_key_order_free_witness:
  "StableTilePlanKey (sample_plan [sample_node 0 [tile_id 1 0 0 0], sample_node 1 []]) =
   StableTilePlanKey (sample_plan [sample_node 1 [], sample_node 0 [tile_id 1 0 0 0]])"
  using plan_key_order_free [of "sample_plan [sample_node 0 [tile_id 1 0 0 0], sample_node 1 []]"
      "sample_plan [sample_node 1 [], sample_node 0 [tile_id 1 0 0 0]]"]
  by (simp add: sample_plan_def sample_node_def node_parts_def tile_id_def add_mset_commute)

end
