(* ===== verification/Byte_Codec.thy ===== *)
theory Byte_Codec
  imports Geo_Core
begin

text \<open>
  Fixed-width values in byte buffers: little-endian unsigned and signed integers, IEEE binary32
  and binary64 bit patterns, text fields, and the range test that guards the reads.  A read
  takes the bytes the code copies; the lemmas say that it depends on those bytes only, and that
  a value written in the same layout is read back.
\<close>

section \<open>Integers\<close>

fun le_value :: "u8 list \<Rightarrow> nat" where
  "le_value [] = 0"
| "le_value (b # bs) = unat b + 256 * le_value bs"

fun le_bytes :: "nat \<Rightarrow> nat \<Rightarrow> u8 list" where
  "le_bytes 0 n = []"
| "le_bytes (Suc w) n = of_nat n # le_bytes w (n div 256)"

definition sub_bytes :: "nat \<Rightarrow> nat \<Rightarrow> 'a list \<Rightarrow> 'a list" where
  "sub_bytes off n bs = take n (drop off bs)"

definition read_uint :: "nat \<Rightarrow> u8 list \<Rightarrow> nat \<Rightarrow> nat" where
  "read_uint w bs off = le_value (sub_bytes off w bs)"

definition to_signed :: "nat \<Rightarrow> nat \<Rightarrow> int" where
  "to_signed w n = (if n < 2 ^ (8 * w - 1) then int n else int n - 2 ^ (8 * w))"

definition read_sint :: "nat \<Rightarrow> u8 list \<Rightarrow> nat \<Rightarrow> int" where
  "read_sint w bs off = to_signed w (read_uint w bs off)"

definition read_word :: "nat \<Rightarrow> u8 list \<Rightarrow> nat \<Rightarrow> 'a::len word" where
  "read_word w bs off = of_nat (read_uint w bs off)"

section \<open>Floating-point bit patterns\<close>

definition bits_fl :: "nat \<Rightarrow> nat \<Rightarrow> nat \<Rightarrow> fl" where
  \<comment> \<open>\<open>eb\<close> exponent bits and \<open>mb\<close> fraction bits\<close>
  "bits_fl eb mb n =
     (let m = n mod 2 ^ mb; e = n div 2 ^ mb mod 2 ^ eb; neg = odd (n div 2 ^ (mb + eb));
          bias = 2 ^ (eb - 1) - 1
      in if e = 2 ^ eb - 1 then (if m \<noteq> 0 then F_NaN else if neg then F_NegInf else F_PosInf)
         else if e = 0 \<and> m = 0 then (if neg then F_NegZero else F_Fin 0)
         else let q = (if e = 0 then of_nat m * pow2 (1 - int bias - int mb)
                       else of_nat (2 ^ mb + m) * pow2 (int e - int bias - int mb))
              in F_Fin (rat_nf (if neg then - q else q)))"

definition read_double :: "u8 list \<Rightarrow> nat \<Rightarrow> fl" where
  "read_double bs off = bits_fl 11 52 (read_uint 8 bs off)"

definition read_float :: "u8 list \<Rightarrow> nat \<Rightarrow> fl" where
  "read_float bs off = bits_fl 8 23 (read_uint 4 bs off)"

definition read_vec :: "u8 list \<Rightarrow> nat \<Rightarrow> Vec3d" where
  "read_vec bs off = vec (read_double bs off) (read_double bs (off + 8)) (read_double bs (off + 16))"

section \<open>Text and ranges\<close>

definition chars_of :: "u8 list \<Rightarrow> string" where
  "chars_of bs = map (\<lambda>b. char_of (unat b)) bs"

definition bytes_of :: "string \<Rightarrow> u8 list" where
  "bytes_of s = map (\<lambda>c. of_nat (of_char c)) s"

definition ReadText :: "u8 list \<Rightarrow> nat \<Rightarrow> nat \<Rightarrow> string" where
  "ReadText bs off n = chars_of (takeWhile (\<lambda>b. b \<noteq> 0) (sub_bytes off n bs))"

definition Has :: "u8 list \<Rightarrow> nat \<Rightarrow> nat \<Rightarrow> bool" where
  "Has bs off n \<longleftrightarrow> off \<le> length bs \<and> n \<le> length bs - off"

section \<open>Reading back\<close>

lemma le_value_less: "le_value bs < 256 ^ length bs"
proof (induction bs)
  case (Cons b bs)
  have "unat b < 256" using unsigned_less [of b] by simp
  with Cons show ?case by simp
qed simp

lemma length_le_bytes [simp]: "length (le_bytes w n) = w"
  by (induction w arbitrary: n) auto

lemma le_value_le_bytes: "le_value (le_bytes w n) = n mod 256 ^ w"
proof (induction w arbitrary: n)
  case (Suc w)
  have "unat (of_nat n :: u8) = n mod 256" by (simp add: unat_of_nat)
  then show ?case using Suc by (simp add: mod_mult2_eq)
qed simp

lemma le_value_round [simp]: "n < 256 ^ w \<Longrightarrow> le_value (le_bytes w n) = n"
  by (simp add: le_value_le_bytes)

lemma le_bytes_le_value: "le_bytes (length bs) (le_value bs) = bs"
proof (induction bs)
  case (Cons b bs)
  have b: "unat b < 256" using unsigned_less [of b] by simp
  have z: "(of_nat 256 :: u8) = 0" "(of_nat (unat b) :: u8) = b" by simp_all
  have "(of_nat (unat b + 256 * le_value bs) :: u8) = b"
    by (simp only: of_nat_add of_nat_mult z mult_zero_left add_0_right)
  then show ?case using Cons b by simp
qed simp

lemma sub_bytes_append: "off + n \<le> length bs \<Longrightarrow> sub_bytes off n (bs @ junk) = sub_bytes off n bs"
  by (simp add: sub_bytes_def)

lemma sub_bytes_twice: "off + n \<le> len \<Longrightarrow> sub_bytes off n (sub_bytes o2 len bs) = sub_bytes (o2 + off) n bs"
  by (simp add: sub_bytes_def take_drop min_def add.commute)

lemma sub_bytes_at [simp]: "sub_bytes (length xs) (length ys) (xs @ ys @ zs) = ys"
  by (simp add: sub_bytes_def)

lemma length_sub_bytes: "off + n \<le> length bs \<Longrightarrow> length (sub_bytes off n bs) = n"
  by (simp add: sub_bytes_def)

lemma read_uint_less: "off + w \<le> length bs \<Longrightarrow> read_uint w bs off < 256 ^ w"
  using le_value_less [of "sub_bytes off w bs"] by (simp add: read_uint_def length_sub_bytes)

lemma read_uint_bound: "read_uint w bs off < 256 ^ w"
proof -
  have "length (sub_bytes off w bs) \<le> w" by (simp add: sub_bytes_def)
  then have "(256 :: nat) ^ length (sub_bytes off w bs) \<le> 256 ^ w" by (rule power_increasing) simp
  then show ?thesis
    using le_value_less [of "sub_bytes off w bs"] unfolding read_uint_def by (rule less_le_trans [rotated])
qed

named_theorems read_local \<open>reads depend on the bytes they cover only\<close>

lemma read_append [read_local]:
  "off + w \<le> length bs \<Longrightarrow> read_uint w (bs @ junk) off = read_uint w bs off"
  "off + w \<le> length bs \<Longrightarrow> read_sint w (bs @ junk) off = read_sint w bs off"
  "off + w \<le> length bs \<Longrightarrow> (read_word w (bs @ junk) off :: 'a::len word) = read_word w bs off"
  "off + 8 \<le> length bs \<Longrightarrow> read_double (bs @ junk) off = read_double bs off"
  "off + 4 \<le> length bs \<Longrightarrow> read_float (bs @ junk) off = read_float bs off"
  "off + 24 \<le> length bs \<Longrightarrow> read_vec (bs @ junk) off = read_vec bs off"
  "off + w \<le> length bs \<Longrightarrow> ReadText (bs @ junk) off w = ReadText bs off w"
  by (simp_all add: read_uint_def read_sint_def read_word_def read_double_def read_float_def
      read_vec_def ReadText_def sub_bytes_append)

lemma Has_iff: "Has bs off n \<longleftrightarrow> off + n \<le> length bs"
  by (auto simp: Has_def)

lemma chars_of_bytes_of [simp]: "chars_of (bytes_of s) = s"
proof -
  have "char_of (unat (of_nat (of_char c) :: u8)) = (c :: char)" for c
  proof -
    have "(of_char c :: nat) < 256" using nat_of_char_less_256 [of c] by simp
    then show ?thesis by (simp add: unat_of_nat)
  qed
  then show ?thesis by (simp add: chars_of_def bytes_of_def o_def)
qed

lemma length_bytes_of [simp]: "length (bytes_of s) = length s"
  by (simp add: bytes_of_def)

lemma to_signed_range:
  assumes "0 < w" "n < 256 ^ w"
  shows "- (2 ^ (8 * w - 1)) \<le> to_signed w n" "to_signed w n < 2 ^ (8 * w - 1)"
proof -
  have two: "(2 :: int) ^ (8 * w) = 2 * 2 ^ (8 * w - 1)" using assms(1) by (simp flip: power_Suc)
  have "(256 :: int) ^ w = 2 ^ (8 * w)" by (simp add: power_mult)
  moreover have "int n < 256 ^ w" using assms(2) by (metis of_nat_less_iff of_nat_numeral of_nat_power)
  ultimately have n: "int n < 2 ^ (8 * w)" by simp
  have half: "n < 2 ^ (8 * w - 1) \<longleftrightarrow> int n < 2 ^ (8 * w - 1)"
    by (metis of_nat_less_iff of_nat_numeral of_nat_power)
  show "- (2 ^ (8 * w - 1)) \<le> to_signed w n" "to_signed w n < 2 ^ (8 * w - 1)"
    unfolding to_signed_def half using n two by auto
qed

lemma bits_fl_values:
  "bits_fl 11 52 0 = F_Fin 0" "bits_fl 11 52 4607182418800017408 = F_Fin 1"
  "bits_fl 11 52 4591870180066957722 = F_Fin (3602879701896397 / 36028797018963968)"
  "bits_fl 8 23 1048576000 = F_Fin (1 / 4)" "bits_fl 11 52 18446744073709551615 = F_NaN"
  by (simp_all add: bits_fl_def Let_def)

end
