(* ===== verification/Las_Format.thy ===== *)
theory Las_Format
  imports Byte_Codec Point_Cloud
begin

text \<open>
  The LAS layout (\<^verbatim>\<open>Las.h\<close>, \<^verbatim>\<open>LasInternal.h\<close>, \<^verbatim>\<open>LasFormat.cpp\<close>): tables of formats and
  sizes, the public header block, variable-length records, and Extra Bytes layouts.  Fields of
  one to eight bytes are natural numbers below their width.  An operation that can fail returns
  \<open>Inl\<close> the error text of the code or \<open>Inr\<close> its result.
\<close>

section \<open>Headers\<close>

record LasVariableLengthRecord =
  userId :: string
  recordId :: nat
  description :: string
  vlr_data :: "u8 list"
  isExtended :: bool

record LasGeoTiffKey =
  keyId :: nat
  tiffTagLocation :: nat
  key_count :: nat
  valueOffset :: nat

record LasGeoTiffMetadata =
  keyDirectoryVersion :: nat
  keyRevision :: nat
  minorRevision :: nat
  keys :: "LasGeoTiffKey list"
  doubleParameters :: "fl list"
  asciiParameters :: string

record LasExtraBytesDescriptor =
  dataType :: nat
  eb_options :: nat
  eb_name :: string
  noData :: Vec3d
  eb_minimum :: Vec3d
  eb_maximum :: Vec3d
  eb_scale :: Vec3d
  eb_offset :: Vec3d
  eb_description :: string

record LasHeader =
  versionMajor :: nat
  versionMinor :: nat
  headerSize :: nat
  pointDataOffset :: nat
  pointFormat :: nat
  pointRecordLength :: nat
  las_pointCount :: nat
  xScale :: fl
  yScale :: fl
  zScale :: fl
  xOffset :: fl
  yOffset :: fl
  zOffset :: fl
  las_bounds :: SpatialBounds
  variableLengthRecordCount :: nat
  firstExtendedVariableLengthRecordOffset :: nat
  extendedVariableLengthRecordCount :: nat
  variableLengthRecords :: "LasVariableLengthRecord list"
  crsWkt :: string
  geoTiffMetadata :: "LasGeoTiffMetadata option"
  las_epsgCode :: "nat option"
  las_extraBytes :: "LasExtraBytesDescriptor list"

definition empty_header :: LasHeader where
  "empty_header = \<lparr>versionMajor = 0, versionMinor = 0, headerSize = 0, pointDataOffset = 0,
     pointFormat = 0, pointRecordLength = 0, las_pointCount = 0, xScale = fzero, yScale = fzero,
     zScale = fzero, xOffset = fzero, yOffset = fzero, zOffset = fzero,
     las_bounds = SpatialBounds_Empty, variableLengthRecordCount = 0,
     firstExtendedVariableLengthRecordOffset = 0, extendedVariableLengthRecordCount = 0,
     variableLengthRecords = [], crsWkt = [], geoTiffMetadata = None, las_epsgCode = None,
     las_extraBytes = []\<rparr>"

definition LasHeader_IsValid :: "LasHeader \<Rightarrow> bool" where
  "LasHeader_IsValid h \<longleftrightarrow>
     versionMajor h = 1 \<and> 2 \<le> versionMinor h \<and> versionMinor h \<le> 4 \<and>
     0 < headerSize h \<and> 0 < pointRecordLength h \<and>
     is_finite (xScale h) \<and> is_finite (yScale h) \<and> is_finite (zScale h) \<and>
     \<not> feq (xScale h) fzero \<and> \<not> feq (yScale h) fzero \<and> \<not> feq (zScale h) fzero \<and>
     SpatialBounds_IsValid (las_bounds h)"

section \<open>Tables\<close>

definition IsSupportedFormat :: "nat \<Rightarrow> bool" where
  "IsSupportedFormat f \<longleftrightarrow> f \<le> 5 \<or> (6 \<le> f \<and> f \<le> 10)"

definition IsSupportedFormatForVersion :: "nat \<Rightarrow> nat \<Rightarrow> bool" where
  "IsSupportedFormatForVersion v f =
     (if \<not> IsSupportedFormat f then False
      else if f = 4 \<or> f = 5 then v = 3 \<or> v = 4
      else f < 6 \<or> v = 4)"

definition CodeForError :: "string \<Rightarrow> DiagnosticCode" where
  "CodeForError e =
     (if e = ''LAS header is missing or has an invalid signature'' then InvalidSignature
      else if e = ''unsupported LAS version'' then UnsupportedVersion
      else if e = ''unsupported LAS point format'' then UnsupportedPointFormat
      else if e = ''LAS header offsets are invalid'' \<or>
              e = ''LAS extended variable-length record offset is invalid'' then InvalidOffset
      else if e = ''LAS point record length is too small for its format'' then InvalidRecordLength
      else if e = ''LAS variable-length record header is truncated'' \<or>
              e = ''LAS 1.4 extended point count is missing'' then TruncatedHeader
      else if e = ''LAS variable-length record data is truncated'' then TruncatedRecord
      else if e = ''LAS GeoTIFF key directory is truncated'' \<or>
              e = ''LAS GeoTIFF double parameters are truncated'' then InvalidCrs
      else if e = ''LAS GeoTIFF CRS keys conflict'' \<or> e = ''LAS CRS definitions conflict'' then ConflictingCrs
      else if e = ''LAS Extra Bytes VLR has an invalid length'' then InvalidRecordLength
      else if e = ''LAS point record length does not match Extra Bytes descriptors'' then InvalidRecordLength
      else if e = ''unsupported LAS Extra Bytes data type'' then UnsupportedExtraBytesType
      else if e = ''decoded LAS point contains a non-finite coordinate'' then NonFiniteCoordinate
      else if e = ''decoded LAS point contains a non-finite Extra Bytes value'' then NonFiniteExtraBytes
      else DecodeFailure)"

definition error_diagnostic :: "string \<Rightarrow> Diagnostic" where
  "error_diagnostic e = error_diag (CodeForError e) e"

definition MinimumHeaderSize :: "nat \<Rightarrow> nat" where
  "MinimumHeaderSize v = (if v = 2 then 227 else if v = 3 then 235 else if v = 4 then 375 else 0)"

definition MinimumRecordLength :: "nat \<Rightarrow> nat" where
  "MinimumRecordLength f = (if f = 0 then 20 else if f = 1 then 28 else if f = 2 then 26
     else if f = 3 then 34 else if f = 4 then 57 else if f = 5 then 63 else if f = 6 then 30
     else if f = 7 then 36 else if f = 8 then 38 else if f = 9 then 59 else if f = 10 then 67 else 0)"

definition scalar_type :: "nat \<Rightarrow> nat" where
  "scalar_type t = (if 11 \<le> t \<and> t \<le> 30 then (t - 1) mod 10 + 1 else t)"

definition ExtraByteScalarSize :: "nat \<Rightarrow> nat" where
  "ExtraByteScalarSize t0 =
     (let t = scalar_type t0 in
      if t = 1 \<or> t = 2 then 1 else if t = 3 \<or> t = 4 then 2 else if t = 5 \<or> t = 6 \<or> t = 9 then 4
      else if t = 7 \<or> t = 8 \<or> t = 10 then 8 else 0)"

definition ExtraByteComponentCount :: "nat \<Rightarrow> nat" where
  "ExtraByteComponentCount t =
     (if 1 \<le> t \<and> t \<le> 10 then 1 else if 11 \<le> t \<and> t \<le> 20 then 2
      else if 21 \<le> t \<and> t \<le> 30 then 3 else 0)"

definition descriptor_size :: "LasExtraBytesDescriptor \<Rightarrow> nat" where
  "descriptor_size d = ExtraByteScalarSize (dataType d) * ExtraByteComponentCount (dataType d)"

fun extra_size :: "LasExtraBytesDescriptor list \<Rightarrow> nat \<Rightarrow> string + nat" where
  "extra_size [] n = Inr n"
| "extra_size (d # ds) n =
     (if ExtraByteScalarSize (dataType d) = 0 \<or> ExtraByteComponentCount (dataType d) = 0
      then Inl ''unsupported LAS Extra Bytes data type''
      else if u64_max - descriptor_size d < n then Inl ''LAS Extra Bytes layout is too large''
      else extra_size ds (n + descriptor_size d))"

definition ValidateExtraBytesLayout :: "LasHeader \<Rightarrow> string option" where
  "ValidateExtraBytesLayout h =
     (case extra_size (las_extraBytes h) 0 of
        Inl e \<Rightarrow> Some e
      | Inr n \<Rightarrow>
        if u64_max - n < MinimumRecordLength (pointFormat h) \<or>
           pointRecordLength h \<noteq> MinimumRecordLength (pointFormat h) + n
        then Some ''LAS point record length does not match Extra Bytes descriptors'' else None)"

definition ReadExtraByteScalar :: "u8 list \<Rightarrow> nat \<Rightarrow> nat \<Rightarrow> fl" where
  "ReadExtraByteScalar r off t0 =
     (let t = scalar_type t0 in
      if t = 1 then fof_int binary64 (int (read_uint 1 r off))
      else if t = 2 then fof_int binary64 (read_sint 1 r off)
      else if t = 3 then fof_int binary64 (int (read_uint 2 r off))
      else if t = 4 then fof_int binary64 (read_sint 2 r off)
      else if t = 5 then fof_int binary64 (int (read_uint 4 r off))
      else if t = 6 then fof_int binary64 (read_sint 4 r off)
      else if t = 7 then fof_int binary64 (int (read_uint 8 r off))
      else if t = 8 then fof_int binary64 (read_sint 8 r off)
      else if t = 9 then read_float r off
      else if t = 10 then read_double r off
      else fzero)"

section \<open>Variable-length records\<close>

definition record_header_length :: "bool \<Rightarrow> nat" where
  "record_header_length extended = (if extended then 60 else 54)"

definition read_record_length :: "u8 list \<Rightarrow> nat \<Rightarrow> bool \<Rightarrow> nat" where
  "read_record_length bs off extended = (if extended then read_uint 8 bs (off + 20) else read_uint 2 bs (off + 20))"

definition read_record :: "u8 list \<Rightarrow> nat \<Rightarrow> bool \<Rightarrow> LasVariableLengthRecord" where
  "read_record bs off extended =
     \<lparr>userId = ReadText bs (off + 2) 16, recordId = read_uint 2 bs (off + 18),
      description = ReadText bs (off + (if extended then 28 else 22)) 32,
      vlr_data = sub_bytes (off + record_header_length extended) (read_record_length bs off extended) bs,
      isExtended = extended\<rparr>"

fun ReadRecords :: "u8 list \<Rightarrow> nat \<Rightarrow> nat \<Rightarrow> bool \<Rightarrow> string + LasVariableLengthRecord list" where
  "ReadRecords bs off 0 extended = Inr []"
| "ReadRecords bs off (Suc n) extended =
     (let hl = record_header_length extended; len = read_record_length bs off extended in
      if \<not> Has bs off hl then Inl ''LAS variable-length record header is truncated''
      else if length bs - (off + hl) < len then Inl ''LAS variable-length record data is truncated''
      else case ReadRecords bs (off + hl + len) n extended of
        Inl e \<Rightarrow> Inl e
      | Inr rs \<Rightarrow> Inr (read_record bs off extended # rs))"

section \<open>The public header block\<close>

definition header_counts :: "u8 list \<Rightarrow> LasHeader \<Rightarrow> LasHeader" where
  "header_counts bs h =
     (if versionMinor h = 4
      then h\<lparr>las_pointCount := read_uint 8 bs 247,
             firstExtendedVariableLengthRecordOffset := read_uint 8 bs 235,
             extendedVariableLengthRecordCount := read_uint 4 bs 243\<rparr>
      else h\<lparr>las_pointCount := read_uint 4 bs 107\<rparr>)"

definition header_geometry :: "u8 list \<Rightarrow> LasHeader \<Rightarrow> LasHeader" where
  "header_geometry bs h =
     h\<lparr>xScale := read_double bs 131, yScale := read_double bs 139, zScale := read_double bs 147,
       xOffset := read_double bs 155, yOffset := read_double bs 163, zOffset := read_double bs 171,
       las_bounds := bounds_of
         (vec (read_double bs 187) (read_double bs 203) (read_double bs 219))
         (vec (read_double bs 179) (read_double bs 195) (read_double bs 211))\<rparr>"

definition header_layout :: "u8 list \<Rightarrow> LasHeader" where
  "header_layout bs =
     empty_header\<lparr>versionMajor := read_uint 1 bs 24, versionMinor := read_uint 1 bs 25,
       headerSize := read_uint 2 bs 94, pointDataOffset := read_uint 4 bs 96,
       variableLengthRecordCount := read_uint 4 bs 100,
       pointFormat := read_uint 1 bs 104 mod 64, pointRecordLength := read_uint 2 bs 105\<rparr>"

definition InspectHeader :: "u8 list \<Rightarrow> string + LasHeader" where
  "InspectHeader bs =
     (let h = header_layout bs; h' = header_geometry bs (header_counts bs h) in
      if \<not> Has bs 0 227 \<or> take 4 bs \<noteq> bytes_of ''LASF''
      then Inl ''LAS header is missing or has an invalid signature''
      else if read_uint 1 bs 104 div 64 = 3
      then Inl ''LAS point format uses unsupported compression flags''
      else if versionMajor h \<noteq> 1 \<or> versionMinor h < 2 \<or> 4 < versionMinor h
      then Inl ''unsupported LAS version''
      else if \<not> IsSupportedFormatForVersion (versionMinor h) (pointFormat h)
      then Inl ''unsupported LAS point format''
      else if headerSize h < MinimumHeaderSize (versionMinor h) \<or> pointDataOffset h < headerSize h \<or>
              \<not> Has bs 0 (headerSize h)
      then Inl ''LAS header offsets are invalid''
      else if versionMinor h = 4 \<and> \<not> Has bs 247 8
      then Inl ''LAS 1.4 extended point count is missing''
      else if \<not> LasHeader_IsValid h'
      then Inl ''LAS header contains invalid scales, offsets, or bounds''
      else if pointRecordLength h' < MinimumRecordLength (pointFormat h')
      then Inl ''LAS point record length is too small for its format''
      else Inr h')"

definition InspectHeader_diagnostics :: "u8 list \<Rightarrow> Diagnostic list + LasHeader" where
  "InspectHeader_diagnostics bs =
     (case InspectHeader bs of Inr h \<Rightarrow> Inr h | Inl e \<Rightarrow> Inl [error_diagnostic e])"

definition InspectRecords :: "u8 list \<Rightarrow> nat \<Rightarrow> nat \<Rightarrow> bool \<Rightarrow> Diagnostic list + LasVariableLengthRecord list" where
  "InspectRecords bs off n extended =
     (case ReadRecords bs off n extended of
        Inr rs \<Rightarrow> Inr rs
      | Inl e \<Rightarrow> Inl [error_diagnostic e\<lparr>byteOffset := Some off\<rparr>])"

section \<open>Accepted headers\<close>

lemma MinimumHeaderSize_ge: "2 \<le> v \<Longrightarrow> v \<le> 4 \<Longrightarrow> 227 \<le> MinimumHeaderSize v"
  by (auto simp: MinimumHeaderSize_def)

lemma MinimumHeaderSize_4: "MinimumHeaderSize 4 = 375"
  by (simp add: MinimumHeaderSize_def)

lemma header_reads_local:
  assumes "227 \<le> length bs"
  shows "header_layout (bs @ junk) = header_layout bs"
    "header_geometry (bs @ junk) h = header_geometry bs h"
    "read_uint 1 (bs @ junk) 104 = read_uint 1 bs 104" "take 4 (bs @ junk) = take 4 bs"
  using assms by (simp_all add: header_layout_def header_geometry_def read_local)

lemma header_counts_local:
  assumes "227 \<le> length bs" "versionMinor h = 4 \<Longrightarrow> 375 \<le> length bs"
  shows "header_counts (bs @ junk) h = header_counts bs h"
  using assms by (auto simp: header_counts_def read_local)

definition header_ok :: "LasHeader \<Rightarrow> bool" where
  "header_ok h \<longleftrightarrow> LasHeader_IsValid h \<and> IsSupportedFormatForVersion (versionMinor h) (pointFormat h) \<and>
     MinimumHeaderSize (versionMinor h) \<le> headerSize h \<and> headerSize h \<le> pointDataOffset h \<and>
     MinimumRecordLength (pointFormat h) \<le> pointRecordLength h"

lemma header_fields:
  "versionMinor (header_geometry bs (header_counts bs h)) = versionMinor h"
  "versionMajor (header_geometry bs (header_counts bs h)) = versionMajor h"
  "headerSize (header_geometry bs (header_counts bs h)) = headerSize h"
  "pointDataOffset (header_geometry bs (header_counts bs h)) = pointDataOffset h"
  "pointFormat (header_geometry bs (header_counts bs h)) = pointFormat h"
  "pointRecordLength (header_geometry bs (header_counts bs h)) = pointRecordLength h"
  by (simp_all add: header_geometry_def header_counts_def)

lemma InspectHeader_accepted:
  assumes "InspectHeader bs = Inr h"
  shows "header_ok h" "headerSize h \<le> length bs" "227 \<le> length bs" "versionMinor h = 4 \<Longrightarrow> 375 \<le> length bs"
    "InspectHeader (bs @ junk) = Inr h"
proof -
  let ?h = "header_layout bs"
  have ok: "Has bs 0 227" "take 4 bs = bytes_of ''LASF''" "read_uint 1 bs 104 div 64 \<noteq> 3"
    "\<not> (versionMajor ?h \<noteq> 1 \<or> versionMinor ?h < 2 \<or> 4 < versionMinor ?h)"
    "IsSupportedFormatForVersion (versionMinor ?h) (pointFormat ?h)"
    "\<not> (headerSize ?h < MinimumHeaderSize (versionMinor ?h) \<or> pointDataOffset ?h < headerSize ?h \<or>
        \<not> Has bs 0 (headerSize ?h))"
    "LasHeader_IsValid h" "\<not> pointRecordLength h < MinimumRecordLength (pointFormat h)"
    and h: "h = header_geometry bs (header_counts bs ?h)"
    using assms by (auto simp: InspectHeader_def Let_def split: if_split_asm)
  show len: "227 \<le> length bs" using ok(1) by (simp add: Has_iff)
  show "header_ok h" "headerSize h \<le> length bs"
    using ok by (auto simp: header_ok_def h header_fields Has_iff)
  have v4: "375 \<le> length bs" if "versionMinor ?h = 4"
    using ok(6) that by (simp add: MinimumHeaderSize_4 Has_iff)
  then show "versionMinor h = 4 \<Longrightarrow> 375 \<le> length bs" by (simp add: h header_fields)
  have c: "header_counts (bs @ junk) ?h = header_counts bs ?h"
    using v4 by (intro header_counts_local [OF len]) auto
  have "Has (bs @ junk) 0 227" "Has (bs @ junk) 0 (headerSize ?h)"
    "\<not> (versionMinor ?h = 4 \<and> \<not> Has (bs @ junk) 247 8)"
    using ok(1,6) v4 by (auto simp: Has_iff)
  then show "InspectHeader (bs @ junk) = Inr h"
    unfolding InspectHeader_def header_reads_local [OF len] c Let_def h [symmetric]
    using ok(2-8) by auto
qed


definition double_one :: "u8 list" where
  "double_one = le_bytes 8 4607182418800017408"

definition double_zero :: "u8 list" where
  "double_zero = le_bytes 8 0"

definition sample_header_bytes :: "u8 list" where
  "sample_header_bytes =
     bytes_of ''LASF'' @ replicate 20 0 @ le_bytes 1 1 @ le_bytes 1 2 @ replicate 68 0 @
     le_bytes 2 227 @ le_bytes 4 227 @ le_bytes 4 0 @ le_bytes 1 0 @ le_bytes 2 20 @ le_bytes 4 5 @
     replicate 20 0 @ double_one @ double_one @ double_one @ double_zero @ double_zero @ double_zero @
     double_one @ double_zero @ double_one @ double_zero @ double_one @ double_zero"

lemma length_doubles [simp]: "length double_one = 8" "length double_zero = 8"
  by (simp_all add: double_one_def double_zero_def)

lemma sample_header_fields:
  "read_uint 1 sample_header_bytes 24 = 1" "read_uint 1 sample_header_bytes 25 = 2"
  "read_uint 2 sample_header_bytes 94 = 227" "read_uint 4 sample_header_bytes 96 = 227"
  "read_uint 4 sample_header_bytes 100 = 0" "read_uint 1 sample_header_bytes 104 = 0"
  "read_uint 2 sample_header_bytes 105 = 20" "read_uint 4 sample_header_bytes 107 = 5"
  by (simp_all add: read_uint_def sub_bytes_def sample_header_bytes_def)

lemma sample_header_doubles:
  "read_double sample_header_bytes 131 = F_Fin 1" "read_double sample_header_bytes 139 = F_Fin 1"
  "read_double sample_header_bytes 147 = F_Fin 1" "read_double sample_header_bytes 155 = F_Fin 0"
  "read_double sample_header_bytes 163 = F_Fin 0" "read_double sample_header_bytes 171 = F_Fin 0"
  "read_double sample_header_bytes 179 = F_Fin 1" "read_double sample_header_bytes 187 = F_Fin 0"
  "read_double sample_header_bytes 195 = F_Fin 1" "read_double sample_header_bytes 203 = F_Fin 0"
  "read_double sample_header_bytes 211 = F_Fin 1" "read_double sample_header_bytes 219 = F_Fin 0"
  by (simp_all add: read_double_def read_uint_def sub_bytes_def sample_header_bytes_def double_one_def
      double_zero_def bits_fl_values)

definition sample_header :: LasHeader where
  "sample_header = empty_header\<lparr>versionMajor := 1, versionMinor := 2, headerSize := 227,
     pointDataOffset := 227, pointFormat := 0, pointRecordLength := 20, las_pointCount := 5,
     xScale := F_Fin 1, yScale := F_Fin 1, zScale := F_Fin 1, xOffset := F_Fin 0, yOffset := F_Fin 0,
     zOffset := F_Fin 0, las_bounds := bounds_of (vec (F_Fin 0) (F_Fin 0) (F_Fin 0)) (vec (F_Fin 1) (F_Fin 1) (F_Fin 1))\<rparr>"

lemma sample_header_inspected: "InspectHeader sample_header_bytes = Inr sample_header"
proof -
  have "length sample_header_bytes = 227" "take 4 sample_header_bytes = bytes_of ''LASF''"
    by (simp_all add: sample_header_bytes_def)
  then show ?thesis
    by (simp add: InspectHeader_def header_layout_def header_geometry_def header_counts_def empty_header_def
        sample_header_fields [simplified] sample_header_doubles sample_header_def Has_def
        IsSupportedFormatForVersion_def IsSupportedFormat_def MinimumHeaderSize_def MinimumRecordLength_def
        LasHeader_IsValid_def SpatialBounds_IsValid_def Let_def)
qed


section \<open>Records are read back\<close>

definition pad_to :: "nat \<Rightarrow> u8 list \<Rightarrow> u8 list" where
  "pad_to n bs = bs @ replicate (n - length bs) 0"

definition encode_record :: "LasVariableLengthRecord \<Rightarrow> u8 list" where
  "encode_record r =
     [0, 0] @ pad_to 16 (bytes_of (userId r)) @ le_bytes 2 (recordId r) @
     le_bytes (if isExtended r then 8 else 2) (length (vlr_data r)) @
     pad_to 32 (bytes_of (description r)) @ vlr_data r"

definition plain_text :: "nat \<Rightarrow> string \<Rightarrow> bool" where
  "plain_text n s \<longleftrightarrow> length s \<le> n \<and> CHR 0x00 \<notin> set s"

definition encodable_record :: "bool \<Rightarrow> LasVariableLengthRecord \<Rightarrow> bool" where
  "encodable_record extended r \<longleftrightarrow> plain_text 16 (userId r) \<and> plain_text 32 (description r) \<and>
     recordId r < 256 ^ 2 \<and> length (vlr_data r) < 256 ^ (if extended then 8 else 2) \<and> isExtended r = extended"

lemma sub_bytes_within:
  "k + w \<le> length e \<Longrightarrow> sub_bytes (length pre + k) w (pre @ e @ post) = sub_bytes k w e"
  by (simp add: sub_bytes_def)

lemma length_pad_to [simp]: "length bs \<le> n \<Longrightarrow> length (pad_to n bs) = n"
  by (simp add: pad_to_def)

lemma byte_of_char_0: "(of_nat (of_char c) :: u8) = 0 \<longleftrightarrow> c = CHR 0x00"
proof
  assume "(of_nat (of_char c) :: u8) = 0"
  then have "unat (of_nat (of_char c) :: u8) = 0" by simp
  then have "(of_char c :: nat) = 0" using nat_of_char_less_256 [of c] by (simp add: unat_of_nat)
  then have "(of_char c :: nat) = of_char (CHR 0x00)" by simp
  then show "c = CHR 0x00" by (simp only: of_char_eq_iff)
qed simp

lemma text_padded:
  assumes "plain_text n s"
  shows "chars_of (takeWhile (\<lambda>b. b \<noteq> 0) (pad_to n (bytes_of s))) = s"
proof -
  have "\<forall>b \<in> set (bytes_of s). b \<noteq> 0"
    using assms byte_of_char_0 by (auto simp: bytes_of_def plain_text_def)
  then have "takeWhile (\<lambda>b. b \<noteq> 0) (bytes_of s @ replicate k 0) = bytes_of s" for k
    by (cases k) (simp_all add: takeWhile_append2)
  then show ?thesis by (simp add: pad_to_def)
qed

lemma length_encode_record:
  "encodable_record x r \<Longrightarrow> length (encode_record r) = record_header_length x + length (vlr_data r)"
  by (simp add: encode_record_def encodable_record_def plain_text_def record_header_length_def)

lemma encoded_fields:
  assumes "encodable_record x r"
  shows "sub_bytes 2 16 (encode_record r) = pad_to 16 (bytes_of (userId r))"
    "sub_bytes 18 2 (encode_record r) = le_bytes 2 (recordId r)"
    "sub_bytes 20 (if x then 8 else 2) (encode_record r) = le_bytes (if x then 8 else 2) (length (vlr_data r))"
    "sub_bytes (if x then 28 else 22) 32 (encode_record r) = pad_to 32 (bytes_of (description r))"
    "sub_bytes (record_header_length x) (length (vlr_data r)) (encode_record r) = vlr_data r"
  using assms
  by (auto simp: encodable_record_def plain_text_def encode_record_def sub_bytes_def record_header_length_def)

lemma read_encoded_record:
  assumes "encodable_record x r"
  assumes bs: "bs = pre @ encode_record r @ post"
  shows "read_record_length bs (length pre) x = length (vlr_data r)" "read_record bs (length pre) x = r"
proof -
  note len = length_encode_record [OF assms(1)]
  have within: "sub_bytes (length pre + k) w bs = sub_bytes k w (encode_record r)"
    if "k + w \<le> record_header_length x + length (vlr_data r)" for k w
    unfolding bs using that len by (intro sub_bytes_within) simp
  have r: "recordId r < 256 ^ 2" "length (vlr_data r) < 256 ^ (if x then 8 else 2)" "isExtended r = x"
    "plain_text 16 (userId r)" "plain_text 32 (description r)"
    using assms(1) by (simp_all add: encodable_record_def)
  have hl: "54 \<le> record_header_length x" "x \<Longrightarrow> record_header_length x = 60"
    by (simp_all add: record_header_length_def)
  show l: "read_record_length bs (length pre) x = length (vlr_data r)"
    using within [of 20 "if x then 8 else 2"] encoded_fields(3) [OF assms(1)] r(2) hl
    by (cases x) (simp_all add: read_record_length_def read_uint_def)
  have "userId (read_record bs (length pre) x) = userId r"
    using within [of 2 16] hl text_padded [OF r(4)] encoded_fields(1) [OF assms(1)]
    by (simp add: read_record_def ReadText_def)
  moreover have "recordId (read_record bs (length pre) x) = recordId r"
    using within [of 18 2] hl r(1) encoded_fields(2) [OF assms(1)]
    by (simp add: read_record_def read_uint_def)
  moreover have "description (read_record bs (length pre) x) = description r"
    using within [of "if x then 28 else 22" 32] hl text_padded [OF r(5)] encoded_fields(4) [OF assms(1)]
    by (cases x) (simp_all add: read_record_def ReadText_def)
  moreover have "vlr_data (read_record bs (length pre) x) = vlr_data r"
    using within [of "record_header_length x" "length (vlr_data r)"] encoded_fields(5) [OF assms(1)]
    by (simp add: read_record_def l)
  ultimately show "read_record bs (length pre) x = r" using r(3) by (simp add: read_record_def)
qed

lemma ReadRecords_encoded:
  "list_all (encodable_record x) rs \<Longrightarrow>
   ReadRecords (pre @ concat (map encode_record rs) @ post) (length pre) (length rs) x = Inr rs"
proof (induction rs arbitrary: pre)
  case (Cons r rs)
  let ?rest = "concat (map encode_record rs) @ post"
  have r: "encodable_record x r" using Cons.prems by simp
  note len = length_encode_record [OF r] and read = read_encoded_record [OF r refl, of pre ?rest]
  have "ReadRecords (pre @ encode_record r @ ?rest) (length pre + record_header_length x + length (vlr_data r))
      (length rs) x = Inr rs"
    using Cons.IH [of "pre @ encode_record r"] Cons.prems by (simp add: len add.assoc)
  then show ?case using read by (simp add: Let_def Has_iff len)
qed simp

text \<open>
  Claim C32: Variable-length records laid out as the format prescribes, with 54-byte headers or
  with 60-byte extended ones, are read back exactly and in order, wherever they start in the
  buffer and whatever follows them.
\<close>

theorem records_read_back:
  assumes "list_all (encodable_record extended) rs"
  shows "InspectRecords (pre @ concat (map encode_record rs) @ post) (length pre) (length rs) extended = Inr rs"
  using ReadRecords_encoded [OF assms] by (simp add: InspectRecords_def)

definition sample_record :: LasVariableLengthRecord where
  "sample_record = \<lparr>userId = ''LASF_Spec'', recordId = 4, description = ''extra'', vlr_data = [1, 2, 3],
     isExtended = False\<rparr>"

theorem records_read_back_witness:
  "InspectRecords ([7, 7] @ encode_record sample_record @ encode_record sample_record @ [9]) 2 2 False =
     Inr [sample_record, sample_record]"
  using records_read_back [of False "[sample_record, sample_record]" "[7, 7]" "[9]"]
  by (simp add: encodable_record_def sample_record_def plain_text_def numeral_2_eq_2)

end
