(* ===== verification/Las_Metadata.thy ===== *)
theory Las_Metadata
  imports Las_Format
begin

text \<open>
  The metadata of a LAS file (\<^verbatim>\<open>LasMetadata.cpp\<close>): the variable-length records that hold
  the coordinate reference system (as WKT text and as GeoTIFF keys), the EPSG code resolved from
  both, and the descriptors of the Extra Bytes.  A header that is being filled by a failing call
  is discarded by every caller, so a failure is just its message.

  \<^verbatim>\<open>wkt_code_is_own_authority\<close> states which EPSG code is taken from a WKT tree; what holds of
  accepted metadata is stated where files are read (\<^verbatim>\<open>file_metadata_is_buffer_metadata\<close> in
  \<^verbatim>\<open>Las_Reader\<close>).
\<close>

section \<open>Record selection\<close>

definition IsProjectionRecord :: "LasVariableLengthRecord \<Rightarrow> nat \<Rightarrow> bool" where
  "IsProjectionRecord r i \<longleftrightarrow> userId r = ''LASF_Projection'' \<and> recordId r = i"

definition IsExtraBytesRecord :: "LasVariableLengthRecord \<Rightarrow> bool" where
  "IsExtraBytesRecord r \<longleftrightarrow> userId r = ''LASF_Spec'' \<and> recordId r = 4"

definition trim_nuls :: "string \<Rightarrow> string" where
  "trim_nuls s = rev (dropWhile (\<lambda>c. c = CHR 0x00) (rev s))"

definition ExtractWktCrs :: "LasVariableLengthRecord list \<Rightarrow> string" where
  "ExtractWktCrs records =
     (case find (\<lambda>r. IsProjectionRecord r 2112) records of
        None \<Rightarrow> []
      | Some r \<Rightarrow> trim_nuls (chars_of (vlr_data r)))"

section \<open>GeoTIFF keys\<close>

definition geotiff_key :: "u8 list \<Rightarrow> nat \<Rightarrow> LasGeoTiffKey" where
  "geotiff_key data index =
     (let offset = 8 + index * 8 in
      \<lparr>keyId = read_uint 2 data offset, tiffTagLocation = read_uint 2 data (offset + 2),
       key_count = read_uint 2 data (offset + 4), valueOffset = read_uint 2 data (offset + 6)\<rparr>)"

definition parse_directory :: "u8 list \<Rightarrow> LasGeoTiffMetadata \<Rightarrow> string + LasGeoTiffMetadata" where
  "parse_directory data parsed =
     (if length data < 8 then Inl ''LAS GeoTIFF key directory is truncated''
      else if length data \<noteq> 8 + read_uint 2 data 6 * 8 then Inl ''LAS GeoTIFF key directory is truncated''
      else Inr (parsed\<lparr>keyDirectoryVersion := read_uint 2 data 0, keyRevision := read_uint 2 data 2,
             minorRevision := read_uint 2 data 4,
             keys := map (geotiff_key data) [0..<read_uint 2 data 6]\<rparr>))"

definition parse_doubles :: "u8 list \<Rightarrow> LasGeoTiffMetadata \<Rightarrow> string + LasGeoTiffMetadata" where
  "parse_doubles data parsed =
     (if length data mod 8 \<noteq> 0 then Inl ''LAS GeoTIFF double parameters are truncated''
      else Inr (parsed\<lparr>doubleParameters := map (\<lambda>i. read_double data (8 * i)) [0..<length data div 8]\<rparr>))"

definition empty_geotiff :: LasGeoTiffMetadata where
  "empty_geotiff = \<lparr>keyDirectoryVersion = 0, keyRevision = 0, minorRevision = 0, keys = [],
     doubleParameters = [], asciiParameters = []\<rparr>"

definition ParseGeoTiffRecords :: "LasVariableLengthRecord list \<Rightarrow> string + LasGeoTiffMetadata option" where
  "ParseGeoTiffRecords records =
     (let dir = find (\<lambda>r. IsProjectionRecord r 34735) records;
          dbl = find (\<lambda>r. IsProjectionRecord r 34736) records;
          asc = find (\<lambda>r. IsProjectionRecord r 34737) records
      in if dir = None \<and> dbl = None \<and> asc = None then Inr None
         else case (case dir of None \<Rightarrow> Inr empty_geotiff | Some r \<Rightarrow> parse_directory (vlr_data r) empty_geotiff) of
           Inl e \<Rightarrow> Inl e
         | Inr p1 \<Rightarrow> (case (case dbl of None \<Rightarrow> Inr p1 | Some r \<Rightarrow> parse_doubles (vlr_data r) p1) of
             Inl e \<Rightarrow> Inl e
           | Inr p2 \<Rightarrow> Inr (Some (case asc of None \<Rightarrow> p2
               | Some r \<Rightarrow> p2\<lparr>asciiParameters := trim_nuls (chars_of (vlr_data r))\<rparr>))))"

fun geotiff_codes :: "LasGeoTiffKey list \<Rightarrow> nat option \<Rightarrow> nat option \<Rightarrow> string + nat option" where
  "geotiff_codes [] projected geographic =
     Inr (case projected of Some v \<Rightarrow> Some v | None \<Rightarrow> geographic)"
| "geotiff_codes (k # ks) projected geographic =
     (if keyId k \<noteq> 2048 \<and> keyId k \<noteq> 3072 then geotiff_codes ks projected geographic
      else if tiffTagLocation k \<noteq> 0 \<or> valueOffset k = 0 then geotiff_codes ks projected geographic
      else let target = (if keyId k = 3072 then projected else geographic) in
        if target \<noteq> None \<and> target \<noteq> Some (valueOffset k) then Inl ''LAS GeoTIFF CRS keys conflict''
        else if keyId k = 3072 then geotiff_codes ks (Some (valueOffset k)) geographic
        else geotiff_codes ks projected (Some (valueOffset k)))"

definition GeoTiffEpsgCode :: "LasGeoTiffMetadata \<Rightarrow> string + nat option" where
  "GeoTiffEpsgCode metadata = geotiff_codes (keys metadata) None None"

section \<open>WKT\<close>

definition IsWktIdentifierCharacter :: "char \<Rightarrow> bool" where
  "IsWktIdentifierCharacter c \<longleftrightarrow>
     (65 \<le> (of_char c :: nat) \<and> (of_char c :: nat) \<le> 90) \<or> (97 \<le> (of_char c :: nat) \<and> (of_char c :: nat) \<le> 122) \<or>
     (48 \<le> (of_char c :: nat) \<and> (of_char c :: nat) \<le> 57) \<or> c = CHR ''_''"

definition find_from :: "string \<Rightarrow> string \<Rightarrow> nat \<Rightarrow> nat option" where
  \<comment> \<open>\<^verbatim>\<open>std::string::find\<close> of a non-empty pattern\<close>
  "find_from pat s off = find (\<lambda>i. sub_bytes i (length pat) s = pat) [off..<length s]"

definition is_code_separator :: "char \<Rightarrow> bool" where
  "is_code_separator c \<longleftrightarrow> c \<in> {CHR '' '', CHR 0x09, CHR 0x0D, CHR 0x0A, CHR '':'', CHR 0x22, CHR ''['', CHR '']'', CHR '',''}"

fun code_digits :: "nat \<Rightarrow> string \<Rightarrow> nat" where
  "code_digits v [] = v"
| "code_digits v (c # cs) =
     (if is_digit c then
        (let v' = v * 10 + digit_value c in if 2147483647 < v' then 0 else code_digits v' cs)
      else v)"

definition code_start :: "string \<Rightarrow> nat \<Rightarrow> nat \<Rightarrow> nat" where
  "code_start w off end = off + length (takeWhile is_code_separator (sub_bytes off (end - off) w))"

lemma find_from_ge: "find_from pat s off = Some m \<Longrightarrow> off \<le> m \<and> m < length s \<and> sub_bytes m (length pat) s = pat"
  by (auto simp: find_from_def find_Some_iff)

function ParseEpsgCodeInRange :: "string \<Rightarrow> nat \<Rightarrow> nat \<Rightarrow> nat option" where
  "ParseEpsgCodeInRange w off end =
     (if off < end then
        (case find_from ''EPSG'' w off of
           None \<Rightarrow> None
         | Some marker \<Rightarrow>
             if end \<le> marker then None
             else let off' = marker + 4; separator = code_start w off' end in
               if separator = off' \<or> end \<le> separator \<or> \<not> is_digit (w ! separator)
               then ParseEpsgCodeInRange w off' end
               else let v = code_digits 0 (sub_bytes separator (end - separator) w) in
                 if v \<noteq> 0 then Some v else ParseEpsgCodeInRange w off' end)
      else None)"
  by pat_completeness auto
termination by (relation "measure (\<lambda>(w, off, end). end - off)") (auto dest: find_from_ge)

declare ParseEpsgCodeInRange.simps [simp del]

fun bracket_end :: "string \<Rightarrow> nat \<Rightarrow> nat \<Rightarrow> bool \<Rightarrow> nat option" where
  "bracket_end [] index depth inString = None"
| "bracket_end (c # cs) index depth True =
     (if c = CHR 0x22 then
        (case cs of
           [] \<Rightarrow> None
         | c' # cs' \<Rightarrow> if c' = CHR 0x22 then bracket_end cs' (index + 2) depth True
                       else bracket_end cs (index + 1) depth False)
      else bracket_end cs (index + 1) depth True)"
| "bracket_end (c # cs) index depth False =
     (if c = CHR 0x22 then bracket_end cs (index + 1) depth True
      else if c = CHR ''['' then bracket_end cs (index + 1) (depth + 1) False
      else if c = CHR '']'' then
        (if depth = 0 then None else if depth - 1 = 0 then Some index
         else bracket_end cs (index + 1) (depth - 1) False)
      else bracket_end cs (index + 1) depth False)"

definition FindWktBracketEnd :: "string \<Rightarrow> nat \<Rightarrow> nat option" where
  "FindWktBracketEnd w openBracket = bracket_end (drop openBracket w) openBracket 0 False"

definition token_length :: "string \<Rightarrow> nat \<Rightarrow> nat" where
  "token_length w index =
     (if sub_bytes index 9 w = ''AUTHORITY'' then 9
      else if sub_bytes index 2 w = ''ID'' then 2 else 0)"

definition token_code :: "string \<Rightarrow> nat \<Rightarrow> nat \<Rightarrow> nat option" where
  \<comment> \<open>the code of the token at \<open>index\<close>; \<open>None\<close> where the loop continues\<close>
  "token_code w rootEnd index =
     (if index \<noteq> 0 \<and> IsWktIdentifierCharacter (w ! (index - 1)) then None
      else let n = token_length w index in
        if n = 0 then None
        else if index + n < rootEnd \<and> IsWktIdentifierCharacter (w ! (index + n)) then None
        else case find_from ''['' w (index + n) of
            None \<Rightarrow> None
          | Some openBracket \<Rightarrow>
              if rootEnd \<le> openBracket then None
              else case FindWktBracketEnd w openBracket of
                  None \<Rightarrow> None
                | Some tokenEnd \<Rightarrow>
                    if rootEnd < tokenEnd then None else ParseEpsgCodeInRange w index tokenEnd)"

fun scan_root :: "string \<Rightarrow> nat \<Rightarrow> string \<Rightarrow> nat \<Rightarrow> nat \<Rightarrow> bool \<Rightarrow> nat option" where
  "scan_root w rootEnd [] index depth inString = None"
| "scan_root w rootEnd (c # cs) index depth True =
     (if c = CHR 0x22 then
        (case cs of
           [] \<Rightarrow> None
         | c' # cs' \<Rightarrow> if c' = CHR 0x22 then scan_root w rootEnd cs' (index + 2) depth True
                       else scan_root w rootEnd cs (index + 1) depth False)
      else scan_root w rootEnd cs (index + 1) depth True)"
| "scan_root w rootEnd (c # cs) index depth False =
     (if c = CHR 0x22 then scan_root w rootEnd cs (index + 1) depth True
      else if c = CHR ''['' then scan_root w rootEnd cs (index + 1) (depth + 1) False
      else if c = CHR '']'' then
        scan_root w rootEnd cs (index + 1) (if depth = 0 then u64_max else depth - 1) False
      else if depth \<noteq> 1 then scan_root w rootEnd cs (index + 1) depth False
      else case token_code w rootEnd index of
          Some epsg \<Rightarrow> Some epsg
        | None \<Rightarrow> scan_root w rootEnd cs (index + 1) depth False)"

definition ExtractWktEpsgCode :: "string \<Rightarrow> nat option" where
  "ExtractWktEpsgCode w =
     (case find_from ''['' w 0 of
        None \<Rightarrow> None
      | Some start \<Rightarrow>
          (case FindWktBracketEnd w start of
             None \<Rightarrow> None
           | Some rootEnd \<Rightarrow> scan_root w rootEnd (sub_bytes start (rootEnd - start) w) start 0 False))"

definition ResolveEpsgCode :: "string \<Rightarrow> LasGeoTiffMetadata option \<Rightarrow> string + nat option" where
  "ResolveEpsgCode w metadata =
     (let epsgCode = ExtractWktEpsgCode w in
      case metadata of
        None \<Rightarrow> Inr epsgCode
      | Some m \<Rightarrow>
          (case GeoTiffEpsgCode m of
             Inl e \<Rightarrow> Inl e
           | Inr geo \<Rightarrow>
               if epsgCode \<noteq> None \<and> geo \<noteq> None \<and> epsgCode \<noteq> geo then Inl ''LAS CRS definitions conflict''
               else if epsgCode = None then Inr geo else Inr epsgCode))"

section \<open>Extra Bytes descriptors\<close>

definition read_descriptor :: "u8 list \<Rightarrow> nat \<Rightarrow> LasExtraBytesDescriptor" where
  "read_descriptor data off =
     \<lparr>dataType = read_uint 1 data (off + 2), eb_options = read_uint 1 data (off + 3),
      eb_name = ReadText data (off + 4) 32, noData = read_vec data (off + 40),
      eb_minimum = read_vec data (off + 64), eb_maximum = read_vec data (off + 88),
      eb_scale = read_vec data (off + 112), eb_offset = read_vec data (off + 136),
      eb_description = ReadText data (off + 160) 32\<rparr>"

fun ParseExtraBytesRecords :: "LasVariableLengthRecord list \<Rightarrow> string + LasExtraBytesDescriptor list" where
  "ParseExtraBytesRecords [] = Inr []"
| "ParseExtraBytesRecords (r # rs) =
     (if \<not> IsExtraBytesRecord r then ParseExtraBytesRecords rs
      else if length (vlr_data r) mod 192 \<noteq> 0 then Inl ''LAS Extra Bytes VLR has an invalid length''
      else case ParseExtraBytesRecords rs of
          Inl e \<Rightarrow> Inl e
        | Inr ds \<Rightarrow> Inr (map (\<lambda>i. read_descriptor (vlr_data r) (192 * i)) [0..<length (vlr_data r) div 192] @ ds))"

section \<open>All metadata\<close>

definition ParseKnownMetadata :: "LasVariableLengthRecord list \<Rightarrow> LasHeader \<Rightarrow> string + LasHeader" where
  "ParseKnownMetadata records header =
     (let w = ExtractWktCrs records in
      case ParseGeoTiffRecords records of
        Inl e \<Rightarrow> Inl e
      | Inr geo \<Rightarrow>
          (case ResolveEpsgCode w geo of
             Inl e \<Rightarrow> Inl e
           | Inr epsg \<Rightarrow>
               (case ParseExtraBytesRecords records of
                  Inl e \<Rightarrow> Inl e
                | Inr ds \<Rightarrow>
                    let h = header\<lparr>crsWkt := w, geoTiffMetadata := geo, las_epsgCode := epsg, las_extraBytes := ds\<rparr> in
                    (case ValidateExtraBytesLayout h of Some e \<Rightarrow> Inl e | None \<Rightarrow> Inr h))))"

definition InspectMetadata :: "u8 list \<Rightarrow> string + LasHeader" where
  "InspectMetadata bytes =
     (case InspectHeader bytes of
        Inl e \<Rightarrow> Inl e
      | Inr h \<Rightarrow>
          (case ReadRecords bytes (headerSize h) (variableLengthRecordCount h) False of
             Inl e \<Rightarrow> Inl e
           | Inr rs \<Rightarrow>
               if extendedVariableLengthRecordCount h = 0
               then ParseKnownMetadata rs (h\<lparr>variableLengthRecords := rs\<rparr>)
               else if firstExtendedVariableLengthRecordOffset h = 0 \<or>
                       length bytes < firstExtendedVariableLengthRecordOffset h
               then Inl ''LAS extended variable-length record offset is invalid''
               else case ReadRecords bytes (firstExtendedVariableLengthRecordOffset h)
                      (extendedVariableLengthRecordCount h) True of
                   Inl e \<Rightarrow> Inl e
                 | Inr es \<Rightarrow> ParseKnownMetadata (rs @ es) (h\<lparr>variableLengthRecords := rs @ es\<rparr>)))"

definition ParseKnownMetadata_diagnostics ::
  "LasVariableLengthRecord list \<Rightarrow> LasHeader \<Rightarrow> Diagnostic list + LasHeader" where
  "ParseKnownMetadata_diagnostics records header =
     (case ParseKnownMetadata records header of Inr h \<Rightarrow> Inr h | Inl e \<Rightarrow> Inl [error_diagnostic e])"

definition InspectMetadata_diagnostics :: "u8 list \<Rightarrow> Diagnostic list + LasHeader" where
  "InspectMetadata_diagnostics bytes =
     (case InspectMetadata bytes of Inr h \<Rightarrow> Inr h | Inl e \<Rightarrow> Inl [error_diagnostic e])"

section \<open>WKT trees\<close>

text \<open>
  A WKT text is the rendering of a tree: quoted strings, with doubled quotes inside, numbers,
  and bracketed nodes.
\<close>

datatype wkt_tree = Quoted string | Plain string | Node string "wkt_tree list"

definition quote_text :: "string \<Rightarrow> string" where
  "quote_text s = concat (map (\<lambda>c. if c = CHR 0x22 then [c, c] else [c]) s)"

fun render :: "wkt_tree \<Rightarrow> string" and render_args :: "wkt_tree list \<Rightarrow> string" where
  "render (Quoted s) = CHR 0x22 # quote_text s @ [CHR 0x22]"
| "render (Plain s) = s"
| "render (Node k ts) = k @ CHR ''['' # render_args ts @ [CHR '']'']"
| "render_args [] = []"
| "render_args [t] = render t"
| "render_args (t # u # ts) = render t @ CHR '','' # render_args (u # ts)"

definition is_number_char :: "char \<Rightarrow> bool" where
  "is_number_char c \<longleftrightarrow> is_digit c \<or> c = CHR ''.'' \<or> c = CHR ''-'' \<or> c = CHR ''+'' \<or> c = CHR ''e''"

fun well_formed :: "wkt_tree \<Rightarrow> bool" where
  "well_formed (Quoted s) \<longleftrightarrow> True"
| "well_formed (Plain s) \<longleftrightarrow> list_all is_number_char s"
| "well_formed (Node k ts) \<longleftrightarrow> k \<noteq> [] \<and> list_all IsWktIdentifierCharacter k \<and> list_all well_formed ts"

text \<open>What follows a rendered tree inside its parent.\<close>

definition follows :: "string \<Rightarrow> bool" where
  "follows cs \<longleftrightarrow> (\<exists>c cs'. cs = c # cs' \<and> (c = CHR '','' \<or> c = CHR '']''))"

lemma follows_simps [simp]:
  "follows (CHR '','' # cs)" "follows (CHR '']'' # cs)" "\<not> follows []" "\<not> follows (CHR 0x22 # cs)"
  by (simp_all add: follows_def)

lemma plain_chars:
  assumes "is_number_char c \<or> IsWktIdentifierCharacter c"
  shows "c \<noteq> CHR 0x22" "c \<noteq> CHR ''[''" "c \<noteq> CHR '']''"
  using assms by (auto simp: is_number_char_def IsWktIdentifierCharacter_def is_digit_def)

lemma bracket_end_quoted:
  "\<not> (\<exists>cs'. cs = CHR 0x22 # cs') \<Longrightarrow>
   bracket_end (quote_text s @ CHR 0x22 # cs) i d True = bracket_end cs (i + length (quote_text s) + 1) d False"
proof (induction s arbitrary: i)
  case Nil
  then show ?case by (cases cs) (auto simp: quote_text_def)
qed (simp_all add: quote_text_def)

lemma bracket_end_plain:
  "list_all (\<lambda>c. is_number_char c \<or> IsWktIdentifierCharacter c) s \<Longrightarrow>
   bracket_end (s @ cs) i d False = bracket_end cs (i + length s) d False"
  by (induction s arbitrary: i) (use plain_chars in auto)

lemma bracket_end_tree:
  "well_formed t \<Longrightarrow> follows cs \<Longrightarrow> 0 < d \<Longrightarrow>
     bracket_end (render t @ cs) i d False = bracket_end cs (i + length (render t)) d False"
  "list_all well_formed ts \<Longrightarrow> 0 < d \<Longrightarrow>
     bracket_end (render_args ts @ CHR '']'' # cs') i d False =
       (if d = 1 then Some (i + length (render_args ts))
        else bracket_end cs' (i + length (render_args ts) + 1) (d - 1) False)"
proof (induction t and ts arbitrary: i d cs and i d cs' rule: render_render_args.induct)
  case (1 s)
  then have "\<not> (\<exists>cs'. cs = CHR 0x22 # cs')" by (auto simp: follows_def)
  then show ?case by (simp add: bracket_end_quoted)
qed (simp_all add: bracket_end_plain list_all_iff algebra_simps)

lemma scan_root_quoted:
  "\<not> (\<exists>cs'. cs = CHR 0x22 # cs') \<Longrightarrow>
   scan_root w e (quote_text s @ CHR 0x22 # cs) i d True = scan_root w e cs (i + length (quote_text s) + 1) d False"
proof (induction s arbitrary: i)
  case Nil
  then show ?case by (cases cs) (auto simp: quote_text_def)
qed (simp_all add: quote_text_def)

lemma scan_root_plain:
  "list_all (\<lambda>c. is_number_char c \<or> IsWktIdentifierCharacter c) s \<Longrightarrow> d \<noteq> 1 \<Longrightarrow>
   scan_root w e (s @ cs) i d False = scan_root w e cs (i + length s) d False"
  by (induction s arbitrary: i) (use plain_chars in auto)

lemma scan_root_tree:
  "well_formed t \<Longrightarrow> follows cs \<Longrightarrow> 1 < d \<Longrightarrow>
     scan_root w e (render t @ cs) i d False = scan_root w e cs (i + length (render t)) d False"
  "list_all well_formed ts \<Longrightarrow> 1 < d \<Longrightarrow>
     scan_root w e (render_args ts @ CHR '']'' # cs') i d False =
       scan_root w e cs' (i + length (render_args ts) + 1) (d - 1) False"
proof (induction t and ts arbitrary: i d cs and i d cs' rule: render_render_args.induct)
  case (1 s)
  then have "\<not> (\<exists>cs'. cs = CHR 0x22 # cs')" by (auto simp: follows_def)
  then show ?case by (simp add: scan_root_quoted)
qed (simp_all add: scan_root_plain list_all_iff algebra_simps)

section \<open>The code of one authority node\<close>

fun authority_code :: "wkt_tree \<Rightarrow> nat option" where
  "authority_code (Node k ts) =
     (if k = ''AUTHORITY'' \<or> k = ''ID''
      then ParseEpsgCodeInRange (render (Node k ts)) 0 (length (render (Node k ts)) - 1) else None)"
| "authority_code t = None"

lemma sub_bytes_inside:
  "i + n \<le> length body \<Longrightarrow> sub_bytes (length pre + i) n (pre @ body @ rest) = sub_bytes i n body"
  by (simp add: sub_bytes_def)

lemma find_from_at: "off < length s \<Longrightarrow> sub_bytes off (length pat) s = pat \<Longrightarrow> find_from pat s off = Some off"
  by (simp add: find_from_def upt_conv_Cons)

lemma find_skip: "\<forall>x\<in>set xs. \<not> P x \<Longrightarrow> find P (xs @ ys) = find P ys"
  by (induction xs) auto

lemma find_from_inside:
  assumes "find_from pat body off = Some m" "m + length pat \<le> length body"
  shows "find_from pat (pre @ body @ rest) (length pre + off) = Some (length pre + m)"
proof -
  from assms(1) have m: "off \<le> m" "m < length body" "sub_bytes m (length pat) body = pat"
    by (auto dest: find_from_ge)
  have first: "sub_bytes i (length pat) body \<noteq> pat" if "off \<le> i" "i < m" for i
  proof -
    obtain k where k: "k < length [off..<length body]" "m = [off..<length body] ! k"
      "\<forall>j<k. sub_bytes ([off..<length body] ! j) (length pat) body \<noteq> pat"
      using assms(1) by (auto simp: find_from_def find_Some_iff)
    then show ?thesis using that m(2) by (auto simp: nth_upt dest!: spec [of _ "i - off"])
  qed
  have split: "[length pre + off..<length (pre @ body @ rest)] =
      [length pre + off..<length pre + m] @ [length pre + m..<length (pre @ body @ rest)]"
    using m upt_add_eq_append [of "length pre + off" "length pre + m" "length (pre @ body @ rest) - (length pre + m)"]
    by simp
  have "\<forall>i\<in>set [length pre + off..<length pre + m].
      sub_bytes i (length pat) (pre @ body @ rest) \<noteq> pat"
  proof
    fix i assume "i \<in> set [length pre + off..<length pre + m]"
    then have "off \<le> i - length pre" "i - length pre < m" "i = length pre + (i - length pre)" by auto
    then show "sub_bytes i (length pat) (pre @ body @ rest) \<noteq> pat"
      using first [of "i - length pre"] assms(2) sub_bytes_inside [of "i - length pre" "length pat" body pre rest]
      by simp
  qed
  moreover have "find_from pat (pre @ body @ rest) (length pre + m) = Some (length pre + m)"
    using m assms(2) by (intro find_from_at) (simp_all add: sub_bytes_inside)
  ultimately show ?thesis unfolding find_from_def split by (subst find_skip)
qed

lemma find_from_outside:
  assumes "find_from pat body off = None" "find_from pat (pre @ body @ rest) (length pre + off) = Some m"
  shows "length pre + length body < m + length pat \<or> pat = []"
proof (rule ccontr)
  assume "\<not> ?thesis"
  then have inside: "m + length pat \<le> length pre + length body" "pat \<noteq> []" by auto
  from assms(2) have m: "length pre + off \<le> m" "sub_bytes m (length pat) (pre @ body @ rest) = pat"
    by (auto dest: find_from_ge)
  then have "sub_bytes (m - length pre) (length pat) body = pat"
    using sub_bytes_inside [of "m - length pre" "length pat" body pre rest] inside by simp
  moreover have "m - length pre \<in> set [off..<length body]" using m(1) inside by (cases pat) auto
  ultimately show False using assms(1) by (auto simp: find_from_def find_None_iff)
qed

lemma code_start_inside:
  "off \<le> end \<Longrightarrow> end \<le> length body \<Longrightarrow>
   code_start (pre @ body @ rest) (length pre + off) (length pre + end) = length pre + code_start body off end"
  by (simp add: code_start_def sub_bytes_inside)

lemma code_start_past: "end \<le> off \<Longrightarrow> code_start w off end = off"
  by (simp add: code_start_def sub_bytes_def)

lemma parse_code_past: "end \<le> off \<Longrightarrow> ParseEpsgCodeInRange w off end = None"
  by (simp add: ParseEpsgCodeInRange.simps)

lemma parse_code_inside:
  "end \<le> length body \<Longrightarrow>
   ParseEpsgCodeInRange (pre @ body @ rest) (length pre + off) (length pre + end) = ParseEpsgCodeInRange body off end"
proof (induction "end - off" arbitrary: off rule: less_induct)
  case less
  let ?w = "pre @ body @ rest"
  show ?case
  proof (cases "off < end")
    case False
    then show ?thesis by (simp add: parse_code_past)
  next
    case True
    note unfold = ParseEpsgCodeInRange.simps [of ?w "length pre + off"] ParseEpsgCodeInRange.simps [of body off]
    show ?thesis
    proof (cases "find_from ''EPSG'' body off")
      case None
      have "ParseEpsgCodeInRange ?w (length pre + off) (length pre + end) = None"
      proof (cases "find_from ''EPSG'' ?w (length pre + off)")
        case (Some m)
        then have "length pre + end \<le> m + 4" using find_from_outside [OF None Some] less.prems by simp
        then show ?thesis using Some True by (simp add: unfold code_start_past parse_code_past Let_def)
      qed (simp add: unfold)
      then show ?thesis using None by (simp add: unfold)
    next
      case (Some m)
      then have m: "off \<le> m" "m + 4 \<le> length body"
        using find_from_ge [OF Some] by (auto simp: sub_bytes_def dest: arg_cong [of _ _ length])
      then have full: "find_from ''EPSG'' ?w (length pre + off) = Some (length pre + m)"
        using find_from_inside [OF Some] by simp
      show ?thesis
      proof (cases "end \<le> m")
        case True
        then show ?thesis using Some full by (simp add: unfold)
      next
        case False
        let ?o = "m + 4"
        have rec: "ParseEpsgCodeInRange ?w (length pre + ?o) (length pre + end) = ParseEpsgCodeInRange body ?o end"
          using less.hyps [of ?o] less.prems True m(1) by (cases "?o < end") (simp_all add: parse_code_past)
        show ?thesis
        proof (cases "end \<le> ?o")
          case True
          then show ?thesis using rec Some full \<open>off < end\<close> False
            by (simp add: unfold code_start_past Let_def add.assoc)
        next
          case inside: False
          let ?s = "code_start body ?o end"
          have s: "code_start ?w (length pre + ?o) (length pre + end) = length pre + ?s"
            using inside less.prems by (intro code_start_inside) auto
          have "?w ! (length pre + ?s) = body ! ?s" if "?s < end" using that less.prems by (simp add: nth_append)
          moreover have "sub_bytes (length pre + ?s) (end - ?s) ?w = sub_bytes ?s (end - ?s) body" if "?s < end"
            using that less.prems by (intro sub_bytes_inside) simp
          ultimately show ?thesis using rec s Some full \<open>off < end\<close> False
            by (cases "?s < end") (simp_all add: unfold Let_def add.assoc)
        qed
      qed
    qed
  qed
qed

section \<open>The authority of the root\<close>

lemma bracket_no_identifier: "\<not> IsWktIdentifierCharacter CHR ''[''" "\<not> IsWktIdentifierCharacter CHR '',''"
  by (simp_all add: IsWktIdentifierCharacter_def)

lemma identifier_prefix:
  assumes "take (length T) (k @ CHR ''['' # r) = T" "list_all IsWktIdentifierCharacter T"
  shows "\<exists>k'. k = T @ k'"
proof (cases "length T \<le> length k")
  case True
  then have "take (length T) k = T" using assms(1) by simp
  then show ?thesis by (metis append_take_drop_id)
next
  case False
  then have "take (length T) (k @ CHR ''['' # r) ! length k = CHR ''[''" by (simp add: nth_append del: take_append)
  then have "T ! length k = CHR ''[''" by (simp only: assms(1))
  moreover have "T ! length k \<in> set T" using False by simp
  ultimately have "CHR ''['' \<in> set T" by simp
  then show ?thesis using assms(2) bracket_no_identifier by (auto simp: list_all_iff)
qed

lemma token_identifiers:
  "list_all IsWktIdentifierCharacter ''AUTHORITY''" "list_all IsWktIdentifierCharacter ''ID''"
  by (simp_all add: IsWktIdentifierCharacter_def)

definition starts_token :: "string \<Rightarrow> bool" where
  \<comment> \<open>no identifier ends here\<close>
  "starts_token pre \<longleftrightarrow> pre = [] \<or> \<not> IsWktIdentifierCharacter (last pre)"

lemma token_lengths: "length ''AUTHORITY'' = 9" "length ''ID'' = 2"
  by simp_all

lemma token_code_node:
  assumes "well_formed (Node k ts)" "starts_token pre" "w = pre @ render (Node k ts) @ rest"
    "length pre + length (render (Node k ts)) \<le> e"
  shows "token_code w e (length pre) = authority_code (Node k ts)"
proof -
  let ?i = "length pre" and ?args = "CHR ''['' # render_args ts @ CHR '']'' # rest"
  have w: "w = pre @ k @ ?args" using assms(3) by simp
  have k: "k \<noteq> []" "list_all IsWktIdentifierCharacter k" using assms(1) by auto
  have previous: "\<not> (?i \<noteq> 0 \<and> IsWktIdentifierCharacter (w ! (?i - 1)))"
    using assms(2) by (auto simp: starts_token_def w nth_append last_conv_nth)
  have at: "sub_bytes ?i n w = take n (k @ ?args)" for n by (simp add: sub_bytes_def w)
  have longer: "token_code w e ?i = None"
    if "k = T @ c # k'" "token_length w ?i = length T" for T c k'
  proof -
    have "w ! (?i + length T) = c" using that(1) by (simp add: w nth_append)
    moreover have "?i + length T < e" using assms(4) that(1) by simp
    ultimately show ?thesis using k(2) previous that by (simp add: token_code_def Let_def)
  qed
  have exact: "token_code w e ?i = ParseEpsgCodeInRange w ?i (?i + (length (render (Node k ts)) - 1))"
    if "token_length w ?i = length k"
  proof -
    have "find_from ''['' w (?i + length k) = Some (?i + length k)"
      by (intro find_from_at) (simp_all add: w sub_bytes_def)
    moreover have "FindWktBracketEnd w (?i + length k) = Some (?i + (length (render (Node k ts)) - 1))"
      using bracket_end_tree(2) [of ts 1 rest] assms(1) by (simp add: FindWktBracketEnd_def w add.assoc)
    moreover have "w ! (?i + length k) = CHR ''[''" by (simp add: w nth_append)
    ultimately show ?thesis using assms(4) k(1) previous that
      by (cases "pre = []") (simp_all add: token_code_def Let_def bracket_no_identifier)
  qed
  have inside: "ParseEpsgCodeInRange w ?i (?i + (length (render (Node k ts)) - 1)) =
      ParseEpsgCodeInRange (render (Node k ts)) 0 (length (render (Node k ts)) - 1)"
    using parse_code_inside [of "length (render (Node k ts)) - 1" "render (Node k ts)" pre rest 0] assms(3) by simp
  show ?thesis
  proof (cases "sub_bytes ?i 9 w = ''AUTHORITY''")
    case True
    then have "take (length ''AUTHORITY'') (k @ ?args) = ''AUTHORITY''" by (simp only: token_lengths at)
    then obtain k' where k': "k = ''AUTHORITY'' @ k'"
      using identifier_prefix [OF _ token_identifiers(1)] by metis
    then show ?thesis
      using longer [of "''AUTHORITY''"] exact inside True by (cases k') (simp_all add: token_length_def)
  next
    case no_authority: False
    show ?thesis
    proof (cases "sub_bytes ?i 2 w = ''ID''")
      case True
      then have "take (length ''ID'') (k @ ?args) = ''ID''" by (simp only: token_lengths at)
      then obtain k' where k': "k = ''ID'' @ k'"
        using identifier_prefix [OF _ token_identifiers(2)] by metis
      then show ?thesis
        using longer [of "''ID''"] exact inside True no_authority by (cases k') (simp_all add: token_length_def)
    next
      case False
      then have "k \<noteq> ''AUTHORITY''" "k \<noteq> ''ID''" using no_authority at by (auto simp: numeral_2_eq_2)
      moreover have "token_code w e ?i = None"
        using False no_authority by (simp add: token_code_def token_length_def)
      ultimately show ?thesis by simp
    qed
  qed
qed

lemma token_code_none:
  "w = pre @ c # rest \<Longrightarrow> \<not> starts_token pre \<or> c \<notin> {CHR ''A'', CHR ''I''} \<Longrightarrow>
   token_code w e (length pre) = None"
  by (auto simp: token_code_def token_length_def sub_bytes_def starts_token_def nth_append last_conv_nth
      Let_def numeral_2_eq_2)

lemma number_no_token: "is_number_char c \<Longrightarrow> c \<notin> {CHR ''A'', CHR ''I''}"
  by (auto simp: is_number_char_def is_digit_def)

lemma scan_identifier:
  "list_all IsWktIdentifierCharacter s \<Longrightarrow> w = pre @ s @ rest \<Longrightarrow> \<not> starts_token pre \<Longrightarrow>
   scan_root w e (s @ cs) (length pre) 1 False = scan_root w e cs (length pre + length s) 1 False"
proof (induction s arbitrary: pre)
  case (Cons c s)
  have "scan_root w e (s @ cs) (length (pre @ [c])) 1 False =
      scan_root w e cs (length (pre @ [c]) + length s) 1 False"
    using Cons.prems by (intro Cons.IH) (auto simp: starts_token_def)
  moreover have "token_code w e (length pre) = None" using Cons.prems by (intro token_code_none) auto
  ultimately show ?case using Cons.prems(1) plain_chars [of c] by simp
qed simp

lemma scan_number:
  "list_all is_number_char s \<Longrightarrow> w = pre @ s @ rest \<Longrightarrow>
   scan_root w e (s @ cs) (length pre) 1 False = scan_root w e cs (length pre + length s) 1 False"
proof (induction s arbitrary: pre)
  case (Cons c s)
  have "scan_root w e (s @ cs) (length (pre @ [c])) 1 False =
      scan_root w e cs (length (pre @ [c]) + length s) 1 False"
    using Cons.prems by (intro Cons.IH) auto
  moreover have "token_code w e (length pre) = None"
    using Cons.prems number_no_token [of c] by (intro token_code_none) auto
  ultimately show ?case using Cons.prems(1) plain_chars [of c] by simp
qed simp

lemma scan_argument:
  assumes "well_formed t" "starts_token pre" "w = pre @ render t @ rest" "length pre + length (render t) \<le> e"
    "\<not> (\<exists>cs'. cs = CHR 0x22 # cs')"
  shows "scan_root w e (render t @ cs) (length pre) 1 False =
    (case authority_code t of Some c \<Rightarrow> Some c | None \<Rightarrow> scan_root w e cs (length pre + length (render t)) 1 False)"
proof (cases t)
  case (Quoted s)
  then show ?thesis using scan_root_quoted [OF assms(5)] by simp
next
  case (Plain s)
  then show ?thesis using scan_number [of s w pre rest] assms by simp
next
  case (Node k ts)
  then obtain c k' where k: "k = c # k'" "IsWktIdentifierCharacter c" "list_all IsWktIdentifierCharacter k'"
    using assms(1) by (cases k) auto
  let ?args = "CHR ''['' # render_args ts @ [CHR '']'']"
  have code: "token_code w e (length pre) = authority_code t"
    using token_code_node [of k ts pre w rest e] assms Node by simp
  have "scan_root w e (k' @ ?args @ cs) (length (pre @ [c])) 1 False =
      scan_root w e (?args @ cs) (length (pre @ [c]) + length k') 1 False"
    using assms(3) k Node by (intro scan_identifier [where rest = "?args @ rest"]) (simp_all add: starts_token_def)
  moreover have "scan_root w e (?args @ cs) (length (pre @ [c]) + length k') 1 False =
      scan_root w e cs (length pre + length (render t)) 1 False"
    using scan_root_tree(2) [of ts 2 w e cs] assms(1) Node k by (simp add: algebra_simps numeral_2_eq_2)
  moreover have "render t @ cs = c # k' @ ?args @ cs" using Node k by simp
  ultimately show ?thesis using code plain_chars [of c] k(2) by (simp split: option.split)
qed

fun first_authority :: "wkt_tree list \<Rightarrow> nat option" where
  "first_authority [] = None"
| "first_authority (t # ts) = (case authority_code t of Some c \<Rightarrow> Some c | None \<Rightarrow> first_authority ts)"

lemma scan_arguments:
  "list_all well_formed ts \<Longrightarrow> starts_token pre \<Longrightarrow> w = pre @ render_args ts @ rest \<Longrightarrow>
   length pre + length (render_args ts) \<le> e \<Longrightarrow>
   scan_root w e (render_args ts) (length pre) 1 False = first_authority ts"
proof (induction ts arbitrary: pre rule: induct_list012)
  case (2 t)
  then show ?case using scan_argument [of t pre w rest e "[]"] by (cases "authority_code t") simp_all
next
  case (3 t u ts)
  let ?cs = "CHR '','' # render_args (u # ts)" and ?pre = "pre @ render t @ [CHR '','']"
  have "scan_root w e (render_args (u # ts)) (length ?pre) 1 False = first_authority (u # ts)"
    using "3.prems" by (intro "3.IH"(2)) (auto simp: starts_token_def bracket_no_identifier)
  moreover have "token_code w e (length (pre @ render t)) = None"
    using "3.prems"(3) by (intro token_code_none [of _ _ "CHR '',''" "render_args (u # ts) @ rest"]) simp_all
  ultimately have "scan_root w e ?cs (length pre + length (render t)) 1 False = first_authority (u # ts)"
    by simp
  moreover have "scan_root w e (render t @ ?cs) (length pre) 1 False =
      (case authority_code t of Some c \<Rightarrow> Some c
       | None \<Rightarrow> scan_root w e ?cs (length pre + length (render t)) 1 False)"
    using "3.prems" by (intro scan_argument [of t pre w "?cs @ rest"]) simp_all
  ultimately show ?case by (simp only: render_args.simps first_authority.simps)
qed simp

lemma find_root_bracket:
  assumes "list_all IsWktIdentifierCharacter k"
  shows "find_from ''['' (k @ CHR ''['' # cs) 0 = Some (length k)"
proof -
  let ?w = "k @ CHR ''['' # cs"
  have "[0..<length ?w] = [0..<length k] @ [length k..<length ?w]"
    using upt_add_eq_append [of 0 "length k" "length ?w - length k"] by simp
  moreover have "\<forall>i\<in>set [0..<length k]. sub_bytes i (length ''['') ?w \<noteq> ''[''"
  proof
    fix i assume "i \<in> set [0..<length k]"
    then have "sub_bytes i (length ''['') ?w = [k ! i]" "IsWktIdentifierCharacter (k ! i)"
      using assms by (simp_all add: sub_bytes_def take_Suc_conv_app_nth list_all_length Cons_nth_drop_Suc [symmetric])
    then show "sub_bytes i (length ''['') ?w \<noteq> ''[''" using bracket_no_identifier by auto
  qed
  moreover have "find_from ''['' ?w (length k) = Some (length k)"
    by (intro find_from_at) (simp_all add: sub_bytes_def)
  ultimately show ?thesis unfolding find_from_def by (simp only: find_skip)
qed

text \<open>
  Claim C6: In a well-formed WKT text the EPSG code is the one of the first authority that is a
  direct child of the root.  The authorities of nested nodes (of the geographic system inside a
  projected one, of a unit or an axis) are never used, and neither is text inside quotes.
\<close>

theorem wkt_code_is_own_authority:
  assumes "well_formed (Node k ts)"
  shows "ExtractWktEpsgCode (render (Node k ts) @ rest) = first_authority ts"
proof -
  let ?w = "render (Node k ts) @ rest" and ?e = "length k + 1 + length (render_args ts)"
  have "find_from ''['' ?w 0 = Some (length k)"
    using find_root_bracket assms by simp
  moreover have "FindWktBracketEnd ?w (length k) = Some ?e"
    using bracket_end_tree(2) [of ts 1 rest] assms by (simp add: FindWktBracketEnd_def)
  moreover have "sub_bytes (length k) (?e - length k) ?w = CHR ''['' # render_args ts"
    by (simp add: sub_bytes_def)
  moreover have "scan_root ?w ?e (render_args ts) (length (k @ [CHR ''['']))  1 False = first_authority ts"
    using assms by (intro scan_arguments [where rest = "CHR '']'' # rest"])
      (simp_all add: starts_token_def bracket_no_identifier)
  ultimately show ?thesis by (simp add: ExtractWktEpsgCode_def)
qed

definition sample_crs :: wkt_tree where
  "sample_crs = Node ''PROJCS'' [Quoted ''AUTHORITY'', Node ''GEOGCS'' [Quoted ''W'',
     Node ''AUTHORITY'' [Quoted ''EPSG'', Quoted ''4326'']], Plain ''0.5'',
     Node ''AUTHORITY'' [Quoted ''EPSG'', Quoted ''32633'']]"

theorem wkt_code_is_own_authority_witness: "ExtractWktEpsgCode (render sample_crs @ ''!'') = Some 32633"
proof -
  have "well_formed sample_crs"
    by (simp add: sample_crs_def IsWktIdentifierCharacter_def is_number_char_def is_digit_def)
  then have "ExtractWktEpsgCode (render sample_crs @ ''!'') =
      first_authority [Node ''AUTHORITY'' [Quoted ''EPSG'', Quoted ''32633'']]"
    using wkt_code_is_own_authority [of "''PROJCS''" "[Quoted ''AUTHORITY'', Node ''GEOGCS'' [Quoted ''W'',
     Node ''AUTHORITY'' [Quoted ''EPSG'', Quoted ''4326'']], Plain ''0.5'',
     Node ''AUTHORITY'' [Quoted ''EPSG'', Quoted ''32633'']]" "''!''"]
    by (simp add: sample_crs_def)
  moreover have "authority_code (Node ''AUTHORITY'' [Quoted ''EPSG'', Quoted ''32633'']) = Some 32633"
    by (simp add: ParseEpsgCodeInRange.simps find_from_def code_start_def sub_bytes_def is_code_separator_def
        is_digit_def digit_value_def quote_text_def upt_rec Let_def)
  ultimately show ?thesis by simp
qed

section \<open>Accepted metadata\<close>

lemma ParseKnownMetadata_accepted:
  assumes "ParseKnownMetadata records h0 = Inr h"
  shows "ValidateExtraBytesLayout h = None \<and> ParseExtraBytesRecords records = Inr (las_extraBytes h) \<and>
    crsWkt h = ExtractWktCrs records \<and> ParseGeoTiffRecords records = Inr (geoTiffMetadata h) \<and>
    ResolveEpsgCode (crsWkt h) (geoTiffMetadata h) = Inr (las_epsgCode h) \<and>
    h = h0\<lparr>crsWkt := crsWkt h, geoTiffMetadata := geoTiffMetadata h, las_epsgCode := las_epsgCode h,
           las_extraBytes := las_extraBytes h\<rparr>"
  using assms by (auto simp: ParseKnownMetadata_def Let_def split: sum.splits option.splits)

lemma ParseKnownMetadata_keeps:
  assumes "ParseKnownMetadata records h0 = Inr h"
  shows "extendedVariableLengthRecordCount h = extendedVariableLengthRecordCount h0 \<and>
    firstExtendedVariableLengthRecordOffset h = firstExtendedVariableLengthRecordOffset h0 \<and>
    pointDataOffset h = pointDataOffset h0 \<and> pointFormat h = pointFormat h0 \<and>
    pointRecordLength h = pointRecordLength h0 \<and> las_pointCount h = las_pointCount h0 \<and>
    variableLengthRecords h = variableLengthRecords h0 \<and> LasHeader_IsValid h = LasHeader_IsValid h0"
  using assms by (auto simp: ParseKnownMetadata_def Let_def LasHeader_IsValid_def split: sum.splits option.splits)

lemma ResolveEpsgCode_agrees:
  assumes "ResolveEpsgCode w (Some m) = Inr c"
  shows "\<exists>g. GeoTiffEpsgCode m = Inr g \<and> (case ExtractWktEpsgCode w of None \<Rightarrow> c = g
    | Some e \<Rightarrow> c = Some e \<and> (g = None \<or> g = Some e))"
  using assms by (auto simp: ResolveEpsgCode_def Let_def split: sum.splits if_splits option.splits)

end
