(* ===== verification/Las_Point.thy ===== *)
theory Las_Point
  imports Las_Format
begin

unbundle bit_operations_syntax

text \<open>
  LAS point records (\<^verbatim>\<open>LasPoint.cpp\<close>): the decoder of one record for every point format, the
  Extra Bytes values and the read filters.  The lemmas say what a decoded point satisfies, that
  the decoder never looks beyond the record, and what it makes of the formats whose fields
  overlap.
\<close>

section \<open>Points\<close>

record LasWaveformPacket =
  descriptorIndex :: u8
  dataOffset :: u64
  packetSize :: u32
  returnPointLocation :: fl
  xt :: fl
  yt :: fl
  zt :: fl
  external :: bool

record LasPoint =
  sourcePosition :: Vec3d
  lp_intensity :: u16
  lp_returnNumber :: u8
  lp_numberOfReturns :: u8
  lp_classification :: u8
  lp_classificationFlags :: u8
  lp_scannerChannel :: u8
  lp_scanDirectionFlag :: u8
  lp_edgeOfFlightLine :: u8
  lp_userData :: u8
  lp_scanAngle :: u16
  lp_pointSourceId :: u16
  lp_red :: u16
  lp_green :: u16
  lp_blue :: u16
  lp_nir :: u16
  lp_gpsTime :: fl
  lp_extraBytes :: "fl list"
  waveform :: LasWaveformPacket
  hasColor :: bool
  hasGpsTime :: bool
  hasWaveform :: bool

definition empty_waveform :: LasWaveformPacket where
  "empty_waveform = \<lparr>descriptorIndex = 0, dataOffset = 0, packetSize = 0, returnPointLocation = fzero,
     xt = fzero, yt = fzero, zt = fzero, external = False\<rparr>"

definition empty_point :: LasPoint where
  "empty_point = \<lparr>sourcePosition = zero_vec, lp_intensity = 0, lp_returnNumber = 0, lp_numberOfReturns = 0,
     lp_classification = 0, lp_classificationFlags = 0, lp_scannerChannel = 0, lp_scanDirectionFlag = 0,
     lp_edgeOfFlightLine = 0, lp_userData = 0, lp_scanAngle = 0, lp_pointSourceId = 0, lp_red = 0,
     lp_green = 0, lp_blue = 0, lp_nir = 0, lp_gpsTime = fzero, lp_extraBytes = [],
     waveform = empty_waveform, hasColor = False, hasGpsTime = False, hasWaveform = False\<rparr>"

definition outside_bounds :: "SpatialBounds \<Rightarrow> Vec3d \<Rightarrow> bool" where
  "outside_bounds b p \<longleftrightarrow> flt (vx p) (vx (minimum b)) \<or> flt (vx (maximum b)) (vx p) \<or>
     flt (vy p) (vy (minimum b)) \<or> flt (vy (maximum b)) (vy p) \<or>
     flt (vz p) (vz (minimum b)) \<or> flt (vz (maximum b)) (vz p)"

definition MatchesReadOptions :: "LasPoint \<Rightarrow> PointReadOptions \<Rightarrow> bool" where
  "MatchesReadOptions p opts =
     (if case opt_bounds opts of None \<Rightarrow> False | Some b \<Rightarrow> outside_bounds b (sourcePosition p) then False
      else classifications opts = [] \<or> unat (lp_classification p) \<in> set (classifications opts))"

section \<open>Extra Bytes values\<close>

definition component_of :: "Vec3d \<Rightarrow> nat \<Rightarrow> fl" where
  "component_of v c = (if c = 0 then vx v else if c = 1 then vy v else vz v)"

definition integer_too_large :: "u8 list \<Rightarrow> nat \<Rightarrow> nat \<Rightarrow> bool" where
  "integer_too_large r off t \<longleftrightarrow> (t = 7 \<and> 2 ^ 53 < read_uint 8 r off) \<or>
     (t = 8 \<and> (2 ^ 53 < read_sint 8 r off \<or> read_sint 8 r off < - (2 ^ 53)))"

fun decode_components :: "LasExtraBytesDescriptor \<Rightarrow> u8 list \<Rightarrow> nat \<Rightarrow> nat list \<Rightarrow> string + fl list" where
  "decode_components d r off [] = Inr []"
| "decode_components d r off (c # cs) =
     (let o' = off + ExtraByteScalarSize (dataType d) * c;
          v = dadd (dmul (ReadExtraByteScalar r o' (dataType d)) (component_of (eb_scale d) c))
                (component_of (eb_offset d) c)
      in if integer_too_large r o' (scalar_type (dataType d))
         then Inl ''LAS Extra Bytes integer cannot be represented exactly as double''
         else if \<not> is_finite v then Inl ''decoded LAS point contains a non-finite Extra Bytes value''
         else case decode_components d r off cs of Inl e \<Rightarrow> Inl e | Inr vs \<Rightarrow> Inr (v # vs))"

fun decode_extras :: "LasExtraBytesDescriptor list \<Rightarrow> u8 list \<Rightarrow> nat \<Rightarrow> string + fl list" where
  "decode_extras [] r off = Inr []"
| "decode_extras (d # ds) r off =
     (if ExtraByteScalarSize (dataType d) = 0 \<or> ExtraByteComponentCount (dataType d) = 0
      then Inl ''unsupported LAS Extra Bytes data type''
      else if \<not> Has r off (descriptor_size d) then Inl ''LAS point record Extra Bytes are truncated''
      else case decode_components d r off [0..<ExtraByteComponentCount (dataType d)] of
        Inl e \<Rightarrow> Inl e
      | Inr vs \<Rightarrow> (case decode_extras ds r (off + descriptor_size d) of
            Inl e \<Rightarrow> Inl e | Inr ws \<Rightarrow> Inr (vs @ ws)))"

section \<open>Fixed fields\<close>

definition scaled :: "u8 list \<Rightarrow> nat \<Rightarrow> fl \<Rightarrow> fl \<Rightarrow> fl" where
  "scaled r off s t = dadd (dmul (fof_int binary64 (read_sint 4 r off)) s) t"

definition decode_base :: "LasHeader \<Rightarrow> u8 list \<Rightarrow> LasPoint" where
  "decode_base h r =
     (let returnFlags = (read_word 1 r 14 :: u8) in
      empty_point\<lparr>sourcePosition := vec (scaled r 0 (xScale h) (xOffset h))
          (scaled r 4 (yScale h) (yOffset h)) (scaled r 8 (zScale h) (zOffset h)),
        lp_intensity := read_word 2 r 12, lp_returnNumber := returnFlags AND 15,
        lp_numberOfReturns := drop_bit 4 returnFlags AND 15,
        lp_classification := read_word 1 r (if 6 \<le> pointFormat h then 16 else 15)\<rparr>)"

definition decode_color :: "u8 list \<Rightarrow> nat \<Rightarrow> LasPoint \<Rightarrow> LasPoint" where
  "decode_color r off p = p\<lparr>lp_red := read_word 2 r off, lp_green := read_word 2 r (off + 2),
     lp_blue := read_word 2 r (off + 4), hasColor := True\<rparr>"

definition decode_time :: "u8 list \<Rightarrow> nat \<Rightarrow> LasPoint \<Rightarrow> LasPoint" where
  "decode_time r off p = p\<lparr>lp_gpsTime := read_double r off, hasGpsTime := True\<rparr>"

definition decode_modern :: "nat \<Rightarrow> u8 list \<Rightarrow> LasPoint \<Rightarrow> LasPoint" where
  "decode_modern f r p =
     (let flags = (read_word 1 r 15 :: u8);
          p1 = p\<lparr>lp_classificationFlags := flags AND 15, lp_scannerChannel := drop_bit 4 flags AND 3,
                 lp_scanDirectionFlag := drop_bit 6 flags AND 1, lp_edgeOfFlightLine := drop_bit 7 flags AND 1,
                 lp_userData := read_word 1 r 17, lp_scanAngle := read_word 2 r 18,
                 lp_pointSourceId := read_word 2 r 20\<rparr>;
          p2 = (if 7 \<le> f then decode_color r 30 p1 else p1);
          p3 = (if f = 8 \<or> f = 10 then p2\<lparr>lp_nir := read_word 2 r 36\<rparr> else p2)
      in decode_time r 22 p3)"

definition decode_legacy :: "nat \<Rightarrow> u8 list \<Rightarrow> LasPoint \<Rightarrow> LasPoint" where
  "decode_legacy f r p =
     (let p1 = p\<lparr>lp_scanAngle := scast (read_word 1 r 16 :: u8), lp_userData := read_word 1 r 17,
                 lp_pointSourceId := read_word 2 r 18\<rparr>;
          p2 = (if f = 1 \<or> f = 3 then decode_time r 20 p1 else p1)
      in if f = 2 \<or> f = 3 then decode_color r (if f = 2 then 20 else 28) p2 else p2)"

definition waveform_offset :: "nat \<Rightarrow> nat" where
  "waveform_offset f = (if f = 4 then 28 else if f = 5 then 34 else if f = 9 then 30 else 38)"

definition decode_waveform :: "nat \<Rightarrow> u8 list \<Rightarrow> LasPoint \<Rightarrow> LasPoint" where
  "decode_waveform f r p =
     (if f = 4 \<or> f = 5 \<or> f = 9 \<or> f = 10 then
        (let off = waveform_offset f; index = (read_word 1 r off :: u8) in
         p\<lparr>waveform := \<lparr>descriptorIndex = index AND 127, dataOffset = read_word 8 r (off + 1),
             packetSize = read_word 4 r (off + 9), returnPointLocation = read_float r (off + 13),
             xt = read_float r (off + 17), yt = read_float r (off + 21), zt = read_float r (off + 25),
             external = (index AND 128 \<noteq> 0)\<rparr>, hasWaveform := True\<rparr>)
      else p)"

definition decode_fields :: "LasHeader \<Rightarrow> u8 list \<Rightarrow> LasPoint" where
  "decode_fields h r =
     (let f = pointFormat h; p = decode_base h r
      in decode_waveform f r (if 6 \<le> f then decode_modern f r p else decode_legacy f r p))"

definition DecodePoint :: "LasHeader \<Rightarrow> u8 list \<Rightarrow> string + LasPoint" where
  "DecodePoint h r =
     (if \<not> LasHeader_IsValid h \<or> \<not> IsSupportedFormatForVersion (versionMinor h) (pointFormat h) \<or>
         pointRecordLength h < MinimumRecordLength (pointFormat h) \<or> length r < pointRecordLength h
      then Inl ''LAS point record is invalid or truncated''
      else let p = decode_fields h r in
        case decode_extras (las_extraBytes h) r (MinimumRecordLength (pointFormat h)) of
          Inl e \<Rightarrow> Inl e
        | Inr vs \<Rightarrow> if \<not> Vec3d_IsFinite (sourcePosition p)
                   then Inl ''decoded LAS point contains a non-finite coordinate''
                   else Inr (p\<lparr>lp_extraBytes := vs\<rparr>))"

definition DecodePoint_diagnostics :: "LasHeader \<Rightarrow> u8 list \<Rightarrow> Diagnostic list + LasPoint" where
  "DecodePoint_diagnostics h r =
     (case DecodePoint h r of Inr p \<Rightarrow> Inr p | Inl e \<Rightarrow> Inl [error_diagnostic e])"

section \<open>The decoder stays inside the record\<close>

lemma IsSupportedFormat_cases:
  "IsSupportedFormat f \<Longrightarrow> f \<in> {0, 1, 2, 3, 4, 5, 6, 7, 8, 9, 10}"
  by (auto simp: IsSupportedFormat_def)

lemma decode_components_local:
  "\<forall>c \<in> set cs. off + ExtraByteScalarSize (dataType d) * (c + 1) \<le> length r \<Longrightarrow>
   decode_components d (r @ junk) off cs = decode_components d r off cs"
proof (induction cs)
  case (Cons c cs)
  let ?o = "off + ExtraByteScalarSize (dataType d) * c"
  have o: "?o + ExtraByteScalarSize (dataType d) \<le> length r" using Cons.prems by (simp add: algebra_simps)
  have scalar: "ReadExtraByteScalar (r @ junk) ?o (dataType d) = ReadExtraByteScalar r ?o (dataType d)"
    using o unfolding ReadExtraByteScalar_def ExtraByteScalarSize_def Let_def
    by (auto simp: read_local split: if_split_asm)
  have large: "integer_too_large (r @ junk) ?o (scalar_type (dataType d)) =
      integer_too_large r ?o (scalar_type (dataType d))"
    using o unfolding integer_too_large_def ExtraByteScalarSize_def Let_def
    by (auto simp: read_local split: if_split_asm)
  have rest: "decode_components d (r @ junk) off cs = decode_components d r off cs" using Cons by simp
  show ?case unfolding decode_components.simps Let_def scalar large rest ..
qed simp

definition extras_size :: "LasExtraBytesDescriptor list \<Rightarrow> nat" where
  "extras_size ds = sum_list (map descriptor_size ds)"

definition extras_count :: "LasExtraBytesDescriptor list \<Rightarrow> nat" where
  "extras_count ds = sum_list (map (\<lambda>d. ExtraByteComponentCount (dataType d)) ds)"

lemma extra_size_total: "extra_size ds n = Inr m \<Longrightarrow> m = n + extras_size ds"
  by (induction ds n rule: extra_size.induct) (auto simp: extras_size_def split: if_split_asm)

lemma layout_ok: "ValidateExtraBytesLayout h = None \<Longrightarrow>
   pointRecordLength h = MinimumRecordLength (pointFormat h) + extras_size (las_extraBytes h)"
  using extra_size_total [of "las_extraBytes h" 0]
  by (auto simp: ValidateExtraBytesLayout_def split: sum.splits if_split_asm)

lemma decode_extras_local:
  "off + extras_size ds \<le> length r \<Longrightarrow> decode_extras ds (r @ junk) off = decode_extras ds r off"
proof (induction ds arbitrary: off)
  case (Cons d ds)
  have total: "off + descriptor_size d + extras_size ds \<le> length r" using Cons.prems by (simp add: extras_size_def)
  have "\<forall>c \<in> set [0..<ExtraByteComponentCount (dataType d)].
      off + ExtraByteScalarSize (dataType d) * (c + 1) \<le> length r"
  proof
    fix c assume "c \<in> set [0..<ExtraByteComponentCount (dataType d)]"
    then have "ExtraByteScalarSize (dataType d) * (c + 1) \<le> descriptor_size d"
      unfolding descriptor_size_def by (intro mult_le_mono2) simp
    then show "off + ExtraByteScalarSize (dataType d) * (c + 1) \<le> length r" using total by simp
  qed
  note here = decode_components_local [OF this] and rest = Cons.IH [OF total]
  have "Has (r @ junk) off (descriptor_size d)" "Has r off (descriptor_size d)"
    using total by (simp_all add: Has_iff)
  then show ?case unfolding decode_extras.simps here rest by simp
qed simp

lemma decode_parts_local:
  "off + 6 \<le> length r \<Longrightarrow> decode_color (r @ junk) off p = decode_color r off p"
  "off + 8 \<le> length r \<Longrightarrow> decode_time (r @ junk) off p = decode_time r off p"
  by (simp_all add: decode_color_def decode_time_def read_local)

lemma decode_fields_local:
  assumes "IsSupportedFormat (pointFormat h)" "MinimumRecordLength (pointFormat h) \<le> length r"
  shows "decode_fields h (r @ junk) = decode_fields h r"
proof -
  define f where "f = pointFormat h"
  have m: "20 \<le> MinimumRecordLength f" "6 \<le> f \<Longrightarrow> 30 \<le> MinimumRecordLength f"
    "7 \<le> f \<Longrightarrow> 36 \<le> MinimumRecordLength f" "f = 8 \<or> f = 10 \<Longrightarrow> 38 \<le> MinimumRecordLength f"
    "f = 1 \<or> f = 3 \<Longrightarrow> 28 \<le> MinimumRecordLength f" "f = 2 \<Longrightarrow> 26 \<le> MinimumRecordLength f"
    "f = 3 \<Longrightarrow> 34 \<le> MinimumRecordLength f"
    "f = 4 \<or> f = 5 \<or> f = 9 \<or> f = 10 \<Longrightarrow> waveform_offset f + 29 \<le> MinimumRecordLength f"
    using IsSupportedFormat_cases [OF assms(1)] by (auto simp: f_def MinimumRecordLength_def waveform_offset_def)
  have t: "k \<le> MinimumRecordLength f \<Longrightarrow> k \<le> length r" for k using assms(2) by (simp add: f_def)
  note len = t [OF m(1)] t [OF m(2)] t [OF m(3)] t [OF m(4)] t [OF m(5)] t [OF m(6)] t [OF m(7)] t [OF m(8)]
  have base: "decode_base h (r @ junk) = decode_base h r"
    using len(1) by (simp add: decode_base_def scaled_def read_local Let_def)
  have modern: "decode_modern f (r @ junk) p = decode_modern f r p" if "6 \<le> f" for p
  proof -
    have "7 \<le> f \<Longrightarrow> decode_color (r @ junk) 30 q = decode_color r 30 q"
      "f = 8 \<or> f = 10 \<Longrightarrow> read_word 2 (r @ junk) 36 = (read_word 2 r 36 :: u16)"
      "decode_time (r @ junk) 22 q = decode_time r 22 q" for q
      using len(2-4) that by (auto intro: decode_parts_local read_append)
    then show ?thesis using len(2) that by (simp add: decode_modern_def read_local Let_def)
  qed
  have legacy: "decode_legacy f (r @ junk) p = decode_legacy f r p" for p
  proof -
    have "f = 1 \<or> f = 3 \<Longrightarrow> decode_time (r @ junk) 20 q = decode_time r 20 q"
      "f = 2 \<Longrightarrow> decode_color (r @ junk) 20 q = decode_color r 20 q"
      "f = 3 \<Longrightarrow> decode_color (r @ junk) 28 q = decode_color r 28 q" for q
      using len(5-7) by (auto intro: decode_parts_local)
    then show ?thesis using len(1) by (auto simp: decode_legacy_def read_local Let_def)
  qed
  have wave: "decode_waveform f (r @ junk) p = decode_waveform f r p" for p
  proof (cases "f = 4 \<or> f = 5 \<or> f = 9 \<or> f = 10")
    case True
    note o = len(8) [OF this]
    show ?thesis unfolding decode_waveform_def if_P [OF True] Let_def using o by (simp add: read_local)
  qed (simp add: decode_waveform_def)
  show ?thesis
    unfolding decode_fields_def base f_def [symmetric] Let_def wave legacy using modern by simp
qed

lemma decode_components_ok:
  "decode_components d r off cs = Inr vs \<Longrightarrow> length vs = length cs \<and> list_all is_finite vs"
  by (induction cs arbitrary: vs) (auto simp: Let_def split: if_split_asm sum.splits)

lemma decode_extras_ok:
  "decode_extras ds r off = Inr vs \<Longrightarrow> length vs = extras_count ds \<and> list_all is_finite vs"
proof (induction ds arbitrary: off vs)
  case (Cons d ds)
  then obtain vs1 vs2 where "decode_components d r off [0..<ExtraByteComponentCount (dataType d)] = Inr vs1"
    "decode_extras ds r (off + descriptor_size d) = Inr vs2" "vs = vs1 @ vs2"
    by (auto split: if_split_asm sum.splits)
  then show ?case using decode_components_ok Cons.IH by (fastforce simp: extras_count_def)
qed (simp add: extras_count_def)

lemma decode_fields_flags:
  "sourcePosition (decode_fields h r) = sourcePosition (decode_base h r)"
  "hasWaveform (decode_fields h r) \<longleftrightarrow> pointFormat h \<in> {4, 5, 9, 10}"
  "hasGpsTime (decode_fields h r) \<longleftrightarrow> pointFormat h \<in> {1, 3} \<or> 6 \<le> pointFormat h"
  "hasColor (decode_fields h r) \<longleftrightarrow> pointFormat h \<in> {2, 3} \<or> 7 \<le> pointFormat h"
  by (auto simp: decode_fields_def decode_waveform_def decode_modern_def decode_legacy_def decode_base_def
      decode_color_def decode_time_def empty_point_def Let_def)

lemma DecodePoint_Inr:
  "DecodePoint h r = Inr p \<longleftrightarrow> LasHeader_IsValid h \<and> IsSupportedFormatForVersion (versionMinor h) (pointFormat h) \<and>
     MinimumRecordLength (pointFormat h) \<le> pointRecordLength h \<and> pointRecordLength h \<le> length r \<and>
     (\<exists>vs. decode_extras (las_extraBytes h) r (MinimumRecordLength (pointFormat h)) = Inr vs \<and>
        Vec3d_IsFinite (sourcePosition (decode_fields h r)) \<and> p = decode_fields h r\<lparr>lp_extraBytes := vs\<rparr>)"
  by (auto simp: DecodePoint_def Let_def split: if_split_asm sum.splits)

lemma supported_format: "IsSupportedFormatForVersion v f \<Longrightarrow> IsSupportedFormat f"
  by (simp add: IsSupportedFormatForVersion_def split: if_split_asm)

lemma DecodePoint_local:
  assumes "ValidateExtraBytesLayout h = None" "pointRecordLength h \<le> length r"
  shows "DecodePoint h (r @ junk) = DecodePoint h r"
proof (cases "IsSupportedFormatForVersion (versionMinor h) (pointFormat h) \<and>
    MinimumRecordLength (pointFormat h) \<le> pointRecordLength h")
  case True
  then have "decode_fields h (r @ junk) = decode_fields h r"
    using assms(2) supported_format by (intro decode_fields_local) auto
  moreover have "decode_extras (las_extraBytes h) (r @ junk) (MinimumRecordLength (pointFormat h)) =
      decode_extras (las_extraBytes h) r (MinimumRecordLength (pointFormat h))"
    using layout_ok [OF assms(1)] assms(2) by (intro decode_extras_local) simp
  ultimately show ?thesis using assms(2) by (simp add: DecodePoint_def)
qed (auto simp: DecodePoint_def)

lemma decoded_point_facts:
  assumes "DecodePoint h r = Inr p"
  shows "Vec3d_IsFinite (sourcePosition p)" "length (lp_extraBytes p) = extras_count (las_extraBytes h)"
    "hasWaveform p \<longleftrightarrow> pointFormat h \<in> {4, 5, 9, 10}"
    "hasGpsTime p \<longleftrightarrow> pointFormat h \<in> {1, 3} \<or> 6 \<le> pointFormat h"
    "hasColor p \<longleftrightarrow> pointFormat h \<in> {2, 3} \<or> 7 \<le> pointFormat h" "LasHeader_IsValid h"
proof -
  obtain vs where vs: "decode_extras (las_extraBytes h) r (MinimumRecordLength (pointFormat h)) = Inr vs"
    "Vec3d_IsFinite (sourcePosition (decode_fields h r))" "p = decode_fields h r\<lparr>lp_extraBytes := vs\<rparr>"
    and valid: "LasHeader_IsValid h"
    using assms by (auto simp: DecodePoint_Inr)
  then show "Vec3d_IsFinite (sourcePosition p)" "length (lp_extraBytes p) = extras_count (las_extraBytes h)"
    "hasWaveform p \<longleftrightarrow> pointFormat h \<in> {4, 5, 9, 10}"
    "hasGpsTime p \<longleftrightarrow> pointFormat h \<in> {1, 3} \<or> 6 \<le> pointFormat h"
    "hasColor p \<longleftrightarrow> pointFormat h \<in> {2, 3} \<or> 7 \<le> pointFormat h" "LasHeader_IsValid h"
    using decode_extras_ok [OF vs(1)] decode_fields_flags(2-4) [of h r] by (simp_all add: vs(3))
qed

text \<open>
  The fields that the point formats have by the repository's own table
  (\<^verbatim>\<open>docs/reference/CAPABILITY_MATRIX.md\<close>, point data record formats).
\<close>

definition documented_time :: "nat \<Rightarrow> bool" where
  "documented_time f \<longleftrightarrow> f \<in> {1, 3, 4, 5, 6, 7, 8, 9, 10}"

definition documented_color :: "nat \<Rightarrow> bool" where
  "documented_color f \<longleftrightarrow> f \<in> {2, 3, 5, 7, 8, 10}"

definition documented_waveform :: "nat \<Rightarrow> bool" where
  "documented_waveform f \<longleftrightarrow> f \<in> {4, 5, 9, 10}"

lemma documented_fields:
  assumes "IsSupportedFormat f"
  shows "f \<in> {1, 3} \<or> 6 \<le> f \<longleftrightarrow> documented_time f \<and> f \<notin> {4, 5}"
    "f \<in> {2, 3} \<or> 7 \<le> f \<longleftrightarrow> documented_color f \<and> f \<noteq> 5 \<or> f = 9"
proof -
  have f: "f \<le> 10" using assms by (auto simp: IsSupportedFormat_def)
  show "f \<in> {1, 3} \<or> 6 \<le> f \<longleftrightarrow> documented_time f \<and> f \<notin> {4, 5}"
    using f by (simp add: documented_time_def) presburger
  show "f \<in> {2, 3} \<or> 7 \<le> f \<longleftrightarrow> documented_color f \<and> f \<noteq> 5 \<or> f = 9"
    using f by (simp add: documented_color_def) presburger
qed

text \<open>
  Claim C8: Every decoded point has a finite position and exactly the Extra Bytes values the
  header's descriptors announce, all finite, and it depends on no byte behind the record length of the header.
  Its waveform flag is that of the documented point format, and its time and colour flags are, except in the
  waveform formats: points of formats 4 and 5 are decoded without the GPS time, and those of format 5 without
  the colour, that the documentation gives these formats, and points of format 9 are given a colour
  that the format does not have.
\<close>

theorem decoded_point_sound:
  assumes "ValidateExtraBytesLayout h = None" "DecodePoint h r = Inr p"
  shows "Vec3d_IsFinite (sourcePosition p) \<and>
    length (lp_extraBytes p) = extras_count (las_extraBytes h) \<and> list_all is_finite (lp_extraBytes p) \<and>
    (hasWaveform p \<longleftrightarrow> documented_waveform (pointFormat h)) \<and>
    (hasGpsTime p \<longleftrightarrow> documented_time (pointFormat h) \<and> pointFormat h \<notin> {4, 5}) \<and>
    (hasColor p \<longleftrightarrow> documented_color (pointFormat h) \<and> pointFormat h \<noteq> 5 \<or> pointFormat h = 9) \<and>
    DecodePoint h (take (pointRecordLength h) r @ junk) = Inr p"
proof -
  from assms(2) have len: "pointRecordLength h \<le> length r" by (simp add: DecodePoint_Inr)
  have "DecodePoint h (take (pointRecordLength h) r) = Inr p"
    using DecodePoint_local [OF assms(1), of "take (pointRecordLength h) r" "drop (pointRecordLength h) r"]
      len assms(2) by simp
  then have "DecodePoint h (take (pointRecordLength h) r @ junk) = Inr p"
    using DecodePoint_local [OF assms(1), of "take (pointRecordLength h) r" junk] len by simp
  moreover obtain vs where vs: "decode_extras (las_extraBytes h) r (MinimumRecordLength (pointFormat h)) = Inr vs"
    "Vec3d_IsFinite (sourcePosition (decode_fields h r))" "p = decode_fields h r\<lparr>lp_extraBytes := vs\<rparr>"
    using assms(2) by (auto simp: DecodePoint_Inr)
  moreover have "IsSupportedFormat (pointFormat h)"
    using assms(2) supported_format by (auto simp: DecodePoint_Inr)
  ultimately show ?thesis
    using decode_extras_ok [OF vs(1)] vs(2) decode_fields_flags(2-4) [of h r] \<open>IsSupportedFormat (pointFormat h)\<close>
      documented_fields [of "pointFormat h"] by (simp add: vs(3) documented_waveform_def)
qed

text \<open>The two readings of one record byte.\<close>

lemma unat_read_word:
  assumes "read_uint w bs off < 2 ^ LENGTH('a::len)"
  shows "unat (read_word w bs off :: 'a word) = read_uint w bs off"
  using assms unfolding read_word_def unat_of_nat by simp

lemma byte_pair:
  assumes "off + 2 \<le> length r"
  shows "read_uint 2 r off = read_uint 1 r off + 256 * read_uint 1 r (off + 1)"
proof -
  obtain a b xs where "drop off r = a # b # xs"
    using assms by (cases "drop off r"; cases "tl (drop off r)") (auto dest: arg_cong [of _ _ length])
  moreover from this have "drop (Suc off) r = b # xs" by (metis drop_Suc drop_tl list.sel(3) tl_drop)
  ultimately show ?thesis by (simp add: read_uint_def sub_bytes_def numeral_2_eq_2)
qed

text \<open>
  Claim C33: Point format 9 has no colour, and its waveform packet starts at byte 30.  The
  decoder nevertheless reports a colour for every point of that format, and its red component is
  made of the waveform descriptor byte and the lowest byte of the waveform data offset.
\<close>

theorem format_9_colour_is_waveform:
  assumes "DecodePoint h r = Inr p" "pointFormat h = 9"
  shows "hasColor p \<and> hasWaveform p \<and>
    unat (lp_red p) = read_uint 1 r 30 + 256 * (read_uint 1 r 31) \<and>
    descriptorIndex (waveform p) = read_word 1 r 30 AND 127 \<and> dataOffset (waveform p) = read_word 8 r 31"
proof -
  have len: "59 \<le> length r" and p: "\<exists>vs. p = decode_fields h r\<lparr>lp_extraBytes := vs\<rparr>"
    using assms by (auto simp: DecodePoint_Inr MinimumRecordLength_def)
  have "read_uint 2 r 30 < 256 ^ 2" using len by (intro read_uint_less) simp
  then have "unat (read_word 2 r 30 :: u16) = read_uint 1 r 30 + 256 * (read_uint 1 r 31)"
    using byte_pair [of 30 r] len unat_read_word [where 'a = 16, of 2 r 30] by simp
  then show ?thesis
    using p assms(2)
    by (auto simp: decode_fields_def decode_waveform_def waveform_offset_def decode_modern_def decode_color_def
        decode_time_def Let_def)
qed

text \<open>
  Claim C34: In the point formats 0 to 5 the return number and the number of returns take three
  bits each.  The decoder splits the byte into two halves of four bits in every format: a point
  that is return \<open>n\<close> of \<open>m\<close> is decoded with return number \<open>n + 8 * (m mod 2)\<close> and \<open>m div 2\<close> returns,
  so the only return of a pulse becomes return 9 of 0.
\<close>

theorem legacy_returns_misread:
  assumes "DecodePoint h r = Inr p" "pointFormat h \<le> 5" "read_uint 1 r 14 = n + 8 * m" "n < 8" "m < 8"
  shows "unat (lp_returnNumber p) = n + 8 * (m mod 2) \<and> unat (lp_numberOfReturns p) = m div 2"
proof -
  have p: "\<exists>vs. p = decode_fields h r\<lparr>lp_extraBytes := vs\<rparr>" using assms(1) by (auto simp: DecodePoint_Inr)
  let ?w = "read_word 1 r 14 :: u8"
  have w: "unat ?w = n + 8 * m" using assms(3-5) unat_read_word [where 'a = 8, of 1 r 14] by simp
  have low: "unat (v AND 15) = unat v mod 16" for v :: u8
  proof -
    have "unat v AND mask 4 = unat v mod 16" by (simp add: take_bit_eq_mask [symmetric] take_bit_eq_mod)
    then show ?thesis by (simp add: unsigned_and_eq mask_eq_exp_minus_1)
  qed
  have m: "m = m mod 2 + 2 * (m div 2)" by simp
  have "n + 8 * m = (n + 8 * (m mod 2)) + 16 * (m div 2)" by (subst m) (simp only: algebra_simps)
  moreover have "n + 8 * (m mod 2) < 16" using assms(4) by (cases "even m") (simp_all add: mod_2_eq_odd)
  ultimately have parts: "(n + 8 * m) mod 16 = n + 8 * (m mod 2)" "(n + 8 * m) div 16 = m div 2"
    using mod_mult_self2 [of "n + 8 * (m mod 2)" 16] div_mult_self2 [of 16 "n + 8 * (m mod 2)"]
    by (simp_all only: mod_less div_less)
  have "m div 2 < 16" using assms(5) by simp
  moreover have "unat (drop_bit 4 ?w) = m div 2"
    using w parts(2) by (simp only: unat_drop_bit_eq, simp add: drop_bit_eq_div)
  ultimately have "unat (?w AND 15) = n + 8 * (m mod 2)" "unat (drop_bit 4 ?w AND 15) = m div 2"
    by (simp_all only: low w parts mod_less)
  moreover have "lp_returnNumber (decode_fields h r) = ?w AND 15"
    "lp_numberOfReturns (decode_fields h r) = drop_bit 4 ?w AND 15"
    using assms(2) by (simp_all add: decode_fields_def decode_waveform_def decode_legacy_def decode_base_def
        decode_color_def decode_time_def Let_def)
  ultimately show ?thesis using p by auto
qed


section \<open>Samples\<close>

text \<open>
  Two records at the origin: a waveform point of format 9, and the only return of a pulse in
  format 0.
\<close>

definition sample_header_9 :: LasHeader where
  "sample_header_9 = sample_header\<lparr>versionMinor := 4, pointFormat := 9, pointRecordLength := 59\<rparr>"

definition sample_record_9 :: "u8 list" where
  "sample_record_9 = replicate 12 0 @ replicate 18 0 @ [129, 7] @ replicate 27 0"

definition sample_record_0 :: "u8 list" where
  "sample_record_0 = replicate 12 0 @ [0, 0, 9, 0, 0, 0, 0, 0]"

lemma dmul_zero_one: "dadd (dmul (fof_int binary64 0) (F_Fin 1)) fzero = fzero"
  by code_simp

lemma le_value_zero: "le_value (replicate n 0) = 0"
  by (induction n) simp_all

lemma raw_zero: "to_signed 4 (le_value (replicate 4 0)) = 0"
  by (simp add: le_value_zero to_signed_def)

lemma scaled_zero:
  "off \<le> 8 \<Longrightarrow> scaled (replicate 12 0 @ r) off (F_Fin 1) (F_Fin 0) = F_Fin 0"
  by (simp add: scaled_def read_sint_def read_uint_def sub_bytes_def dmul_zero_one raw_zero)

lemma sample_decoded:
  assumes "las_extraBytes h = []" "LasHeader_IsValid h" "IsSupportedFormatForVersion (versionMinor h) (pointFormat h)"
    "MinimumRecordLength (pointFormat h) \<le> pointRecordLength h" "pointRecordLength h \<le> 12 + length r"
    "xScale h = F_Fin 1" "yScale h = F_Fin 1" "zScale h = F_Fin 1"
    "xOffset h = F_Fin 0" "yOffset h = F_Fin 0" "zOffset h = F_Fin 0"
  shows "DecodePoint h (replicate 12 0 @ r) = Inr (decode_fields h (replicate 12 0 @ r)\<lparr>lp_extraBytes := []\<rparr>)"
  using assms by (simp add: DecodePoint_Inr decode_fields_flags(1) decode_base_def scaled_zero Vec3d_IsFinite_def
      Let_def)

lemma sample_headers:
  "LasHeader_IsValid sample_header_9" "LasHeader_IsValid sample_header"
  by (simp_all add: sample_header_9_def sample_header_def empty_header_def LasHeader_IsValid_def
      SpatialBounds_IsValid_def)

lemma sample_point_9:
  "DecodePoint sample_header_9 sample_record_9 = Inr (decode_fields sample_header_9 sample_record_9\<lparr>lp_extraBytes := []\<rparr>)"
  unfolding sample_record_9_def
  by (rule sample_decoded) (simp_all add: sample_headers, simp_all add: sample_header_9_def sample_header_def
      empty_header_def IsSupportedFormatForVersion_def IsSupportedFormat_def MinimumRecordLength_def)

lemma sample_point_0:
  "DecodePoint sample_header sample_record_0 = Inr (decode_fields sample_header sample_record_0\<lparr>lp_extraBytes := []\<rparr>)"
  unfolding sample_record_0_def
  by (rule sample_decoded) (simp_all add: sample_headers, simp_all add: sample_header_def
      empty_header_def IsSupportedFormatForVersion_def IsSupportedFormat_def MinimumRecordLength_def)

theorem decoded_point_sound_witness:
  "DecodePoint sample_header_9 (take 59 sample_record_9 @ [1, 2]) =
     Inr (decode_fields sample_header_9 sample_record_9\<lparr>lp_extraBytes := []\<rparr>)"
  using decoded_point_sound [OF _ sample_point_9, of "[1, 2]"]
  by (simp add: ValidateExtraBytesLayout_def sample_header_9_def sample_header_def empty_header_def
      IsSupportedFormat_def MinimumRecordLength_def)

theorem format_9_colour_is_waveform_witness:
  "unat (lp_red (decode_fields sample_header_9 sample_record_9\<lparr>lp_extraBytes := []\<rparr>)) = 129 + 256 * 7"
  using format_9_colour_is_waveform [OF sample_point_9]
  by (simp add: sample_header_9_def sample_record_9_def read_uint_def sub_bytes_def)

theorem legacy_returns_misread_witness:
  "unat (lp_returnNumber (decode_fields sample_header sample_record_0\<lparr>lp_extraBytes := []\<rparr>)) = 9 \<and>
   unat (lp_numberOfReturns (decode_fields sample_header sample_record_0\<lparr>lp_extraBytes := []\<rparr>)) = 0"
  using legacy_returns_misread [OF sample_point_0, of 1 1]
  by (simp add: sample_header_def sample_record_0_def read_uint_def sub_bytes_def)

end
