(* ===== verification/Byte_Source.thy ===== *)
theory Byte_Source
  imports Byte_Codec
begin

text \<open>
  Random-access byte sources (\<^verbatim>\<open>usd-geo-core\<close>, \<^verbatim>\<open>RandomAccessSource.h\<close> and \<^verbatim>\<open>.cpp\<close>).  The
  virtual class is a record of its operations over a state \<open>'s\<close>; the local file source keeps
  its name and the number of bytes read.  What the operating system answers (whether the file
  opens, whether its size, a seek and a read succeed) is part of the source's state, since the
  code opens the file anew on every call.

  The locale \<open>readable_source\<close> is the contract the readers rely on: the source has a fixed
  content, reports its size and delivers every range inside it.  The local file source of a
  readable file satisfies it.
\<close>

section \<open>The interface\<close>

record 's source =
  GetSize :: "'s \<Rightarrow> Diagnostic list + nat"
  Read :: "nat \<Rightarrow> nat \<Rightarrow> 's \<Rightarrow> (Diagnostic list + u8 list) \<times> 's"
  BytesRead :: "'s \<Rightarrow> nat"

abbreviation stream_max :: nat where
  "stream_max \<equiv> 9223372036854775807"

section \<open>Local files\<close>

record os_file =
  file_bytes :: "u8 list option"
  size_known :: bool
  seek_ok :: "nat \<Rightarrow> bool"
  read_ok :: "nat \<Rightarrow> nat \<Rightarrow> bool"

record LocalRandomAccessSource =
  source_name :: string
  os :: os_file
  bytesRead :: nat

definition new_local_source :: "string \<Rightarrow> os_file \<Rightarrow> LocalRandomAccessSource" where
  "new_local_source name f = \<lparr>source_name = name, os = f, bytesRead = 0\<rparr>"

definition AddDiagnostic :: "DiagnosticCode \<Rightarrow> string \<Rightarrow> nat option \<Rightarrow> Diagnostic" where
  "AddDiagnostic c m off = error_diag c m\<lparr>byteOffset := off\<rparr>"

definition Local_GetSize :: "LocalRandomAccessSource \<Rightarrow> Diagnostic list + nat" where
  "Local_GetSize s =
     (case file_bytes (os s) of
        None \<Rightarrow> Inl [AddDiagnostic SourceOpenFailed (''could not open source: '' @ source_name s) None]
      | Some bs \<Rightarrow>
          if \<not> size_known (os s)
          then Inl [AddDiagnostic SourceSizeUnavailable (''could not determine source size: '' @ source_name s) None]
          else Inr (length bs))"

definition Local_Read ::
  "nat \<Rightarrow> nat \<Rightarrow> LocalRandomAccessSource \<Rightarrow> (Diagnostic list + u8 list) \<times> LocalRandomAccessSource" where
  "Local_Read off n s =
     (if stream_max < n
      then (Inl [AddDiagnostic InvalidOffset ''source byte range is too large'' (Some off)], s)
      else case file_bytes (os s) of
        None \<Rightarrow> (Inl [AddDiagnostic SourceOpenFailed (''could not open source: '' @ source_name s) None], s)
      | Some bs \<Rightarrow>
          if \<not> size_known (os s)
          then (Inl [AddDiagnostic SourceSizeUnavailable (''could not determine source size: '' @ source_name s) None], s)
          else if length bs < off \<or> length bs - off < n
          then (Inl [AddDiagnostic InvalidOffset ''source byte range is outside the source'' (Some off)], s)
          else if stream_max < off
          then (Inl [AddDiagnostic InvalidOffset ''source byte range offset is invalid'' (Some off)], s)
          else if \<not> seek_ok (os s) off
          then (Inl [AddDiagnostic InvalidOffset ''source byte range seek failed'' (Some off)], s)
          else if n \<noteq> 0 \<and> \<not> read_ok (os s) off n
          then (Inl [AddDiagnostic TruncatedRecord ''source byte range is truncated'' (Some off)], s)
          else (Inr (sub_bytes off n bs), s\<lparr>bytesRead := (bytesRead s + n) mod (u64_max + 1)\<rparr>))"

definition local_source :: "LocalRandomAccessSource source" where
  "local_source = \<lparr>GetSize = Local_GetSize, Read = Local_Read, BytesRead = bytesRead\<rparr>"

section \<open>The contract\<close>

locale readable_source =
  fixes src :: "'s source"
    and content :: "'s \<Rightarrow> u8 list"
    and ready :: "'s \<Rightarrow> bool"
  assumes size: "ready s \<Longrightarrow> GetSize src s = Inr (length (content s))"
    and short: "ready s \<Longrightarrow> length (content s) \<le> stream_max"
    and read: "ready s \<Longrightarrow> off + n \<le> length (content s) \<Longrightarrow>
          fst (Read src off n s) = Inr (sub_bytes off n (content s)) \<and>
          ready (snd (Read src off n s)) \<and> content (snd (Read src off n s)) = content s"
begin

lemma read_exact:
  assumes "ready s" "off + n \<le> length (content s)"
  obtains s' where "Read src off n s = (Inr (sub_bytes off n (content s)), s')" "ready s'" "content s' = content s"
proof
  show "Read src off n s = (Inr (sub_bytes off n (content s)), snd (Read src off n s))"
    using read [OF assms] by (metis prod.collapse)
qed (use read [OF assms] in auto)

end

definition readable_file :: "LocalRandomAccessSource \<Rightarrow> bool" where
  "readable_file s \<longleftrightarrow> (\<exists>bs. file_bytes (os s) = Some bs \<and> length bs \<le> stream_max) \<and> size_known (os s) \<and>
     (\<forall>off. seek_ok (os s) off) \<and> (\<forall>off n. read_ok (os s) off n)"

definition file_content :: "LocalRandomAccessSource \<Rightarrow> u8 list" where
  "file_content s = (case file_bytes (os s) of None \<Rightarrow> [] | Some bs \<Rightarrow> bs)"

interpretation local_file: readable_source local_source file_content readable_file
  by unfold_locales
    (auto simp: local_source_def readable_file_def file_content_def Local_GetSize_def Local_Read_def)

definition plain_file :: "u8 list \<Rightarrow> os_file" where
  "plain_file bs = \<lparr>file_bytes = Some bs, size_known = True, seek_ok = (\<lambda>_. True), read_ok = (\<lambda>_ _. True)\<rparr>"

lemma plain_file_readable:
  "length bs \<le> stream_max \<Longrightarrow> readable_file (new_local_source name (plain_file bs))"
  "file_content (new_local_source name (plain_file bs)) = bs"
  by (simp_all add: readable_file_def file_content_def new_local_source_def plain_file_def)

end
