(* ===== verification/Las_Reader.thy ===== *)
theory Las_Reader
  imports Las_Metadata Las_Point Byte_Source
begin

text \<open>
  Reading LAS files in chunks (\<^verbatim>\<open>LasReader.cpp\<close>).  A reader operation is an action on the
  state of its byte source and, for the reading of points, of the consumer of the chunks: it
  returns an error or a value, and the new state.  The members \<^verbatim>\<open>failure*_\<close> of the reader,
  which every operation resets, are the error value.  \<^verbatim>\<open>sizeof(LasPoint)\<close> is the argument
  \<open>point_size\<close>.

  \<^verbatim>\<open>reader_delivers_range\<close> states what a successful read delivers.
\<close>

unbundle bit_operations_syntax

section \<open>Actions\<close>

type_synonym ('s, 'e, 'a) action = "'s \<Rightarrow> ('e + 'a) \<times> 's"

definition fail :: "'e \<Rightarrow> ('s, 'e, 'a) action" where
  "fail e = (\<lambda>s. (Inl e, s))"

definition ok :: "'a \<Rightarrow> ('s, 'e, 'a) action" where
  "ok x = (\<lambda>s. (Inr x, s))"

definition then_do :: "('s, 'e, 'a) action \<Rightarrow> ('a \<Rightarrow> ('s, 'e, 'b) action) \<Rightarrow> ('s, 'e, 'b) action" where
  "then_do m f = (\<lambda>s. case m s of (Inl e, s') \<Rightarrow> (Inl e, s') | (Inr x, s') \<Rightarrow> f x s')"

definition map_error :: "('e \<Rightarrow> 'f) \<Rightarrow> ('s, 'e, 'a) action \<Rightarrow> ('s, 'f, 'a) action" where
  "map_error g m = (\<lambda>s. case m s of (Inl e, s') \<Rightarrow> (Inl (g e), s') | (Inr x, s') \<Rightarrow> (Inr x, s'))"

definition lift :: "('e \<Rightarrow> 'f) \<Rightarrow> 'e + 'a \<Rightarrow> ('s, 'f, 'a) action" where
  "lift g r = (case r of Inl e \<Rightarrow> fail (g e) | Inr x \<Rightarrow> ok x)"

definition on_source :: "('s, 'e, 'a) action \<Rightarrow> ('s \<times> 'c, 'e, 'a) action" where
  "on_source m = (\<lambda>(s, c). case m s of (r, s') \<Rightarrow> (r, (s', c)))"

lemmas action_defs = fail_def ok_def then_do_def map_error_def lift_def on_source_def

section \<open>Byte ranges\<close>

datatype RangeReadFailure = Range_InvalidOffset | Range_Seek | Range_Read

record range_error =
  range_failure :: RangeReadFailure
  range_message :: string
  range_diagnostics :: "Diagnostic list"

definition new_range_error :: "RangeReadFailure \<Rightarrow> string \<Rightarrow> Diagnostic list \<Rightarrow> range_error" where
  "new_range_error f m ds = \<lparr>range_failure = f, range_message = m, range_diagnostics = ds\<rparr>"

definition ReadFileRange :: "'s source \<Rightarrow> nat \<Rightarrow> nat \<Rightarrow> ('s, range_error, u8 list) action" where
  "ReadFileRange src off n = (\<lambda>s.
     if stream_max < off then
       (let m = ''LAS byte range offset is invalid'' in
        (Inl (new_range_error Range_InvalidOffset m [AddDiagnostic InvalidOffset m (Some off)]), s))
     else case Read src off n s of
       (Inl ds, s') \<Rightarrow>
         (let m = (if ds = [] then ''LAS byte range read failed'' else message (hd ds)) in
          (Inl (new_range_error
             (if ds = [] \<or> code (hd ds) = InvalidOffset then Range_InvalidOffset else Range_Read) m
             (if ds = [] then [AddDiagnostic DecodeFailure m (Some off)] else ds)), s'))
     | (Inr bytes, s') \<Rightarrow>
         if length bytes \<noteq> n then
           (let m = ''LAS byte range read returned a short buffer'' in
            (Inl (new_range_error Range_Read m [AddDiagnostic TruncatedRecord m (Some off)]), s'))
         else (Inr bytes, s'))"

section \<open>Failures\<close>

datatype LasReadFailure =
    Fail_None | Fail_InvalidRequest | Fail_Asset | Fail_FileOpen | Fail_FileSize | Fail_Header | Fail_Vlr
  | Fail_EvlrOffset | Fail_Evlr | Fail_PointDataTruncated | Fail_PointDataSeek | Fail_PointDataRead
  | Fail_PointDecode | Fail_Other

definition SourceFailureKind :: "Diagnostic list \<Rightarrow> LasReadFailure \<Rightarrow> LasReadFailure" where
  "SourceFailureKind ds fallback =
     (if ds \<noteq> [] \<and> code (hd ds) = SourceOpenFailed then Fail_FileOpen
      else if ds \<noteq> [] \<and> code (hd ds) = SourceSizeUnavailable then Fail_FileSize else fallback)"

record reader_failure =
  failureKind :: LasReadFailure
  failure_error :: string
  failureDiagnostic :: "Diagnostic option"
  failureByteOffset :: "nat option"
  failurePointIndex :: "nat option"

definition failed :: "LasReadFailure \<Rightarrow> string \<Rightarrow> reader_failure" where
  "failed k e = \<lparr>failureKind = k, failure_error = e, failureDiagnostic = None, failureByteOffset = None,
     failurePointIndex = None\<rparr>"

definition source_failed :: "LasReadFailure \<Rightarrow> string \<Rightarrow> Diagnostic list \<Rightarrow> reader_failure" where
  "source_failed k e ds = failed k e\<lparr>failureDiagnostic := (if ds = [] then None else Some (hd ds))\<rparr>"

definition range_failed :: "LasReadFailure \<Rightarrow> range_error \<Rightarrow> reader_failure" where
  "range_failed fallback e =
     source_failed (SourceFailureKind (range_diagnostics e) fallback) (range_message e) (range_diagnostics e)"

section \<open>Metadata\<close>

definition metadata_size :: "'s source \<Rightarrow> ('s, LasReadFailure \<times> Diagnostic list, nat) action" where
  "metadata_size src = (\<lambda>s. case GetSize src s of
       Inl ds \<Rightarrow> (Inl (SourceFailureKind ds Fail_FileSize,
           if ds = [] then [error_diag DecodeFailure ''could not determine LAS file size''] else ds), s)
     | Inr n \<Rightarrow> (Inr n, s))"

definition metadata_range ::
  "'s source \<Rightarrow> LasReadFailure \<Rightarrow> nat \<Rightarrow> nat \<Rightarrow> ('s, LasReadFailure \<times> Diagnostic list, u8 list) action" where
  "metadata_range src fallback off n =
     map_error (\<lambda>e. (SourceFailureKind (range_diagnostics e) fallback, range_diagnostics e)) (ReadFileRange src off n)"

definition metadata_extended ::
  "'s source \<Rightarrow> nat \<Rightarrow> nat \<Rightarrow> LasHeader \<Rightarrow>
     ('s, LasReadFailure \<times> Diagnostic list, LasVariableLengthRecord list) action" where
  "metadata_extended src fileSize budget h =
     (let off = firstExtendedVariableLengthRecordOffset h in
      if extendedVariableLengthRecordCount h = 0 then ok []
      else if fileSize < off then
        fail (Fail_EvlrOffset, [error_diagnostic ''LAS extended variable-length record offset is invalid''])
      else if budget - pointDataOffset h < fileSize - off then
        fail (Fail_Other, [error_diagnostic ''LAS metadata exceeds the configured memory budget''])
      else then_do (metadata_range src Fail_Evlr off (fileSize - off)) (\<lambda>bytes.
        lift (\<lambda>ds. (Fail_Evlr, ds)) (InspectRecords bytes 0 (extendedVariableLengthRecordCount h) True)))"

definition ReadMetadata ::
  "'s source option \<Rightarrow> nat \<Rightarrow> ('s, LasReadFailure \<times> Diagnostic list, LasHeader) action" where
  "ReadMetadata source budget =
     (case source of
        None \<Rightarrow> fail (Fail_FileOpen, [error_diag DecodeFailure ''LAS random-access source is missing''])
      | Some src \<Rightarrow>
          then_do (metadata_size src) (\<lambda>fileSize.
          then_do (metadata_range src Fail_Header 0 (min fileSize 375)) (\<lambda>bytes.
          then_do (lift (\<lambda>e. (Fail_Header, [error_diagnostic e])) (InspectHeader bytes)) (\<lambda>h.
          if fileSize < pointDataOffset h then
            fail (Fail_Vlr, [error_diagnostic ''LAS point data offset is outside the file''])
          else if budget < pointDataOffset h then
            fail (Fail_Other, [error_diagnostic ''LAS metadata exceeds the configured memory budget''])
          else
          then_do (metadata_range src Fail_Vlr 0 (pointDataOffset h)) (\<lambda>bytes.
          then_do (lift (\<lambda>ds. (Fail_Vlr, ds)) (InspectRecords bytes (headerSize h) (variableLengthRecordCount h) False))
            (\<lambda>rs.
          then_do (metadata_extended src fileSize budget h) (\<lambda>es.
          lift (\<lambda>ds. (Fail_Vlr, ds))
            (ParseKnownMetadata_diagnostics (rs @ es) (h\<lparr>variableLengthRecords := rs @ es\<rparr>)))))))))"

section \<open>Points\<close>

definition u64_diff :: "nat \<Rightarrow> nat \<Rightarrow> nat" where
  "u64_diff a b = (if b \<le> a then a - b else u64_max + 1 + a - b)"

fun decode_records ::
  "LasHeader \<Rightarrow> PointReadOptions \<Rightarrow> u8 list \<Rightarrow> nat list \<Rightarrow> (string \<times> nat) + LasPoint list" where
  "decode_records h opts bytes [] = Inr []"
| "decode_records h opts bytes (i # is) =
     (case DecodePoint h (sub_bytes (i * pointRecordLength h) (pointRecordLength h) bytes) of
        Inl e \<Rightarrow> Inl (e, i)
      | Inr p \<Rightarrow>
          (case decode_records h opts bytes is of
             Inl e \<Rightarrow> Inl e
           | Inr ps \<Rightarrow> Inr (if MatchesReadOptions p opts then p # ps else ps)))"

type_synonym 'c consumer = "LasHeader \<Rightarrow> LasPoint list \<Rightarrow> 'c \<Rightarrow> bool \<times> 'c"
type_synonym 'c cancellation = "'c \<Rightarrow> bool \<times> 'c"

definition cancelled :: "'c cancellation option \<Rightarrow> 'c \<Rightarrow> bool \<times> 'c" where
  "cancelled isCancelled c = (case isCancelled of None \<Rightarrow> (False, c) | Some f \<Rightarrow> f c)"

function read_chunks ::
  "'s source \<Rightarrow> 'c consumer \<Rightarrow> 'c cancellation option \<Rightarrow> PointReadOptions \<Rightarrow> LasHeader \<Rightarrow> nat \<Rightarrow> nat \<Rightarrow> nat \<Rightarrow>
     's \<Rightarrow> 'c \<Rightarrow> (reader_failure + unit) \<times> 's \<times> 'c" where
  "read_chunks src consume isCancelled opts h maximumPoints rangeEnd pointsRead s c =
     (if rangeEnd \<le> pointsRead \<or> maximumPoints = 0 then (Inr (), s, c)
      else case cancelled isCancelled c of
        (True, c1) \<Rightarrow> (Inl (failed Fail_Other ''LAS read cancelled''), s, c1)
      | (False, c1) \<Rightarrow>
          (let count = min maximumPoints (rangeEnd - pointsRead);
               off = (pointDataOffset h + pointsRead * pointRecordLength h) mod (u64_max + 1)
           in case ReadFileRange src off (count * pointRecordLength h) s of
             (Inl e, s1) \<Rightarrow>
               (Inl (range_failed (if range_failure e = Range_Seek then Fail_PointDataSeek else Fail_PointDataRead) e
                  \<lparr>failureByteOffset := Some off\<rparr>), s1, c1)
           | (Inr bytes, s1) \<Rightarrow>
               (case decode_records h opts bytes [0..<count] of
                  Inl (e, i) \<Rightarrow>
                    (Inl (failed Fail_PointDecode e\<lparr>failureByteOffset := Some (off + i * pointRecordLength h),
                       failurePointIndex := Some (pointsRead + i)\<rparr>), s1, c1)
                | Inr [] \<Rightarrow> read_chunks src consume isCancelled opts h maximumPoints rangeEnd (pointsRead + count) s1 c1
                | Inr (p # ps) \<Rightarrow>
                    (case consume h (p # ps) c1 of
                       (False, c2) \<Rightarrow> (Inl (failed Fail_Other ''LAS chunk consumer rejected a chunk''), s1, c2)
                     | (True, c2) \<Rightarrow>
                         read_chunks src consume isCancelled opts h maximumPoints rangeEnd (pointsRead + count) s1 c2))))"
  by pat_completeness auto
termination
  by (relation "measure (\<lambda>(src, consume, isCancelled, opts, h, maximumPoints, rangeEnd, pointsRead, s, c).
        rangeEnd - pointsRead)") auto

declare read_chunks.simps [simp del]

definition file_size_of :: "'s source \<Rightarrow> ('s, reader_failure, nat) action" where
  "file_size_of src = (\<lambda>s. case GetSize src s of
       Inl ds \<Rightarrow> (Inl (source_failed (SourceFailureKind ds Fail_FileSize)
           (if ds = [] then ''could not determine LAS file size'' else message (hd ds)) ds), s)
     | Inr n \<Rightarrow> (Inr n, s))"

definition range_end :: "PointReadOptions \<Rightarrow> LasHeader \<Rightarrow> nat" where
  "range_end opts h =
     (if range_pointCount (range opts) = 0 then las_pointCount h
      else firstPoint (range opts) + range_pointCount (range opts))"

definition maximum_points :: "nat \<Rightarrow> PointReadOptions \<Rightarrow> LasHeader \<Rightarrow> nat" where
  "maximum_points point_size opts h =
     min (chunkPointLimit opts) (memoryBudgetBytes opts div (pointRecordLength h * 2 + point_size))"

definition check_points :: "nat \<Rightarrow> PointReadOptions \<Rightarrow> LasHeader \<Rightarrow> nat \<Rightarrow> reader_failure option" where
  "check_points point_size opts h fileSize =
     (if pointRecordLength h = 0 \<or>
         u64_diff fileSize (pointDataOffset h) div pointRecordLength h < las_pointCount h
      then Some (failed Fail_PointDataTruncated ''LAS point data is truncated'')
      else if las_pointCount h < firstPoint (range opts) \<or>
              (range_pointCount (range opts) \<noteq> 0 \<and>
               las_pointCount h - firstPoint (range opts) < range_pointCount (range opts))
      then Some (failed Fail_Other ''LAS point range is outside the header'')
      else if u64_max div 2 - point_size < pointRecordLength h
      then Some (failed Fail_Other ''LAS point record size is invalid'')
      else if maximum_points point_size opts h = 0
      then Some (failed Fail_Other ''LAS memory budget is too small for one point'')
      else None)"

definition ReadPoints ::
  "nat \<Rightarrow> 's source option \<Rightarrow> 'c consumer option \<Rightarrow> 'c cancellation option \<Rightarrow> PointReadOptions \<Rightarrow> LasHeader \<Rightarrow>
     ('s \<times> 'c, reader_failure, unit) action" where
  "ReadPoints point_size source consumer isCancelled opts h =
     (case (PointReadOptions_IsValid opts, consumer) of
        (True, Some consume) \<Rightarrow>
          (case source of
             None \<Rightarrow> fail (failed Fail_FileOpen ''LAS random-access source is missing'')
           | Some src \<Rightarrow>
               then_do (on_source (file_size_of src)) (\<lambda>fileSize.
               then_do (on_source (map_error (range_failed Fail_Header) (ReadFileRange src 104 1))) (\<lambda>bytes.
               if hd bytes AND 0xC0 \<noteq> 0
               then fail (failed Fail_Header ''LAS point reader cannot decode compressed point data'')
               else case check_points point_size opts h fileSize of
                 Some e \<Rightarrow> fail e
               | None \<Rightarrow> (\<lambda>(s, c). read_chunks src consume isCancelled opts h (maximum_points point_size opts h)
                   (range_end opts h) (firstPoint (range opts)) s c))))
      | _ \<Rightarrow> fail (failed Fail_InvalidRequest ''LAS read options or consumer are invalid''))"

section \<open>Whole files\<close>

definition read_extended ::
  "'s source \<Rightarrow> nat \<Rightarrow> LasHeader \<Rightarrow> ('s, reader_failure, LasVariableLengthRecord list) action" where
  "read_extended src fileSize h =
     (let off = firstExtendedVariableLengthRecordOffset h in
      if extendedVariableLengthRecordCount h = 0 then ok []
      else if fileSize < off then
        fail (failed Fail_EvlrOffset ''LAS extended variable-length record offset is invalid'')
      else then_do (map_error (range_failed Fail_Evlr) (ReadFileRange src off (fileSize - off))) (\<lambda>bytes.
        lift (failed Fail_Evlr) (ReadRecords bytes 0 (extendedVariableLengthRecordCount h) True)))"

definition read_whole_header :: "'s source \<Rightarrow> ('s, reader_failure, LasHeader) action" where
  "read_whole_header src =
     then_do (file_size_of src) (\<lambda>fileSize.
     then_do (map_error (\<lambda>e. source_failed Fail_Header (range_message e) (range_diagnostics e))
         (ReadFileRange src 0 (min fileSize 375))) (\<lambda>bytes.
     then_do (lift (failed Fail_Header) (InspectHeader bytes)) (\<lambda>h.
     if fileSize < pointDataOffset h
     then fail (failed Fail_PointDataTruncated ''LAS point data offset is outside the file'')
     else
     then_do (map_error (range_failed Fail_Vlr) (ReadFileRange src 0 (pointDataOffset h))) (\<lambda>bytes.
     then_do (lift (failed Fail_Vlr) (ReadRecords bytes (headerSize h) (variableLengthRecordCount h) False)) (\<lambda>rs.
     then_do (read_extended src fileSize h) (\<lambda>es.
     lift (failed Fail_Vlr) (ParseKnownMetadata (rs @ es) (h\<lparr>variableLengthRecords := rs @ es\<rparr>))))))))"

definition LasReader_Read ::
  "nat \<Rightarrow> 's source option \<Rightarrow> 'c consumer option \<Rightarrow> 'c cancellation option \<Rightarrow> PointReadOptions \<Rightarrow>
     ('s \<times> 'c, reader_failure, LasHeader) action" where
  "LasReader_Read point_size source consumer isCancelled opts =
     (if \<not> PointReadOptions_IsValid opts \<or> consumer = None
      then fail (failed Fail_InvalidRequest ''LAS read options or consumer are invalid'')
      else case source of
          None \<Rightarrow> fail (failed Fail_FileOpen ''LAS random-access source is missing'')
        | Some src \<Rightarrow>
            then_do (on_source (read_whole_header src)) (\<lambda>h.
            then_do (ReadPoints point_size source consumer isCancelled opts h) (\<lambda>_. ok h)))"

definition failure_diagnostics :: "reader_failure \<Rightarrow> Diagnostic list" where
  "failure_diagnostics e =
     (case failureDiagnostic e of
        Some d \<Rightarrow> [d]
      | None \<Rightarrow> [error_diagnostic (failure_error e)
           \<lparr>byteOffset := failureByteOffset e, pointIndex := failurePointIndex e\<rparr>])"

definition LasReader_Read_diagnostics ::
  "nat \<Rightarrow> 's source option \<Rightarrow> 'c consumer option \<Rightarrow> 'c cancellation option \<Rightarrow> PointReadOptions \<Rightarrow>
     ('s \<times> 'c, LasReadFailure \<times> Diagnostic list, LasHeader) action" where
  "LasReader_Read_diagnostics point_size source consumer isCancelled opts =
     map_error (\<lambda>e. (failureKind e, failure_diagnostics e))
       (LasReader_Read point_size source consumer isCancelled opts)"

type_synonym 'c error_consumer = "LasHeader \<Rightarrow> LasPoint list \<Rightarrow> 'c \<Rightarrow> (bool \<times> string) \<times> 'c"

definition bridge :: "'c error_consumer \<Rightarrow> (string \<times> 'c) consumer" where
  \<comment> \<open>the message of the last call is kept beside the consumer's own state\<close>
  "bridge consume h ps = (\<lambda>(callbackError, c).
     case consume h ps c of ((accepted, e), c') \<Rightarrow> (accepted, (e, c')))"

definition bridge_cancelled :: "'c cancellation \<Rightarrow> (string \<times> 'c) cancellation" where
  "bridge_cancelled f = (\<lambda>(e, c). case f c of (stop, c') \<Rightarrow> (stop, (e, c')))"

definition with_callback_error :: "string \<Rightarrow> Diagnostic list \<Rightarrow> Diagnostic list" where
  "with_callback_error e ds =
     (case ds of [] \<Rightarrow> [] | d # ds' \<Rightarrow> if e \<noteq> [] then d\<lparr>message := e\<rparr> # ds' else ds)"

definition LasReader_Read_errors ::
  "nat \<Rightarrow> 's source option \<Rightarrow> 'c error_consumer \<Rightarrow> 'c cancellation option \<Rightarrow> PointReadOptions \<Rightarrow>
     ('s \<times> 'c, LasReadFailure \<times> Diagnostic list, LasHeader) action" where
  "LasReader_Read_errors point_size source consume isCancelled opts = (\<lambda>(s, c).
     case LasReader_Read_diagnostics point_size source (Some (bridge consume))
         (map_option bridge_cancelled isCancelled) opts (s, ([], c)) of
       (Inl (k, ds), (s', (e, c'))) \<Rightarrow> (Inl (k, with_callback_error e ds), (s', c'))
     | (Inr h, (s', (e, c'))) \<Rightarrow> (Inr h, (s', c')))"

section \<open>What is delivered\<close>

text \<open>
  What a consumer of chunks promises: \<open>seen xs c\<close> says that its state \<open>c\<close> has taken in the
  points \<open>xs\<close>; from such a state it accepts every further non-empty chunk of legal points, up
  to \<open>quota\<close> points altogether.
\<close>

definition accepts_chunks ::
  "'c consumer \<Rightarrow> LasHeader \<Rightarrow> (LasPoint list \<Rightarrow> 'c \<Rightarrow> bool) \<Rightarrow> (LasPoint \<Rightarrow> bool) \<Rightarrow> nat \<Rightarrow> nat \<Rightarrow> bool" where
  "accepts_chunks consume h seen legal limit quota \<longleftrightarrow>
     (\<forall>xs c qs. seen xs c \<and> qs \<noteq> [] \<and> length qs \<le> limit \<and> list_all legal (xs @ qs) \<and> length (xs @ qs) \<le> quota \<longrightarrow>
        (\<exists>c'. consume h qs c = (True, c') \<and> seen (xs @ qs) c'))"

lemma accepts_chunksD:
  assumes "accepts_chunks consume h seen legal limit quota" "seen xs c"
    "qs \<noteq> []" "length qs \<le> limit" "list_all legal (xs @ qs)" "length (xs @ qs) \<le> quota"
  obtains c' where "consume h qs c = (True, c')" "seen (xs @ qs) c'"
  using assms unfolding accepts_chunks_def by blast

definition record_bytes :: "u8 list \<Rightarrow> LasHeader \<Rightarrow> nat \<Rightarrow> u8 list" where
  \<comment> \<open>the point record with index \<open>i\<close>\<close>
  "record_bytes bs h i = sub_bytes (pointDataOffset h + i * pointRecordLength h) (pointRecordLength h) bs"

lemma decode_records_ok:
  "(\<And>i. i \<in> set is \<Longrightarrow> DecodePoint h (sub_bytes (i * pointRecordLength h) (pointRecordLength h) bytes) = Inr (p i)) \<Longrightarrow>
   decode_records h opts bytes is = Inr (filter (\<lambda>p. MatchesReadOptions p opts) (map p is))"
  by (induction "is") auto

abbreviation matching :: "PointReadOptions \<Rightarrow> LasPoint list \<Rightarrow> LasPoint list" where
  "matching opts ps \<equiv> filter (\<lambda>p. MatchesReadOptions p opts) ps"

context readable_source
begin

lemma ReadFileRange_inside:
  assumes "ready s" "off + n \<le> length (content s)"
  obtains s' where "ReadFileRange src off n s = (Inr (sub_bytes off n (content s)), s')" "ready s'"
    "content s' = content s"
proof -
  obtain s' where s': "Read src off n s = (Inr (sub_bytes off n (content s)), s')" "ready s'" "content s' = content s"
    using assms by (rule read_exact)
  moreover have "\<not> stream_max < off" using assms short [OF assms(1)] by simp
  moreover have "length (sub_bytes off n (content s)) = n" using assms(2) by (simp add: sub_bytes_def)
  ultimately show thesis by (intro that [of s']) (simp_all add: ReadFileRange_def)
qed

lemma read_chunks_delivers:
  assumes "0 < m" "ready s" "content s = bs" "a \<le> b"
    "pointDataOffset h + b * pointRecordLength h \<le> length bs"
    "\<And>i. a \<le> i \<Longrightarrow> i < b \<Longrightarrow> DecodePoint h (record_bytes bs h i) = Inr (p i)"
    "accepts_chunks consume h seen legal m quota" "seen xs c"
    "list_all legal (xs @ matching opts (map p [a..<b]))" "length (xs @ matching opts (map p [a..<b])) \<le> quota"
  shows "\<exists>s' c'. read_chunks src consume None opts h m b a s c = (Inr (), s', c') \<and>
    ready s' \<and> content s' = bs \<and> seen (xs @ matching opts (map p [a..<b])) c'"
  using assms
proof (induction "b - a" arbitrary: a s c xs rule: less_induct)
  case less
  show ?case
  proof (cases "a < b")
    case False
    then show ?thesis using less.prems by (subst read_chunks.simps) simp
  next
    case True
    let ?L = "pointRecordLength h" and ?n = "min m (b - a)"
    let ?off = "pointDataOffset h + a * ?L"
    have "a * ?L + ?n * ?L = (a + ?n) * ?L" by (simp add: distrib_right)
    also have "\<dots> \<le> b * ?L" using True by (intro mult_le_mono1) simp
    finally have end_of: "?off + ?n * ?L \<le> length bs" using less.prems(5) by simp
    then have no_wrap: "?off mod 18446744073709551616 = ?off" using short [OF less.prems(2)] less.prems(3) by simp
    obtain s1 where s1: "ReadFileRange src ?off (?n * ?L) s = (Inr (sub_bytes ?off (?n * ?L) bs), s1)"
      "ready s1" "content s1 = bs"
      using ReadFileRange_inside [OF less.prems(2), of ?off "?n * ?L"] end_of less.prems(3) by auto
    let ?group = "sub_bytes ?off (?n * ?L) bs" and ?qs = "matching opts (map p [a..<a + ?n])"
    have rec_at: "sub_bytes (i * ?L) ?L ?group = record_bytes bs h (a + i)" if "i < ?n" for i
    proof -
      have "i * ?L + ?L = (i + 1) * ?L" by simp
      also have "\<dots> \<le> ?n * ?L" using that by (intro mult_le_mono1) simp
      finally show ?thesis
        by (simp add: record_bytes_def sub_bytes_def drop_take take_take algebra_simps min_def)
    qed
    have "decode_records h opts ?group [0..<?n] = Inr (matching opts (map (\<lambda>i. p (a + i)) [0..<?n]))"
      using less.prems(6) rec_at by (intro decode_records_ok) auto
    also have "map (\<lambda>i. p (a + i)) [0..<?n] = map p [a..<a + ?n]"
      by (intro nth_equalityI) simp_all
    finally have decoded: "decode_records h opts ?group [0..<?n] = Inr ?qs" .
    have "[a..<b] = [a..<a + ?n] @ [a + ?n..<b]"
      using upt_add_eq_append [of a "a + ?n" "b - (a + ?n)"] True by (cases "m \<le> b - a") (simp_all add: min_def)
    then have parts: "matching opts (map p [a..<b]) = ?qs @ matching opts (map p [a + ?n..<b])" by simp
    have step: "\<exists>s' c'. read_chunks src consume None opts h m b (a + ?n) s1 d = (Inr (), s', c') \<and>
      ready s' \<and> content s' = bs \<and> seen (xs @ matching opts (map p [a..<b])) c'"
      if "seen (xs @ ?qs) d" for d
    proof -
      have all: "list_all legal ((xs @ ?qs) @ matching opts (map p [a + ?n..<b]))"
        "length ((xs @ ?qs) @ matching opts (map p [a + ?n..<b])) \<le> quota"
        using less.prems(9,10) unfolding parts append_assoc .
      have "b - (a + ?n) < b - a" "a + ?n \<le> b" using True less.prems(1) by auto
      moreover have "DecodePoint h (record_bytes bs h i) = Inr (p i)" if "a + ?n \<le> i" "i < b" for i
        using less.prems(6) that by simp
      ultimately show ?thesis
        using less.hyps [OF _ less.prems(1) s1(2,3) _ less.prems(5) _ less.prems(7) that all]
        unfolding parts append_assoc by blast
    qed
    have unfold: "read_chunks src consume None opts h m b a s c =
        (case decode_records h opts ?group [0..<?n] of
           Inl (e, i) \<Rightarrow> (Inl (failed Fail_PointDecode e\<lparr>failureByteOffset := Some (?off + i * ?L),
                       failurePointIndex := Some (a + i)\<rparr>), s1, c)
         | Inr [] \<Rightarrow> read_chunks src consume None opts h m b (a + ?n) s1 c
         | Inr (p # ps) \<Rightarrow> (case consume h (p # ps) c of
               (False, c2) \<Rightarrow> (Inl (failed Fail_Other ''LAS chunk consumer rejected a chunk''), s1, c2)
             | (True, c2) \<Rightarrow> read_chunks src consume None opts h m b (a + ?n) s1 c2))"
      using less.prems(1) True by (subst read_chunks.simps) (simp add: cancelled_def Let_def no_wrap s1(1))
    show ?thesis
    proof (cases ?qs)
      case Nil
      then show ?thesis using step [of c] less.prems(8) unfolding unfold decoded by simp
    next
      case (Cons q qs)
      have "length ?qs \<le> m" by (rule le_trans [OF length_filter_le]) simp
      moreover have "list_all legal (xs @ ?qs)" using less.prems(9) unfolding parts by simp
      moreover have "length (xs @ ?qs) \<le> quota" using less.prems(10) unfolding parts by simp
      moreover have "?qs \<noteq> []" using Cons by (simp only: list.distinct not_False_eq_True)
      ultimately obtain c2 where "consume h ?qs c = (True, c2)" "seen (xs @ ?qs) c2"
        using accepts_chunksD [OF less.prems(7,8)] by blast
      then show ?thesis using step [of c2] Cons unfolding unfold decoded by simp
    qed
  qed
qed

lemma ReadPoints_delivers:
  assumes "ready s" "content s = bs" "PointReadOptions_IsValid opts" "104 < length bs" "bs ! 104 AND 0xC0 = 0"
    "check_points point_size opts h (length bs) = None"
    "pointDataOffset h \<le> length bs"
    "\<And>i. firstPoint (range opts) \<le> i \<Longrightarrow> i < range_end opts h \<Longrightarrow> DecodePoint h (record_bytes bs h i) = Inr (p i)"
    "accepts_chunks consume h seen legal (maximum_points point_size opts h) quota" "seen xs c"
    "list_all legal (xs @ matching opts (map p [firstPoint (range opts)..<range_end opts h]))"
    "length (xs @ matching opts (map p [firstPoint (range opts)..<range_end opts h])) \<le> quota"
  shows "\<exists>s' c'. ReadPoints point_size (Some src) (Some consume) None opts h (s, c) = (Inr (), s', c') \<and>
    ready s' \<and> content s' = bs \<and> seen (xs @ matching opts (map p [firstPoint (range opts)..<range_end opts h])) c'"
proof -
  let ?a = "firstPoint (range opts)" and ?b = "range_end opts h"
  have facts: "pointRecordLength h \<noteq> 0"
    "las_pointCount h \<le> (length bs - pointDataOffset h) div pointRecordLength h"
    "?a \<le> ?b" "?b \<le> las_pointCount h" "0 < maximum_points point_size opts h"
    using assms(6,7) by (auto simp: check_points_def range_end_def u64_diff_def split: if_splits)
  have "?b * pointRecordLength h \<le> length bs - pointDataOffset h"
    using facts by (metis div_times_less_eq_dividend le_trans mult_le_mono1)
  then have inside: "pointDataOffset h + ?b * pointRecordLength h \<le> length bs" using assms(7) by simp
  obtain s1 where s1: "ReadFileRange src 104 1 s = (Inr (sub_bytes 104 1 bs), s1)" "ready s1" "content s1 = bs"
    using ReadFileRange_inside [OF assms(1), of 104 1] assms(2,4) by auto
  have "hd (sub_bytes 104 1 bs) = bs ! 104" using assms(4) by (simp add: sub_bytes_def hd_drop_conv_nth)
  then have "ReadPoints point_size (Some src) (Some consume) None opts h (s, c) =
      read_chunks src consume None opts h (maximum_points point_size opts h) ?b ?a s1 c"
    using assms(1-6) size [OF assms(1)] s1(1)
    by (simp add: ReadPoints_def action_defs file_size_of_def)
  then show ?thesis
    using read_chunks_delivers [where p = p and consume = consume and seen = seen and xs = xs and c = c,
        OF facts(5) s1(2,3) facts(3) inside assms(8-12)]
    by simp
qed

end

section \<open>Metadata from a source\<close>

lemma record_header_fields: "off + record_header_length x \<le> length bs \<Longrightarrow>
    off + (if x then 28 else 22) + 32 \<le> length bs \<and> off + 20 + (if x then 8 else 2) \<le> length bs"
  by (cases x) (simp_all add: record_header_length_def)

lemma record_reads_append:
  assumes "off + record_header_length x \<le> length bs"
  shows "read_record_length (bs @ junk) off x = read_record_length bs off x"
    "off + record_header_length x + read_record_length bs off x \<le> length bs \<Longrightarrow>
     read_record (bs @ junk) off x = read_record bs off x"
proof -
  show len: "read_record_length (bs @ junk) off x = read_record_length bs off x"
    using record_header_fields [OF assms] by (cases x) (simp_all add: read_record_length_def read_local)
  show "read_record (bs @ junk) off x = read_record bs off x"
    if "off + record_header_length x + read_record_length bs off x \<le> length bs"
    using record_header_fields [OF assms] that len
    by (cases x) (simp_all add: read_record_def read_local sub_bytes_append)
qed

lemma ReadRecords_append: "ReadRecords bs off n x = Inr rs \<Longrightarrow> ReadRecords (bs @ junk) off n x = Inr rs"
proof (induction n arbitrary: off rs)
  case (Suc n)
  let ?len = "read_record_length bs off x" and ?hl = "record_header_length x"
  from Suc.prems have inside: "off + ?hl \<le> length bs" "off + ?hl + ?len \<le> length bs"
    by (auto simp: Let_def Has_iff split: if_split_asm)
  note same = record_reads_append(1) [OF inside(1)] record_reads_append(2) [OF inside]
  obtain rs' where "ReadRecords bs (off + ?hl + ?len) n x = Inr rs'" "rs = read_record bs off x # rs'"
    using Suc.prems by (auto simp: Let_def split: if_split_asm sum.split_asm)
  then show ?case using Suc.IH inside by (simp add: Let_def Has_iff same)
qed simp

lemma sub_bytes_drop: "sub_bytes off n (drop k bs) = sub_bytes (k + off) n bs"
  by (simp add: sub_bytes_def add.commute)

lemma ReadRecords_drop: "k \<le> length bs \<Longrightarrow> ReadRecords (drop k bs) off n x = ReadRecords bs (k + off) n x"
proof (induction n arbitrary: off)
  case (Suc n)
  have same: "read_record_length (drop k bs) off x = read_record_length bs (k + off) x"
    "read_record (drop k bs) off x = read_record bs (k + off) x"
    by (simp_all add: read_record_length_def read_record_def read_uint_def ReadText_def sub_bytes_drop add.assoc)
  have has: "Has (drop k bs) off m = Has bs (k + off) m" for m using Suc.prems by (auto simp: Has_iff)
  show ?case unfolding ReadRecords.simps Let_def same has Suc.IH [OF Suc.prems] by (simp add: add.assoc)
qed simp

lemma then_do_Inr: "then_do m f s = (Inr y, t) \<longleftrightarrow> (\<exists>x s'. m s = (Inr x, s') \<and> f x s' = (Inr y, t))"
  by (auto simp: then_do_def split: prod.splits sum.splits)

lemma lift_Inr: "lift g r s = (Inr y, t) \<longleftrightarrow> r = Inr y \<and> t = s"
  by (auto simp: lift_def fail_def ok_def split: sum.splits)

lemma fail_not_Inr [simp]: "fail e s \<noteq> (Inr y, t)"
  by (simp add: fail_def)

lemma InspectRecords_Inr: "InspectRecords bs off n x = Inr rs \<longleftrightarrow> ReadRecords bs off n x = Inr rs"
  by (auto simp: InspectRecords_def split: sum.splits)

lemma ParseKnownMetadata_diagnostics_Inr: "ParseKnownMetadata_diagnostics rs h = Inr h' \<longleftrightarrow> ParseKnownMetadata rs h = Inr h'"
  by (auto simp: ParseKnownMetadata_diagnostics_def split: sum.splits)

context readable_source
begin

lemma metadata_range_inside:
  assumes "ready s" "off + n \<le> length (content s)" "metadata_range src k off n s = (Inr bytes, t)"
  shows "bytes = sub_bytes off n (content s) \<and> ready t \<and> content t = content s"
proof -
  obtain s' where "ReadFileRange src off n s = (Inr (sub_bytes off n (content s)), s')" "ready s'"
    "content s' = content s"
    using ReadFileRange_inside [OF assms(1,2)] .
  then show ?thesis using assms(3) by (simp add: metadata_range_def map_error_def)
qed

lemma metadata_extended_content:
  assumes "ready s" "metadata_extended src (length (content s)) budget h s = (Inr es, t)"
  shows "if extendedVariableLengthRecordCount h = 0 then es = []
    else firstExtendedVariableLengthRecordOffset h \<le> length (content s) \<and>
      ReadRecords (content s) (firstExtendedVariableLengthRecordOffset h) (extendedVariableLengthRecordCount h) True = Inr es"
proof (cases "extendedVariableLengthRecordCount h = 0")
  case False
  let ?off = "firstExtendedVariableLengthRecordOffset h"
  from assms(2) False obtain bytes s1 where off: "?off \<le> length (content s)"
    and range: "metadata_range src Fail_Evlr ?off (length (content s) - ?off) s = (Inr bytes, s1)"
    and rs: "ReadRecords bytes 0 (extendedVariableLengthRecordCount h) True = Inr es"
    by (auto simp: metadata_extended_def Let_def then_do_Inr lift_Inr InspectRecords_Inr split: if_split_asm)
  have "bytes = drop ?off (content s)"
    using metadata_range_inside [OF assms(1) _ range] off by (simp add: sub_bytes_def)
  then show ?thesis using rs off ReadRecords_drop [OF off, of 0] False by simp
qed (use assms(2) in \<open>simp add: metadata_extended_def ok_def\<close>)

lemma ReadMetadata_content:
  assumes "ready s" "ReadMetadata (Some src) budget s = (Inr h, t)"
  shows "InspectMetadata (content s) =
    (if extendedVariableLengthRecordCount h \<noteq> 0 \<and> firstExtendedVariableLengthRecordOffset h = 0
     then Inl ''LAS extended variable-length record offset is invalid'' else Inr h)"
proof -
  let ?bs = "content s"
  from assms(2) obtain n s0 b1 s1 h1 b2 s2 rs es s3 where size_read: "metadata_size src s = (Inr n, s0)"
    and b1: "metadata_range src Fail_Header 0 (min n 375) s0 = (Inr b1, s1)"
    and h1: "InspectHeader b1 = Inr h1" and pdo: "pointDataOffset h1 \<le> n"
    and b2: "metadata_range src Fail_Vlr 0 (pointDataOffset h1) s1 = (Inr b2, s2)"
    and rs: "ReadRecords b2 (headerSize h1) (variableLengthRecordCount h1) False = Inr rs"
    and es: "metadata_extended src n budget h1 s2 = (Inr es, s3)"
    and h: "ParseKnownMetadata (rs @ es) (h1\<lparr>variableLengthRecords := rs @ es\<rparr>) = Inr h"
    by (auto simp: ReadMetadata_def then_do_Inr lift_Inr InspectRecords_Inr ParseKnownMetadata_diagnostics_Inr
        split: if_split_asm)
  have n: "n = length ?bs" "s0 = s" using size_read size [OF assms(1)] by (auto simp: metadata_size_def)
  have p1: "b1 = take (min n 375) ?bs" "ready s1" "content s1 = ?bs"
    using metadata_range_inside [OF assms(1) _ b1 [unfolded n(2)]] n by (simp_all add: sub_bytes_def)
  have p2: "b2 = take (pointDataOffset h1) ?bs" "ready s2" "content s2 = ?bs"
    using metadata_range_inside [OF p1(2) _ b2] p1(3) pdo n by (simp_all add: sub_bytes_def)
  have "InspectHeader ?bs = Inr h1"
    using InspectHeader_accepted(5) [OF h1, of "drop (min n 375) ?bs"] by (simp add: p1(1))
  moreover have "ReadRecords ?bs (headerSize h1) (variableLengthRecordCount h1) False = Inr rs"
    using ReadRecords_append [OF rs, of "drop (pointDataOffset h1) ?bs"] by (simp add: p2(1))
  moreover have "extendedVariableLengthRecordCount h = extendedVariableLengthRecordCount h1"
    "firstExtendedVariableLengthRecordOffset h = firstExtendedVariableLengthRecordOffset h1"
    using ParseKnownMetadata_keeps [OF h] by simp_all
  moreover note metadata_extended_content [OF p2(2) es [unfolded n(1) p2(3) [symmetric]]]
  ultimately show ?thesis using h by (auto simp: InspectMetadata_def p2(3) split: if_split_asm)
qed

end

section \<open>Reading local files\<close>

definition collect :: "LasPoint list list consumer" where
  "collect h qs c = (True, c @ [qs])"

lemma collect_accepts:
  "accepts_chunks collect h (\<lambda>xs qss. concat qss = xs \<and> (\<forall>qs \<in> set qss. qs \<noteq> [] \<and> length qs \<le> m)) (\<lambda>_. True) m n"
  by (auto simp: accepts_chunks_def collect_def)

text \<open>
  Claim C3: Reading points from a readable file succeeds when the checks on the header pass and
  every record of the range decodes.  The consumer is called with non-empty chunks of at most the
  chunk limit, which together are exactly the points of the range that pass the filters, in file
  order: the chunk limit and the memory budget never change which points are delivered.
\<close>

theorem reader_delivers_range:
  assumes "readable_file s" "file_content s = bs" "PointReadOptions_IsValid opts" "104 < length bs"
    "bs ! 104 AND 0xC0 = 0" "check_points point_size opts h (length bs) = None" "pointDataOffset h \<le> length bs"
    "map (\<lambda>i. DecodePoint h (record_bytes bs h i)) [firstPoint (range opts)..<range_end opts h] = map Inr ps"
  shows "\<exists>s' qss. ReadPoints point_size (Some local_source) (Some collect) None opts h (s, []) = (Inr (), s', qss) \<and>
    concat qss = matching opts ps \<and>
    (\<forall>qs \<in> set qss. qs \<noteq> [] \<and> length qs \<le> chunkPointLimit opts)"
proof -
  let ?a = "firstPoint (range opts)" and ?b = "range_end opts h" and ?m = "maximum_points point_size opts h"
  let ?p = "\<lambda>i. ps ! (i - ?a)"
  have len: "length ps = ?b - ?a" using arg_cong [OF assms(8), of length] by simp
  have decoded: "DecodePoint h (record_bytes bs h i) = Inr (?p i)" if "?a \<le> i" "i < ?b" for i
    using that len arg_cong [OF assms(8), of "\<lambda>xs. xs ! (i - ?a)"] nth_upt [of ?a "i - ?a" ?b] by simp
  have ps: "map ?p [?a..<?b] = ps" by (intro nth_equalityI) (simp_all add: len)
  obtain s' qss where "ReadPoints point_size (Some local_source) (Some collect) None opts h (s, []) = (Inr (), s', qss)"
      "concat qss = [] @ matching opts ps \<and> (\<forall>qs \<in> set qss. qs \<noteq> [] \<and> length qs \<le> ?m)"
    using local_file.ReadPoints_delivers [where p = ?p and c = "[]" and xs = "[]" and quota = "length (matching opts ps)",
        OF assms(1-7) decoded collect_accepts] by (auto simp: ps list_all_iff)
  moreover have "?m \<le> chunkPointLimit opts" by (simp add: maximum_points_def)
  ultimately show ?thesis by (auto intro: le_trans)
qed

text \<open>A file of five points at the origin, read from the second point in chunks of two.\<close>

definition sample_file_bytes :: "u8 list" where
  "sample_file_bytes = sample_header_bytes @ concat (replicate 5 sample_record_0)"

definition sample_options :: PointReadOptions where
  "sample_options = default_read_options\<lparr>chunkPointLimit := 2, range := \<lparr>firstPoint = 1, range_pointCount = 0\<rparr>\<rparr>"

lemma length_replicated: "length (concat (replicate n x)) = n * length x"
  by (induction n) simp_all

lemma length_sample_header: "length sample_header_bytes = 227"
  by (simp add: sample_header_bytes_def)

lemma length_sample_record: "length sample_record_0 = 20"
  by (simp add: sample_record_0_def)

lemma length_sample_file: "length sample_file_bytes = 327"
  by (simp only: sample_file_bytes_def length_append length_replicated length_sample_header length_sample_record)

lemma drop_replicated: "drop (i * length x) (concat (replicate n x)) = concat (replicate (n - i) x)"
proof (induction i arbitrary: n)
  case (Suc i)
  then show ?case by (cases n) simp_all
qed simp

lemma sample_records:
  assumes "i < 5"
  shows "record_bytes sample_file_bytes sample_header i = sample_record_0"
proof -
  have "drop (i * 20) (concat (replicate 5 sample_record_0)) = concat (replicate (5 - i) sample_record_0)"
    using drop_replicated [of i sample_record_0 5] length_sample_record by simp
  moreover have "5 - i = Suc (4 - i)" using assms by simp
  ultimately show ?thesis
    using length_sample_header length_sample_record
    by (simp add: record_bytes_def sub_bytes_def sample_file_bytes_def sample_header_def)
qed

lemma sample_bytes: "sample_file_bytes ! 104 = 0" "length sample_file_bytes \<le> stream_max"
  using length_sample_file length_sample_header
  by (simp_all add: sample_file_bytes_def nth_append) (simp add: sample_header_bytes_def nth_append)

lemma sample_header_numbers: "pointDataOffset sample_header = 227" "pointRecordLength sample_header = 20"
  "las_pointCount sample_header = 5"
  by (simp_all add: sample_header_def)

lemma sample_options_fields: "range sample_options = \<lparr>firstPoint = 1, range_pointCount = 0\<rparr>"
  "chunkPointLimit sample_options = 2" "memoryBudgetBytes sample_options = 67108864"
  "opt_bounds sample_options = None" "classifications sample_options = []"
  by (simp_all add: sample_options_def default_read_options_def)

theorem reader_delivers_range_witness:
  "\<exists>s' qss. ReadPoints 200 (Some local_source) (Some collect) None sample_options sample_header
       (new_local_source ''points.las'' (plain_file sample_file_bytes), []) = (Inr (), s', qss) \<and>
     length (concat qss) = 4 \<and> (\<forall>qs \<in> set qss. length qs \<le> 2)"
proof -
  let ?p = "decode_fields sample_header sample_record_0\<lparr>lp_extraBytes := []\<rparr>"
  have "map (\<lambda>i. DecodePoint sample_header (record_bytes sample_file_bytes sample_header i)) [1..<5] =
      map Inr (replicate 4 ?p)"
    by (intro nth_equalityI) (simp_all add: sample_records sample_point_0)
  then show ?thesis
    using reader_delivers_range [of "new_local_source ''points.las'' (plain_file sample_file_bytes)" sample_file_bytes
        sample_options 200 sample_header "replicate 4 ?p"] plain_file_readable(1) [OF sample_bytes(2)] plain_file_readable(2)
      sample_bytes(1) length_sample_file
    by (auto simp: sample_header_numbers sample_options_fields range_end_def PointReadOptions_IsValid_def PointRange_IsValid_def check_points_def
        u64_diff_def maximum_points_def MatchesReadOptions_def)
qed

section \<open>Metadata of local files\<close>

lemma read_metadata_facts:
  assumes "readable_file s" "ReadMetadata (Some local_source) budget s = (Inr h, t)"
  shows "pointDataOffset h \<le> length (file_content s)" "227 \<le> length (file_content s)" "LasHeader_IsValid h"
    "MinimumRecordLength (pointFormat h) \<le> pointRecordLength h" "20 \<le> pointRecordLength h"
    "ValidateExtraBytesLayout h = None"
proof -
  from assms(2) obtain bytes rs es h1 where h1: "InspectHeader bytes = Inr h1"
    and pdo: "pointDataOffset h1 \<le> length (file_content s)"
    and h: "ParseKnownMetadata (rs @ es) (h1\<lparr>variableLengthRecords := rs @ es\<rparr>) = Inr h"
    using local_file.size [OF assms(1)]
    by (auto simp: ReadMetadata_def then_do_Inr lift_Inr InspectRecords_Inr ParseKnownMetadata_diagnostics_Inr
        metadata_size_def not_less split: if_split_asm)
  have "LasHeader_IsValid (h1\<lparr>variableLengthRecords := rs @ es\<rparr>) = LasHeader_IsValid h1"
    by (simp add: LasHeader_IsValid_def)
  then have kept: "pointDataOffset h = pointDataOffset h1" "pointFormat h = pointFormat h1"
    "pointRecordLength h = pointRecordLength h1" "LasHeader_IsValid h = LasHeader_IsValid h1"
    using ParseKnownMetadata_keeps [OF h] by simp_all
  have ok: "LasHeader_IsValid h1" "IsSupportedFormatForVersion (versionMinor h1) (pointFormat h1)"
    "MinimumHeaderSize (versionMinor h1) \<le> headerSize h1" "headerSize h1 \<le> pointDataOffset h1"
    "MinimumRecordLength (pointFormat h1) \<le> pointRecordLength h1"
    using InspectHeader_accepted(1) [OF h1] by (simp_all add: header_ok_def)
  show "pointDataOffset h \<le> length (file_content s)" "LasHeader_IsValid h"
    "MinimumRecordLength (pointFormat h) \<le> pointRecordLength h" "ValidateExtraBytesLayout h = None"
    using pdo ok(1,5) ParseKnownMetadata_accepted [OF h] by (simp_all add: kept)
  have "227 \<le> headerSize h1"
    using MinimumHeaderSize_ge [of "versionMinor h1"] ok(1,3) by (simp add: LasHeader_IsValid_def)
  then show "227 \<le> length (file_content s)" using pdo ok(4) by simp
  have "20 \<le> MinimumRecordLength (pointFormat h1)"
    using supported_format [OF ok(2)] by (auto simp: IsSupportedFormat_def MinimumRecordLength_def)
  then show "20 \<le> pointRecordLength h" using ok(5) by (simp add: kept)
qed


lemma sample_metadata_parsed: "ParseKnownMetadata [] (sample_header\<lparr>variableLengthRecords := []\<rparr>) = Inr sample_header"
  by (simp add: ParseKnownMetadata_def ExtractWktCrs_def ParseGeoTiffRecords_def ResolveEpsgCode_def
      ExtractWktEpsgCode_def find_from_def ValidateExtraBytesLayout_def sample_header_def empty_header_def
      MinimumRecordLength_def Let_def)

lemma sample_header_read: "InspectHeader sample_file_bytes = Inr sample_header"
  unfolding sample_file_bytes_def by (rule InspectHeader_accepted(5) [OF sample_header_inspected])

lemma sample_metadata_read:
  assumes "227 \<le> budget"
  shows "\<exists>t. ReadMetadata (Some local_source) budget (new_local_source ''points.las'' (plain_file sample_file_bytes)) =
     (Inr sample_header, t)"
proof -
  have fields: "pointDataOffset sample_header = 227" "variableLengthRecordCount sample_header = 0"
    "extendedVariableLengthRecordCount sample_header = 0"
    by (simp_all add: sample_header_def empty_header_def)
  show ?thesis using assms
    by (simp add: ReadMetadata_def action_defs metadata_size_def metadata_range_def metadata_extended_def ReadFileRange_def
        local_source_def Local_GetSize_def Local_Read_def new_local_source_def plain_file_def length_sample_file
        sub_bytes_def sample_header_read fields InspectRecords_def ParseKnownMetadata_diagnostics_def
        sample_metadata_parsed)
qed


end
