(* ===== verification/Las_Cloud.thy ===== *)
theory Las_Cloud
  imports Las_Reader Format_Args
begin

text \<open>
  From decoded LAS points to the columns of \<^verbatim>\<open>PointData\<close>, to a point cloud asset and to the
  metadata of an asset that is not read (\<^verbatim>\<open>LasPointCloud.cpp\<close>).  The chunks of a file are
  appended one by one; \<open>las_columns\<close> is the same data written down at once, and
  \<^verbatim>\<open>append_is_columnar\<close> states that appending builds exactly that.
\<close>

section \<open>Appending a chunk\<close>

definition color_format :: "nat \<Rightarrow> bool" where
  "color_format f \<longleftrightarrow> f = 2 \<or> f = 3 \<or> f = 7 \<or> f = 8"

definition time_format :: "nat \<Rightarrow> bool" where
  "time_format f \<longleftrightarrow> f = 1 \<or> f = 3 \<or> 6 \<le> f"

definition nir_format :: "nat \<Rightarrow> bool" where
  "nir_format f \<longleftrightarrow> f = 8 \<or> f = 10"

definition waveform_format :: "nat \<Rightarrow> bool" where
  "waveform_format f \<longleftrightarrow> f = 4 \<or> f = 5 \<or> f = 9 \<or> f = 10"

definition replace_extension :: "string \<Rightarrow> string \<Rightarrow> string" where
  \<comment> \<open>\<^verbatim>\<open>std::filesystem::path::replace_extension\<close> on a POSIX path\<close>
  "replace_extension path ext =
     (let name = rev (takeWhile (\<lambda>c. c \<noteq> CHR ''/'') (rev path));
          dir = take (length path - length name) path;
          tail = length (takeWhile (\<lambda>c. c \<noteq> CHR ''.'') (rev name)) + 1;
          stem = (if CHR ''.'' \<in> set name \<and> name \<noteq> ''..'' \<and> tail < length name
                  then take (length name - tail) name else name)
      in dir @ stem @ ext)"

definition start_columns :: "LasHeader \<Rightarrow> PointData \<Rightarrow> PointData" where
  "start_columns h d = d
     \<lparr>extraByteNames := NormalizeExtraByteNames (map eb_name (las_extraBytes h)),
      extraByteComponentCounts := map (\<lambda>e. ExtraByteComponentCount (dataType e)) (las_extraBytes h),
      extraBytes := replicate (length (las_extraBytes h)) []\<rparr>"

fun append_extra :: "fl list list \<Rightarrow> nat list \<Rightarrow> fl list \<Rightarrow> fl list list" where
  "append_extra [] counts values = []"
| "append_extra (column # columns) counts values =
     (column @ take (hd counts) values) # append_extra columns (tl counts) (drop (hd counts) values)"

definition append_waveform :: "LasPoint \<Rightarrow> string \<Rightarrow> PointData \<Rightarrow> PointData" where
  "append_waveform p source d =
     (let w = waveform p in d
      \<lparr>waveformDescriptorIndex := waveformDescriptorIndex d @ [descriptorIndex w],
       waveformDataOffset := waveformDataOffset d @ [dataOffset w],
       waveformPacketSize := waveformPacketSize d @ [packetSize w],
       returnPointWaveformLocation := returnPointWaveformLocation d @ [returnPointLocation w],
       waveformXt := waveformXt d @ [xt w], waveformYt := waveformYt d @ [yt w],
       waveformZt := waveformZt d @ [zt w],
       waveformDataExternal := waveformDataExternal d @ [if external w then 1 else 0],
       waveformDataFile := (if external w \<and> waveformDataFile d = [] then replace_extension source ''.wdp''
                            else waveformDataFile d)\<rparr>)"

definition append_base :: "LasPoint \<Rightarrow> PointData \<Rightarrow> PointData" where
  "append_base p d = d
     \<lparr>positions := positions d @ [sourcePosition p], intensity := intensity d @ [lp_intensity p],
      returnNumber := returnNumber d @ [lp_returnNumber p],
      numberOfReturns := numberOfReturns d @ [lp_numberOfReturns p],
      classification := classification d @ [lp_classification p],
      scanDirectionFlag := scanDirectionFlag d @ [lp_scanDirectionFlag p],
      edgeOfFlightLine := edgeOfFlightLine d @ [lp_edgeOfFlightLine p],
      userData := userData d @ [lp_userData p], scanAngle := scanAngle d @ [lp_scanAngle p],
      pointSourceId := pointSourceId d @ [lp_pointSourceId p]\<rparr>"

definition append_flags :: "LasPoint \<Rightarrow> PointData \<Rightarrow> PointData" where
  "append_flags p d = d\<lparr>classificationFlags := classificationFlags d @ [lp_classificationFlags p],
      scannerChannel := scannerChannel d @ [lp_scannerChannel p]\<rparr>"

definition append_color :: "LasPoint \<Rightarrow> PointData \<Rightarrow> PointData" where
  "append_color p d = d\<lparr>red := red d @ [lp_red p], green := green d @ [lp_green p], blue := blue d @ [lp_blue p]\<rparr>"

definition append_fields :: "LasHeader \<Rightarrow> string \<Rightarrow> LasPoint \<Rightarrow> PointData \<Rightarrow> PointData" where
  "append_fields h source p d =
     (let d1 = append_base p d;
          d2 = (if 6 \<le> pointFormat h then append_flags p d1 else d1);
          d3 = (if hasColor p then append_color p d2 else d2);
          d4 = (if hasGpsTime p then d3\<lparr>gpsTime := gpsTime d3 @ [lp_gpsTime p]\<rparr> else d3);
          d5 = (if nir_format (pointFormat h) then d4\<lparr>nir := nir d4 @ [lp_nir p]\<rparr> else d4)
      in if hasWaveform p then append_waveform p source d5 else d5)"

fun append_points :: "LasHeader \<Rightarrow> string \<Rightarrow> LasPoint list \<Rightarrow> PointData \<Rightarrow> string + PointData" where
  "append_points h source [] d = Inr d"
| "append_points h source (p # ps) d =
     (let d1 = append_fields h source p d in
      if length (lp_extraBytes p) \<noteq> sum_list (extraByteComponentCounts d1)
      then Inl ''LAS point Extra Bytes do not match the header''
      else append_points h source ps
        (d1\<lparr>extraBytes := append_extra (extraBytes d1) (extraByteComponentCounts d1) (lp_extraBytes p)\<rparr>))"

definition AppendPointData :: "LasHeader \<Rightarrow> LasPoint list \<Rightarrow> string \<Rightarrow> PointData \<Rightarrow> string + PointData" where
  "AppendPointData h ps source d =
     (if \<not> LasHeader_IsValid h \<or> \<not> PointData_IsValid d \<or> las_pointCount h < length (positions d) \<or>
         las_pointCount h - length (positions d) < length ps
      then Inl ''LAS point data does not match the header''
      else case append_points h source ps (if positions d = [] then start_columns h d else d) of
          Inl e \<Rightarrow> Inl e
        | Inr d' \<Rightarrow>
            if \<not> PointData_IsValid d' then Inl ''LAS point attributes have inconsistent lengths'' else Inr d')"

section \<open>Assets\<close>

definition las_reference :: "LasHeader \<Rightarrow> string \<Rightarrow> GeoReference" where
  "las_reference h missing =
     \<lparr>epsgCode = map_option int (las_epsgCode h), wkt = (if crsWkt h = [] then missing else crsWkt h),
      projJson = [], linearUnit = ''metre'', sourceUpAxis = ''Z'', stageUpAxis = ''Y'',
      localOrigin = minimum (las_bounds h)\<rparr>"

definition BuildPointCloudAsset :: "LasHeader \<Rightarrow> PointData \<Rightarrow> string \<Rightarrow> string + PointCloudAsset" where
  "BuildPointCloudAsset h d missingCrsMessage =
     (if \<not> LasHeader_IsValid h \<or> \<not> PointData_IsValid d \<or> positions d = [] \<or> las_pointCount h < length (positions d)
      then Inl ''LAS point data does not match the header''
      else
        (let reference = las_reference h missingCrsMessage;
             sourceBounds = foldl SpatialBounds_Expand SpatialBounds_Empty (positions d);
             local = TryToLocal_bounds reference sourceBounds SpatialBounds_Empty
         in if \<not> fst local then Inl ''LAS bounds could not be transformed to local coordinates''
            else let asset = \<lparr>asset_reference = reference, asset_bounds = snd local,
                              asset_chunk = MakePointChunk d (snd local), asset_data = d\<rparr> in
              if \<not> PointCloudAsset_IsValid asset then Inl ''LAS point cloud asset is invalid'' else Inr asset))"

definition append_consumer :: "string \<Rightarrow> PointData error_consumer" where
  "append_consumer source h ps d =
     (case AppendPointData h ps source d of Inl e \<Rightarrow> ((False, e), d) | Inr d' \<Rightarrow> ((True, []), d'))"

definition ReadPointCloud ::
  "nat \<Rightarrow> 's source \<Rightarrow> string \<Rightarrow> PointData cancellation option \<Rightarrow> PointReadOptions \<Rightarrow> string list \<Rightarrow> string \<Rightarrow> 's \<Rightarrow>
     (LasReadFailure \<times> Diagnostic list) + PointCloudAsset" where
  "ReadPointCloud point_size src source isCancelled opts attributes missingCrsMessage s =
     (case LasReader_Read_errors point_size (Some src) (append_consumer source) isCancelled opts (s, empty_data) of
        (Inl e, _) \<Rightarrow> Inl e
      | (Inr h, (_, d)) \<Rightarrow>
          (case SelectPointDataAttributes d attributes [] of
             (False, _, e) \<Rightarrow> Inl (Fail_InvalidRequest, [error_diag InvalidFormatArgument e])
           | (True, d', _) \<Rightarrow>
               (case BuildPointCloudAsset h d' missingCrsMessage of
                  Inl e \<Rightarrow> Inl (Fail_Asset, [error_diag DecodeFailure e])
                | Inr asset \<Rightarrow> Inr asset)))"

section \<open>Metadata of an asset\<close>

definition metadata_attributes :: "nat \<Rightarrow> PointAttribute list" where
  "metadata_attributes f =
     [attribute ''xyz'' Float64, attribute ''intensity'' UInt16, attribute ''returnNumber'' UInt8,
      attribute ''numberOfReturns'' UInt8, attribute ''classification'' UInt8,
      attribute ''scanDirectionFlag'' UInt8, attribute ''edgeOfFlightLine'' UInt8,
      attribute ''userData'' UInt8, attribute ''scanAngle'' Int16, attribute ''pointSourceId'' UInt16] @
     (if 6 \<le> f then [attribute ''classificationFlags'' UInt8, attribute ''scannerChannel'' UInt8] else []) @
     (if color_format f
      then [attribute ''red'' UInt16, attribute ''green'' UInt16, attribute ''blue'' UInt16] else []) @
     (if time_format f then [attribute ''gpsTime'' Float64] else []) @
     (if nir_format f then [attribute ''nir'' UInt16] else []) @
     (if waveform_format f
      then [attribute ''waveformDescriptorIndex'' UInt8, attribute ''waveformDataOffset'' UInt64,
            attribute ''waveformPacketSize'' UInt32, attribute ''returnPointWaveformLocation'' Float32,
            attribute ''waveformXt'' Float32, attribute ''waveformYt'' Float32,
            attribute ''waveformZt'' Float32, attribute ''waveformDataExternal'' UInt8] else [])"

fun metadata_extra :: "LasExtraBytesDescriptor list \<Rightarrow> string list \<Rightarrow> string + PointAttribute list" where
  "metadata_extra [] names = Inr []"
| "metadata_extra (e # es) names =
     (let n = ExtraByteComponentCount (dataType e) in
      if n = 0 then Inl ''unsupported LAS Extra Bytes data type''
      else case metadata_extra es (tl names) of
          Inl m \<Rightarrow> Inl m
        | Inr as \<Rightarrow> Inr (attribute (hd names)
              (if n = 1 then Float64 else if n = 2 then Float64Vec2 else Float64Vec3) # as))"

definition BuildPointCloudMetadata ::
  "LasHeader \<Rightarrow> (bool \<times> string) + (PointChunk \<times> GeoReference \<times> SpatialBounds)" where
  \<comment> \<open>a chunk that is not valid makes the call fail without a message\<close>
  "BuildPointCloudMetadata h =
     (if \<not> LasHeader_IsValid h then Inl (True, ''LAS metadata does not contain a valid point cloud'')
      else
        (let reference = las_reference h ''LAS CRS unavailable; inspect VLR metadata'';
             local = TryToLocal_bounds reference (las_bounds h) SpatialBounds_Empty
         in if \<not> fst local then Inl (True, ''LAS bounds could not be transformed to local coordinates'')
            else case metadata_extra (las_extraBytes h) (NormalizeExtraByteNames (map eb_name (las_extraBytes h))) of
                Inl e \<Rightarrow> Inl (True, e)
              | Inr extra \<Rightarrow>
                  (let chunk = \<lparr>chunk_pointCount = las_pointCount h, chunk_bounds = snd local,
                                chunk_attributes = metadata_attributes (pointFormat h) @ extra\<rparr>
                   in if PointChunk_IsValid chunk then Inr (chunk, reference, snd local) else Inl (False, []))))"

section \<open>The columns at once\<close>

fun extra_columns :: "nat list \<Rightarrow> fl list list \<Rightarrow> fl list list" where
  "extra_columns [] vss = []"
| "extra_columns (n # ns) vss = concat (map (take n) vss) # extra_columns ns (map (drop n) vss)"

definition las_counts :: "LasHeader \<Rightarrow> nat list" where
  "las_counts h = map (\<lambda>e. ExtraByteComponentCount (dataType e)) (las_extraBytes h)"

definition column_if :: "bool \<Rightarrow> ('p \<Rightarrow> 'a) \<Rightarrow> 'p list \<Rightarrow> 'a list" where
  "column_if b f ps = (if b then map f ps else [])"

definition las_columns :: "LasHeader \<Rightarrow> string \<Rightarrow> LasPoint list \<Rightarrow> PointData" where
  "las_columns h source ps =
     (let f = pointFormat h; c = (f \<in> {2, 3} \<or> 7 \<le> f); w = waveform_format f in empty_data
      \<lparr>positions := map sourcePosition ps, intensity := map lp_intensity ps,
       returnNumber := map lp_returnNumber ps, numberOfReturns := map lp_numberOfReturns ps,
       classification := map lp_classification ps,
       classificationFlags := column_if (6 \<le> f) lp_classificationFlags ps,
       scannerChannel := column_if (6 \<le> f) lp_scannerChannel ps,
       scanDirectionFlag := map lp_scanDirectionFlag ps, edgeOfFlightLine := map lp_edgeOfFlightLine ps,
       userData := map lp_userData ps, scanAngle := map lp_scanAngle ps, pointSourceId := map lp_pointSourceId ps,
       red := column_if c lp_red ps, green := column_if c lp_green ps, blue := column_if c lp_blue ps,
       nir := column_if (nir_format f) lp_nir ps, gpsTime := column_if (time_format f) lp_gpsTime ps,
       waveformDescriptorIndex := column_if w (\<lambda>p. descriptorIndex (waveform p)) ps,
       waveformDataOffset := column_if w (\<lambda>p. dataOffset (waveform p)) ps,
       waveformPacketSize := column_if w (\<lambda>p. packetSize (waveform p)) ps,
       returnPointWaveformLocation := column_if w (\<lambda>p. returnPointLocation (waveform p)) ps,
       waveformXt := column_if w (\<lambda>p. xt (waveform p)) ps, waveformYt := column_if w (\<lambda>p. yt (waveform p)) ps,
       waveformZt := column_if w (\<lambda>p. zt (waveform p)) ps,
       waveformDataExternal := column_if w (\<lambda>p. if external (waveform p) then 1 else 0) ps,
       waveformDataFile :=
         (if w \<and> (\<exists>p \<in> set ps. external (waveform p)) then replace_extension source ''.wdp'' else []),
       extraByteNames := NormalizeExtraByteNames (map eb_name (las_extraBytes h)),
       extraByteComponentCounts := las_counts h,
       extraBytes := extra_columns (las_counts h) (map lp_extraBytes ps)\<rparr>)"

definition point_of :: "LasHeader \<Rightarrow> LasPoint \<Rightarrow> bool" where
  \<comment> \<open>what the decoder guarantees of a point of the file\<close>
  "point_of h p \<longleftrightarrow> Vec3d_IsFinite (sourcePosition p) \<and> length (lp_extraBytes p) = sum_list (las_counts h) \<and>
     (hasWaveform p \<longleftrightarrow> waveform_format (pointFormat h)) \<and> (hasGpsTime p \<longleftrightarrow> time_format (pointFormat h)) \<and>
     (hasColor p \<longleftrightarrow> pointFormat h \<in> {2, 3} \<or> 7 \<le> pointFormat h)"

lemma decoded_point_of: "DecodePoint h r = Inr p \<Longrightarrow> point_of h p"
  using decoded_point_facts [of h r p]
  by (auto simp: point_of_def waveform_format_def time_format_def las_counts_def extras_count_def)

lemma append_extra_columns:
  "append_extra (extra_columns ns vss) ns vs = extra_columns ns (vss @ [vs])"
  by (induction ns arbitrary: vss vs) simp_all

lemma replace_extension_nonempty: "replace_extension s ''.wdp'' \<noteq> []"
  by (simp add: replace_extension_def Let_def)

definition snoc_if :: "bool \<Rightarrow> 'a \<Rightarrow> 'a list \<Rightarrow> 'a list" where
  "snoc_if b x xs = (if b then xs @ [x] else xs)"

lemma column_if_snoc_if: "column_if b f (ps @ [p]) = snoc_if b (f p) (column_if b f ps)"
  by (simp add: column_if_def snoc_if_def)

lemma conditional_updates:
  "(if b then append_flags p d else d) =
     d\<lparr>classificationFlags := snoc_if b (lp_classificationFlags p) (classificationFlags d),
       scannerChannel := snoc_if b (lp_scannerChannel p) (scannerChannel d)\<rparr>"
  "(if b then append_color p d else d) =
     d\<lparr>red := snoc_if b (lp_red p) (red d), green := snoc_if b (lp_green p) (green d), blue := snoc_if b (lp_blue p) (blue d)\<rparr>"
  "(if b then d\<lparr>gpsTime := gpsTime d @ [t]\<rparr> else d) = d\<lparr>gpsTime := snoc_if b t (gpsTime d)\<rparr>"
  "(if b then d\<lparr>nir := nir d @ [v]\<rparr> else d) = d\<lparr>nir := snoc_if b v (nir d)\<rparr>"
  "(if b then append_waveform p source d else d) =
     d\<lparr>waveformDescriptorIndex := snoc_if b (descriptorIndex (waveform p)) (waveformDescriptorIndex d),
       waveformDataOffset := snoc_if b (dataOffset (waveform p)) (waveformDataOffset d),
       waveformPacketSize := snoc_if b (packetSize (waveform p)) (waveformPacketSize d),
       returnPointWaveformLocation := snoc_if b (returnPointLocation (waveform p)) (returnPointWaveformLocation d),
       waveformXt := snoc_if b (xt (waveform p)) (waveformXt d), waveformYt := snoc_if b (yt (waveform p)) (waveformYt d),
       waveformZt := snoc_if b (zt (waveform p)) (waveformZt d),
       waveformDataExternal := snoc_if b (if external (waveform p) then 1 else 0) (waveformDataExternal d),
       waveformDataFile := (if b \<and> external (waveform p) \<and> waveformDataFile d = []
          then replace_extension source ''.wdp'' else waveformDataFile d)\<rparr>"
  by (cases b; simp add: append_flags_def append_color_def append_waveform_def snoc_if_def Let_def)+

lemma append_one:
  assumes "point_of h p"
  shows "append_fields h source p (las_columns h source ps)
      \<lparr>extraBytes := append_extra (extra_columns (las_counts h) (map lp_extraBytes ps)) (las_counts h) (lp_extraBytes p)\<rparr> =
    las_columns h source (ps @ [p])"
proof -
  have flags: "hasWaveform p = waveform_format (pointFormat h)" "hasGpsTime p = time_format (pointFormat h)"
    "hasColor p = (pointFormat h \<in> {2, 3} \<or> 7 \<le> pointFormat h)"
    using assms by (auto simp: point_of_def)
  have wdp: "(if w \<and> external (waveform p) \<and> (if w \<and> b then replace_extension source ''.wdp'' else []) = []
      then replace_extension source ''.wdp'' else (if w \<and> b then replace_extension source ''.wdp'' else [])) =
      (if w \<and> (b \<or> external (waveform p)) then replace_extension source ''.wdp'' else [])" for w b
    by (auto simp: replace_extension_nonempty)
  show ?thesis
    unfolding append_extra_columns append_fields_def las_columns_def Let_def flags column_if_snoc_if
      conditional_updates append_base_def
    by (simp only: PointData.select_convs PointData.update_convs empty_data_def wdp map_append list.map
        set_append list.set bex_Un bex_simps HOL.simp_thms)
qed

lemma append_fields_extra:
  "extraBytes (append_fields h source p d) = extraBytes d"
  "extraByteComponentCounts (append_fields h source p d) = extraByteComponentCounts d"
  unfolding append_fields_def Let_def conditional_updates append_base_def by simp_all

lemma las_columns_extra:
  "extraByteComponentCounts (las_columns h source ps) = las_counts h"
  "extraBytes (las_columns h source ps) = extra_columns (las_counts h) (map lp_extraBytes ps)"
  "positions (las_columns h source ps) = map sourcePosition ps"
  by (simp_all add: las_columns_def Let_def)

lemma append_points_columns:
  "list_all (point_of h) qs \<Longrightarrow> append_points h source qs (las_columns h source ps) = Inr (las_columns h source (ps @ qs))"
proof (induction qs arbitrary: ps)
  case (Cons q qs)
  have q: "point_of h q" "length (lp_extraBytes q) = sum_list (las_counts h)"
    using Cons.prems by (simp_all add: point_of_def)
  have "append_points h source qs (las_columns h source (ps @ [q])) = Inr (las_columns h source (ps @ q # qs))"
    using Cons.IH [of "ps @ [q]"] Cons.prems by simp
  then show ?case using append_one [where source = source and ps = ps, OF q(1)]
    by (simp add: Let_def append_fields_extra las_columns_extra q(2))
qed simp

lemma extra_columns_Nil: "extra_columns ns [] = replicate (length ns) []"
  by (induction ns) simp_all

lemma start_columns_empty: "start_columns h empty_data = las_columns h source []"
proof -
  have "extraBytes (las_columns h source []) = replicate (length (las_extraBytes h)) []"
    by (simp add: las_columns_extra extra_columns_Nil) (simp add: las_counts_def)
  then show ?thesis
    by (simp add: start_columns_def las_columns_def column_if_def empty_data_def Let_def extra_columns_Nil las_counts_def)
qed

lemma length_extra_columns: "length (extra_columns ns vss) = length ns"
  by (induction ns arbitrary: vss) simp_all

lemma length_extra_column:
  "i < length ns \<Longrightarrow> \<forall>vs \<in> set vss. length vs = sum_list ns \<Longrightarrow>
   length (extra_columns ns vss ! i) = length vss * ns ! i"
proof (induction ns arbitrary: vss i)
  case (Cons n ns)
  have "length (concat (map (take n) vss)) = length vss * n"
    using Cons.prems(2) by (induction vss) simp_all
  then show ?case using Cons by (cases i) simp_all
qed simp

lemma component_count_le: "ExtraByteComponentCount t \<le> 3"
  by (simp add: ExtraByteComponentCount_def)

lemma counts_in_range:
  "extra_size ds k = Inr m \<Longrightarrow> list_all (\<lambda>d. ExtraByteComponentCount (dataType d) \<noteq> 0) ds"
  by (induction ds k rule: extra_size.induct) (simp_all split: if_split_asm)

lemma las_counts_in_range:
  assumes "ValidateExtraBytesLayout h = None" "i < length (las_counts h)"
  shows "1 \<le> las_counts h ! i \<and> las_counts h ! i \<le> 3"
proof -
  obtain m where "extra_size (las_extraBytes h) 0 = Inr m"
    using assms(1) by (auto simp: ValidateExtraBytesLayout_def split: sum.splits)
  then have "list_all (\<lambda>d. ExtraByteComponentCount (dataType d) \<noteq> 0) (las_extraBytes h)" by (rule counts_in_range)
  then show ?thesis using assms(2) component_count_le by (simp add: las_counts_def list_all_length Suc_le_eq)
qed

lemma las_columns_valid:
  assumes "ValidateExtraBytesLayout h = None" "list_all (point_of h) ps" "length ps \<le> u64_max div 3"
  shows "PointData_IsValid (las_columns h source ps)"
proof -
  let ?d = "las_columns h source ps" and ?cs = "las_counts h"
  have columns: "HasPointCountOrIsEmpty (map f ps) (length ps)" "HasPointCountOrIsEmpty (column_if b f ps) (length ps)"
    for f :: "LasPoint \<Rightarrow> 'z" and b
    by (simp_all add: HasPointCountOrIsEmpty_def column_if_def)
  have col_ok: "extra_values_valid (length ps) (component_count ?d i) (extra_columns ?cs (map lp_extraBytes ps) ! i)"
    if i: "i < length ?cs" for i
  proof -
    have "\<forall>vs \<in> set (map lp_extraBytes ps). length vs = sum_list ?cs"
      using assms(2) by (auto simp: list_all_iff point_of_def)
    then have len: "length (extra_columns ?cs (map lp_extraBytes ps) ! i) = length ps * ?cs ! i"
      using length_extra_column [OF i] by simp
    have c: "1 \<le> ?cs ! i" "?cs ! i \<le> 3" using las_counts_in_range [OF assms(1) i] by auto
    then have "u64_max div 3 \<le> u64_max div (?cs ! i)" by (intro div_le_mono2) auto
    moreover have "?cs \<noteq> []" using i by auto
    ultimately show ?thesis using len c assms(3)
      by (simp add: extra_values_valid_def component_count_def las_columns_extra)
  qed
  have extra: "extra_bytes_valid ?d"
    using col_ok by (simp add: extra_bytes_valid_def las_columns_extra length_extra_columns list_all_length)
  have names: "length (extraByteNames ?d) = length (extraBytes ?d)"
    by (simp add: las_columns_def length_extra_columns normalized_names(1) Let_def) (simp add: las_counts_def)
  show ?thesis
    unfolding PointData_IsValid_def Let_def
    using extra names by (simp add: las_columns_def columns Let_def empty_data_def column_if_def HasPointCountOrIsEmpty_def)
qed

definition appended :: "LasHeader \<Rightarrow> string \<Rightarrow> LasPoint list \<Rightarrow> PointData" where
  \<comment> \<open>the data after appending the points, from the empty data on\<close>
  "appended h source ps = (if ps = [] then empty_data else las_columns h source ps)"

lemma empty_data_valid: "PointData_IsValid empty_data"
  by (simp add: PointData_IsValid_def empty_data_def HasPointCountOrIsEmpty_def extra_bytes_valid_def)

lemma append_chunk:
  assumes "ValidateExtraBytesLayout h = None" "LasHeader_IsValid h" "list_all (point_of h) (ps @ qs)"
    "length (ps @ qs) \<le> las_pointCount h" "length (ps @ qs) \<le> u64_max div 3"
  shows "AppendPointData h qs source (appended h source ps) = Inr (las_columns h source (ps @ qs))"
proof -
  let ?d = "appended h source ps"
  have valid: "PointData_IsValid (las_columns h source (ps @ qs))" "PointData_IsValid (las_columns h source ps)"
    using assms by (intro las_columns_valid; simp)+
  have d: "PointData_IsValid ?d" "length (positions ?d) = length ps" "positions ?d = [] \<longleftrightarrow> ps = []"
    using valid(2) empty_data_valid by (simp_all add: appended_def las_columns_extra) (simp_all add: empty_data_def)
  have "(if positions ?d = [] then start_columns h ?d else ?d) = las_columns h source ps"
    unfolding d(3) by (simp add: appended_def start_columns_empty)
  then show ?thesis
    using assms append_points_columns [of h qs source ps] valid(1) d(1,2)
    by (simp add: AppendPointData_def)
qed

text \<open>
  Claim C7: Appending decoded points chunk by chunk builds exactly the columns of all the points:
  each fixed field in its column, time, colour, infrared and waveform columns for the formats
  that have them, and one column per Extra Bytes descriptor with its components side by side.
  Appending never fails on decoded points of the file, and the data is valid after every chunk.
\<close>

theorem append_is_columnar:
  assumes "ValidateExtraBytesLayout h = None" "LasHeader_IsValid h" "map (DecodePoint h) rs = map Inr (ps @ qs)"
    "length (ps @ qs) \<le> las_pointCount h" "length (ps @ qs) \<le> u64_max div 3"
  shows "AppendPointData h qs source (appended h source ps) = Inr (las_columns h source (ps @ qs)) \<and>
    PointData_IsValid (las_columns h source (ps @ qs))"
proof -
  have "list_all (point_of h) (ps @ qs)"
    unfolding list_all_iff
  proof
    fix p assume "p \<in> set (ps @ qs)"
    then have "Inr p \<in> set (map (DecodePoint h) rs)" unfolding assms(3) by auto
    then obtain r where "DecodePoint h r = Inr p" by auto
    then show "point_of h p" by (rule decoded_point_of)
  qed
  then show ?thesis using append_chunk assms las_columns_valid by blast
qed

theorem append_is_columnar_witness:
  "\<exists>d. AppendPointData sample_header
     [decode_fields sample_header sample_record_0\<lparr>lp_extraBytes := []\<rparr>] ''a.las'' empty_data = Inr d \<and>
   PointData_IsValid d \<and> returnNumber d = [9]"
proof -
  let ?p = "decode_fields sample_header sample_record_0\<lparr>lp_extraBytes := []\<rparr>"
  have "ValidateExtraBytesLayout sample_header = None"
    by (simp add: ValidateExtraBytesLayout_def sample_header_def empty_header_def MinimumRecordLength_def)
  moreover have "las_pointCount sample_header = 5" "pointFormat sample_header = 0"
    by (simp_all add: sample_header_def)
  moreover have "lp_returnNumber ?p = 9"
    by (simp add: decode_fields_def decode_waveform_def decode_legacy_def decode_base_def sample_header_def
        sample_record_0_def read_word_def read_uint_def sub_bytes_def Let_def)
  ultimately show ?thesis
    using append_is_columnar [of sample_header "[sample_record_0]" "[]" "[?p]" "''a.las''"]
      sample_headers(2) sample_point_0
    by (simp add: appended_def) (simp add: las_columns_def Let_def)
qed

end
