(* ===== verification/Las_Stream.thy ===== *)
theory Las_Stream
  imports Las_Cloud
begin

text \<open>
  Pulling a LAS file chunk by chunk (\<^verbatim>\<open>LasStream.cpp\<close>): a stream holds the header, the read
  options and the next and last point of its range; every call reads one window of points.

  \<^verbatim>\<open>unfiltered_stream_delivers\<close> states that a stream without filters ends and delivers its
  range exactly; \<^verbatim>\<open>filtered_stream_misadvances\<close> what happens with filters.
\<close>

section \<open>The stream\<close>

definition EffectiveChunkPointLimit :: "nat \<Rightarrow> LasHeader \<Rightarrow> PointReadOptions \<Rightarrow> nat" where
  "EffectiveChunkPointLimit point_size h opts =
     (if pointRecordLength h = 0 \<or> u64_max div 2 - point_size < pointRecordLength h then 0
      else min (chunkPointLimit opts) (memoryBudgetBytes opts div (pointRecordLength h * 2 + point_size)))"

record LasPointStream =
  stream_file :: string
  stream_source :: LocalRandomAccessSource
  stream_options :: PointReadOptions
  stream_header :: LasHeader
  nextPoint :: nat
  endPoint :: nat
  effectiveLimit :: nat
  initialSourceBytesRead :: nat
  stream_failure :: LasReadFailure

definition new_stream :: "string \<Rightarrow> os_file \<Rightarrow> PointReadOptions \<Rightarrow> LasHeader \<Rightarrow> nat \<Rightarrow> nat \<Rightarrow> LasPointStream" where
  "new_stream name f opts h limit initial =
     \<lparr>stream_file = name, stream_source = new_local_source name f, stream_options = opts, stream_header = h,
      nextPoint = firstPoint (range opts), endPoint = range_end opts h, effectiveLimit = limit,
      initialSourceBytesRead = initial, stream_failure = Fail_None\<rparr>"

definition OpenLasPointStream ::
  "nat \<Rightarrow> string \<Rightarrow> os_file \<Rightarrow> PointReadOptions \<Rightarrow> Diagnostic list + LasPointStream" where
  "OpenLasPointStream point_size name f opts =
     (if \<not> PointReadOptions_IsValid opts
      then Inl [error_diag InvalidFormatArgument ''LAS stream options are invalid'']
      else case ReadMetadata (Some local_source) (memoryBudgetBytes opts) (new_local_source name f) of
          (Inl (k, ds), _) \<Rightarrow> Inl ds
        | (Inr h, s) \<Rightarrow>
            if las_pointCount h < firstPoint (range opts) \<or>
               (range_pointCount (range opts) \<noteq> 0 \<and>
                las_pointCount h - firstPoint (range opts) < range_pointCount (range opts))
            then Inl [error_diag InvalidPointSourceRange ''LAS point range is outside the header'']
            else let limit = EffectiveChunkPointLimit point_size h opts in
              if limit = 0 then Inl [error_diag InvalidFormatArgument ''LAS memory budget is too small for one point'']
              else Inr (new_stream name f opts h limit (bytesRead s)))"

definition stream_bytes_read :: "LasPointStream \<Rightarrow> nat" where
  "stream_bytes_read st = (initialSourceBytesRead st + bytesRead (stream_source st)) mod (u64_max + 1)"

datatype stream_result = Stream_Chunk PointChunk PointData | Stream_End | Stream_Error Diagnostic

definition window_options :: "LasPointStream \<Rightarrow> PointReadOptions" where
  "window_options st = stream_options st
     \<lparr>chunkPointLimit := effectiveLimit st,
      range := \<lparr>firstPoint = nextPoint st, range_pointCount = min (effectiveLimit st) (endPoint st - nextPoint st)\<rparr>\<rparr>"

definition stream_consumer :: "string \<Rightarrow> (string \<times> PointData) consumer" where
  "stream_consumer name = bridge (append_consumer name)"

definition ReadNext ::
  "nat \<Rightarrow> (string \<times> PointData) cancellation option \<Rightarrow> LasPointStream \<Rightarrow> stream_result \<times> LasPointStream" where
  "ReadNext point_size isCancelled st =
     (if endPoint st \<le> nextPoint st then (Stream_End, st)
      else case ReadPoints point_size (Some local_source) (Some (stream_consumer (stream_file st))) isCancelled
             (window_options st) (stream_header st) (stream_source st, ([], empty_data)) of
        (Inl f, (s, (callbackError, d))) \<Rightarrow>
          (Stream_Error \<lparr>code = CodeForError (failure_error f), severity = Error,
             message = (if callbackError = [] then failure_error f else callbackError),
             byteOffset = failureByteOffset f, pointIndex = failurePointIndex f\<rparr>,
           st\<lparr>stream_source := s, stream_failure := failureKind f\<rparr>)
      | (Inr _, (s, (callbackError, d))) \<Rightarrow>
          (let chunk = MakePointChunk d (foldl SpatialBounds_Expand SpatialBounds_Empty (positions d)) in
           if \<not> PointChunk_IsValid chunk \<or> chunk_pointCount chunk = 0
           then (Stream_Error (error_diag DecodeFailure ''LAS stream produced an invalid point chunk''
                   \<lparr>pointIndex := Some (nextPoint st)\<rparr>),
                 st\<lparr>stream_source := s, stream_failure := Fail_Other\<rparr>)
           else (Stream_Chunk chunk d,
                 st\<lparr>stream_source := s, nextPoint := (nextPoint st + chunk_pointCount chunk) mod (u64_max + 1)\<rparr>)))"

fun drain :: "nat \<Rightarrow> nat \<Rightarrow> LasPointStream \<Rightarrow> PointData list option" where
  \<comment> \<open>what a caller collects that reads until the end, in at most \<open>k\<close> calls\<close>
  "drain point_size 0 st = None"
| "drain point_size (Suc k) st =
     (case ReadNext point_size None st of
        (Stream_Chunk c d, st') \<Rightarrow> map_option (Cons d) (drain point_size k st')
      | (Stream_End, st') \<Rightarrow> Some []
      | (Stream_Error e, st') \<Rightarrow> None)"

section \<open>One window\<close>

text \<open>A stream over a readable file, in which \<open>p i\<close> is the point with index \<open>i\<close>.\<close>

definition stream_ok :: "nat \<Rightarrow> u8 list \<Rightarrow> (nat \<Rightarrow> LasPoint) \<Rightarrow> LasPointStream \<Rightarrow> bool" where
  "stream_ok point_size bs p st \<longleftrightarrow>
     (let h = stream_header st in
      readable_file (stream_source st) \<and> file_content (stream_source st) = bs \<and>
      PointReadOptions_IsValid (stream_options st) \<and> 104 < length bs \<and> bs ! 104 AND 0xC0 = 0 \<and>
      pointDataOffset h \<le> length bs \<and> MinimumRecordLength (pointFormat h) \<le> pointRecordLength h \<and>
      20 \<le> pointRecordLength h \<and>
      las_pointCount h \<le> (length bs - pointDataOffset h) div pointRecordLength h \<and>
      pointRecordLength h \<le> u64_max div 2 - point_size \<and>
      effectiveLimit st = maximum_points point_size (stream_options st) h \<and> effectiveLimit st \<noteq> 0 \<and>
      nextPoint st \<le> endPoint st \<and> endPoint st \<le> las_pointCount h \<and>
      ValidateExtraBytesLayout h = None \<and> LasHeader_IsValid h \<and>
      (\<forall>i. nextPoint st \<le> i \<and> i < endPoint st \<longrightarrow> DecodePoint h (record_bytes bs h i) = Inr (p i)))"

definition has_appended :: "LasHeader \<Rightarrow> string \<Rightarrow> LasPoint list \<Rightarrow> string \<times> PointData \<Rightarrow> bool" where
  "has_appended h name xs c \<longleftrightarrow> snd c = appended h name xs"

lemma stream_accepts:
  assumes "ValidateExtraBytesLayout h = None" "LasHeader_IsValid h" "n \<le> las_pointCount h" "n \<le> u64_max div 3"
  shows "accepts_chunks (stream_consumer name) h (has_appended h name) (point_of h) m n"
  unfolding accepts_chunks_def
proof (intro allI impI, elim conjE)
  fix xs c qs
  assume seen: "has_appended h name xs c" and qs: "qs \<noteq> []" "list_all (point_of h) (xs @ qs)" "length (xs @ qs) \<le> n"
  have "AppendPointData h qs name (snd c) = Inr (las_columns h name (xs @ qs))"
    using append_chunk [OF assms(1,2) qs(2)] qs(3) assms(3,4) seen by (simp add: has_appended_def)
  then show "\<exists>c'. stream_consumer name h qs c = (True, c') \<and> has_appended h name (xs @ qs) c'"
    using qs(1) by (cases c) (simp add: stream_consumer_def bridge_def append_consumer_def appended_def has_appended_def)
qed

lemma window_matching: "matching (window_options st) ps = matching (stream_options st) ps"
  by (simp add: MatchesReadOptions_def window_options_def)

lemma read_window:
  assumes "stream_ok point_size bs p st" "nextPoint st < endPoint st"
  shows "\<exists>s e. ReadPoints point_size (Some local_source) (Some (stream_consumer (stream_file st))) None
      (window_options st) (stream_header st) (stream_source st, ([], empty_data)) =
      (Inr (), s, e, appended (stream_header st) (stream_file st) (matching (stream_options st)
         (map p [nextPoint st..<nextPoint st + min (effectiveLimit st) (endPoint st - nextPoint st)]))) \<and>
    readable_file s \<and> file_content s = bs"
proof -
  let ?h = "stream_header st" and ?o = "window_options st" and ?n = "nextPoint st"
  let ?count = "min (effectiveLimit st) (endPoint st - ?n)"
  have ok: "readable_file (stream_source st)" "file_content (stream_source st) = bs" "104 < length bs"
    "bs ! 104 AND 0xC0 = 0" "pointDataOffset ?h \<le> length bs" "20 \<le> pointRecordLength ?h"
    "las_pointCount ?h \<le> (length bs - pointDataOffset ?h) div pointRecordLength ?h"
    "pointRecordLength ?h \<le> u64_max div 2 - point_size"
    "effectiveLimit st = maximum_points point_size (stream_options st) ?h" "effectiveLimit st \<noteq> 0"
    "endPoint st \<le> las_pointCount ?h" "ValidateExtraBytesLayout ?h = None" "LasHeader_IsValid ?h"
    "PointReadOptions_IsValid (stream_options st)"
    and decodes: "\<And>i. ?n \<le> i \<Longrightarrow> i < endPoint st \<Longrightarrow> DecodePoint ?h (record_bytes bs ?h i) = Inr (p i)"
    using assms(1) by (auto simp: stream_ok_def Let_def)
  have "las_pointCount ?h * 20 \<le> length bs"
  proof -
    have "las_pointCount ?h * 20 \<le> las_pointCount ?h * pointRecordLength ?h" using ok(6) by simp
    also have "\<dots> \<le> (length bs - pointDataOffset ?h) div pointRecordLength ?h * pointRecordLength ?h"
      using ok(7) by (rule mult_le_mono1)
    also have "\<dots> \<le> length bs - pointDataOffset ?h" by (rule div_times_less_eq_dividend)
    also have "\<dots> \<le> length bs" by (rule diff_le_self)
    finally show ?thesis .
  qed
  then have few: "las_pointCount ?h \<le> u64_max div 3"
    using local_file.short [OF ok(1)] ok(2) by simp
  have count: "0 < ?count" "?n + ?count \<le> endPoint st" using assms(2) ok(10) by auto
  have range: "range ?o = \<lparr>firstPoint = ?n, range_pointCount = ?count\<rparr>" by (simp add: window_options_def)
  have m: "maximum_points point_size ?o ?h = effectiveLimit st"
    using ok(9) by (simp add: maximum_points_def window_options_def)
  have last: "range_end ?o ?h = ?n + ?count" 
  proof -
    have "?count \<noteq> 0" using count(1) by linarith
    then show ?thesis by (simp only: range_end_def range PointRange.select_convs if_False)
  qed
  have "?n \<le> u64_max - ?count" using count(2) few ok(11) by linarith
  then have A: "PointReadOptions_IsValid ?o"
    using ok(10,14) by (simp add: PointReadOptions_IsValid_def PointRange_IsValid_def window_options_def)
  have B: "check_points point_size ?o ?h (length bs) = None"
  proof -
    have "u64_diff (length bs) (pointDataOffset ?h) = length bs - pointDataOffset ?h"
      using ok(5) by (simp add: u64_diff_def)
    moreover have "?n \<le> las_pointCount ?h" "?count \<le> las_pointCount ?h - ?n" "pointRecordLength ?h \<noteq> 0"
      using count ok(6,11) by linarith+
    ultimately show ?thesis
      using ok(7,8,10) unfolding check_points_def m range by (simp del: min_less_iff_conj)
  qed
  have C: "DecodePoint ?h (record_bytes bs ?h i) = Inr (p i)"
    if "firstPoint (range ?o) \<le> i" "i < range_end ?o ?h" for i
    using that decodes count(2) by (simp add: range last)
  have D: "list_all (point_of ?h) ([] @ matching ?o (map p [firstPoint (range ?o)..<range_end ?o ?h]))"
  proof -
    have "point_of ?h (p i)" if "?n \<le> i" "i < ?n + ?count" for i
      using that count(2) by (intro decoded_point_of [OF decodes]) auto
    then show ?thesis by (auto simp: list_all_iff range last)
  qed
  have E: "length ([] @ matching ?o (map p [firstPoint (range ?o)..<range_end ?o ?h])) \<le> las_pointCount ?h"
    using count(2) ok(11) by (simp add: range last) (rule le_trans [OF length_filter_le], simp)
  have F: "has_appended ?h (stream_file st) [] ([], empty_data)"
    by (simp add: appended_def has_appended_def)
  obtain s c where "ReadPoints point_size (Some local_source) (Some (stream_consumer (stream_file st))) None ?o ?h
      (stream_source st, ([], empty_data)) = (Inr (), s, c)" "readable_file s" "file_content s = bs"
    "has_appended ?h (stream_file st) ([] @ matching ?o (map p [firstPoint (range ?o)..<range_end ?o ?h])) c"
    using local_file.ReadPoints_delivers [OF ok(1,2) A ok(3,4) B ok(5) C
        stream_accepts [where name = "stream_file st", OF ok(12,13) order_refl few] F D E] by blast
  then show ?thesis
    by (cases c) (simp add: range last window_matching has_appended_def)
qed

lemma foldl_expand_valid:
  assumes "ps \<noteq> []" "\<forall>p \<in> set ps. Vec3d_IsFinite p"
  shows "SpatialBounds_IsValid (foldl SpatialBounds_Expand SpatialBounds_Empty ps)"
proof -
  have "\<exists>p \<in> set ps. Vec3d_IsFinite p" using assms by (metis list.set_sel(1))
  then show ?thesis using expand_inv_foldl [of ps] by (simp add: expand_inv_def)
qed

lemma ReadNext_window:
  fixes st :: LasPointStream
  defines "h \<equiv> stream_header st" and "n \<equiv> nextPoint st"
  assumes "stream_ok point_size bs p st" "nextPoint st < endPoint st"
  defines "qs \<equiv> matching (stream_options st) (map p [n..<n + min (effectiveLimit st) (endPoint st - n)])"
  shows "qs = [] \<Longrightarrow> fst (ReadNext point_size None st) =
      Stream_Error (error_diag DecodeFailure ''LAS stream produced an invalid point chunk''\<lparr>pointIndex := Some n\<rparr>)"
    "qs \<noteq> [] \<Longrightarrow> \<exists>c st'. ReadNext point_size None st = (Stream_Chunk c (las_columns h (stream_file st) qs), st') \<and>
      PointChunk_IsValid c \<and> chunk_pointCount c = length qs \<and> PointData_IsValid (las_columns h (stream_file st) qs) \<and>
      stream_ok point_size bs p st' \<and> nextPoint st' = n + length qs \<and> endPoint st' = endPoint st \<and>
      stream_header st' = h \<and> stream_file st' = stream_file st \<and> stream_options st' = stream_options st \<and>
      effectiveLimit st' = effectiveLimit st"
proof -
  let ?count = "min (effectiveLimit st) (endPoint st - n)"
  obtain s e where read: "ReadPoints point_size (Some local_source) (Some (stream_consumer (stream_file st))) None
      (window_options st) h (stream_source st, ([], empty_data)) = (Inr (), s, e, appended h (stream_file st) qs)"
    and s: "readable_file s" "file_content s = bs"
    using read_window [OF assms(3,4)] unfolding h_def n_def qs_def by blast
  show "fst (ReadNext point_size None st) =
      Stream_Error (error_diag DecodeFailure ''LAS stream produced an invalid point chunk''\<lparr>pointIndex := Some n\<rparr>)"
    if "qs = []"
    using assms(4) read that unfolding h_def n_def
    by (simp add: ReadNext_def Let_def appended_def MakePointChunk_def empty_data_def)
  assume ne: "qs \<noteq> []"
  let ?d = "las_columns h (stream_file st) qs"
  have ok: "ValidateExtraBytesLayout h = None" "endPoint st \<le> las_pointCount h" "20 \<le> pointRecordLength h"
    "las_pointCount h \<le> (length bs - pointDataOffset h) div pointRecordLength h"
    and decodes: "\<And>i. n \<le> i \<Longrightarrow> i < endPoint st \<Longrightarrow> DecodePoint h (record_bytes bs h i) = Inr (p i)"
    using assms(3) by (auto simp: stream_ok_def Let_def h_def n_def)
  have points: "list_all (point_of h) qs"
  proof -
    have "point_of h (p i)" if "n \<le> i" "i < n + ?count" for i
      using that assms(4) by (intro decoded_point_of [OF decodes]) (auto simp: n_def)
    then show ?thesis by (auto simp: list_all_iff qs_def)
  qed
  have len: "length qs \<le> endPoint st - n"
    unfolding qs_def by (rule le_trans [OF length_filter_le]) simp
  have small: "las_pointCount h \<le> stream_max div 20"
  proof -
    have "las_pointCount h \<le> (length bs - pointDataOffset h) div 20"
      using ok(3,4) div_le_mono2 [of 20 "pointRecordLength h" "length bs - pointDataOffset h"] by linarith
    also have "\<dots> \<le> stream_max div 20"
      using local_file.short [OF s(1)] s(2) by (intro div_le_mono) simp
    finally show ?thesis .
  qed
  have valid: "PointData_IsValid ?d"
    using len ok(2) small by (intro las_columns_valid [OF ok(1) points]) simp
  have finite: "\<forall>q \<in> set (positions ?d). Vec3d_IsFinite q"
    using points by (auto simp: las_columns_extra list_all_iff point_of_def)
  have positions: "positions ?d \<noteq> []" "length (positions ?d) = length qs"
    using ne by (simp_all add: las_columns_extra)
  let ?c = "MakePointChunk ?d (foldl SpatialBounds_Expand SpatialBounds_Empty (positions ?d))"
  have chunk: "PointChunk_IsValid ?c" "chunk_pointCount ?c = length qs"
    using chunk_of_valid_data [OF valid positions(1) foldl_expand_valid [OF positions(1) finite]] positions(2)
    by simp_all
  let ?st = "st\<lparr>stream_source := s, nextPoint := n + length qs\<rparr>"
  have "n + length qs \<le> stream_max" using len ok(2) small assms(4) unfolding n_def by simp
  then have "(n + length qs) mod 18446744073709551616 = n + length qs" by simp
  then have "ReadNext point_size None st = (Stream_Chunk ?c ?d, ?st)"
    using assms(4) read chunk ne unfolding h_def n_def by (simp add: ReadNext_def Let_def appended_def)
  moreover have "stream_ok point_size bs p ?st"
    using assms(3) s len assms(4) by (simp add: stream_ok_def Let_def h_def n_def)
  ultimately show "\<exists>c st'. ReadNext point_size None st = (Stream_Chunk c ?d, st') \<and>
      PointChunk_IsValid c \<and> chunk_pointCount c = length qs \<and> PointData_IsValid ?d \<and>
      stream_ok point_size bs p st' \<and> nextPoint st' = n + length qs \<and> endPoint st' = endPoint st \<and>
      stream_header st' = h \<and> stream_file st' = stream_file st \<and> stream_options st' = stream_options st \<and>
      effectiveLimit st' = effectiveLimit st"
    using chunk valid by (simp add: h_def)
qed

section \<open>Opened streams\<close>

text \<open>What the theorems assume of a file: it is readable, uncompressed and complete, and the
  points of the range decode to \<open>p\<close>.\<close>

definition complete_file :: "string \<Rightarrow> os_file \<Rightarrow> u8 list \<Rightarrow> PointReadOptions \<Rightarrow> LasHeader \<Rightarrow> (nat \<Rightarrow> LasPoint) \<Rightarrow> bool" where
  "complete_file name f bs opts h p \<longleftrightarrow>
     readable_file (new_local_source name f) \<and> file_content (new_local_source name f) = bs \<and>
     bs ! 104 AND 0xC0 = 0 \<and> las_pointCount h \<le> (length bs - pointDataOffset h) div pointRecordLength h \<and>
     (\<forall>i. firstPoint (range opts) \<le> i \<and> i < range_end opts h \<longrightarrow> DecodePoint h (record_bytes bs h i) = Inr (p i))"

lemma opened_stream_ok:
  assumes "OpenLasPointStream point_size name f opts = Inr st" "complete_file name f bs opts (stream_header st) p"
  shows "stream_ok point_size bs p st" "stream_options st = opts" "nextPoint st = firstPoint (range opts)"
    "endPoint st = range_end opts (stream_header st)" "stream_file st = name" "effectiveLimit st \<le> chunkPointLimit opts"
proof -
  obtain h s where valid: "PointReadOptions_IsValid opts"
    and read: "ReadMetadata (Some local_source) (memoryBudgetBytes opts) (new_local_source name f) = (Inr h, s)"
    and in_range: "\<not> (las_pointCount h < firstPoint (range opts) \<or> (range_pointCount (range opts) \<noteq> 0 \<and>
                las_pointCount h - firstPoint (range opts) < range_pointCount (range opts)))"
    and limit: "EffectiveChunkPointLimit point_size h opts \<noteq> 0"
    and st: "st = new_stream name f opts h (EffectiveChunkPointLimit point_size h opts) (bytesRead s)"
    using assms(1) by (auto simp: OpenLasPointStream_def Let_def split: if_split_asm prod.splits sum.splits)
  have h: "stream_header st = h" by (simp add: st new_stream_def)
  note complete = assms(2) [unfolded complete_file_def h]
  note facts = read_metadata_facts [OF _ read]
  have max: "EffectiveChunkPointLimit point_size h opts = maximum_points point_size opts h"
    "pointRecordLength h \<le> u64_max div 2 - point_size"
    using limit by (auto simp: EffectiveChunkPointLimit_def maximum_points_def split: if_split_asm)
  show "stream_options st = opts" "nextPoint st = firstPoint (range opts)"
    "endPoint st = range_end opts (stream_header st)" "stream_file st = name" "effectiveLimit st \<le> chunkPointLimit opts"
    by (simp_all add: st new_stream_def max maximum_points_def)
  have "firstPoint (range opts) \<le> range_end opts h" "range_end opts h \<le> las_pointCount h"
    using in_range by (auto simp: range_end_def)
  then show "stream_ok point_size bs p st"
    using complete facts max limit valid
    by (simp add: stream_ok_def Let_def st new_stream_def)
qed

lemma drain_unfiltered:
  assumes "opt_bounds (stream_options st) = None" "classifications (stream_options st) = []"
    "stream_ok point_size bs p st" "endPoint st - nextPoint st < k"
  shows "\<exists>qss. drain point_size k st = Some (map (las_columns (stream_header st) (stream_file st)) qss) \<and>
    concat qss = map p [nextPoint st..<endPoint st] \<and>
    (\<forall>qs \<in> set qss. qs \<noteq> [] \<and> length qs \<le> effectiveLimit st \<and>
       PointData_IsValid (las_columns (stream_header st) (stream_file st) qs))"
  using assms
proof (induction k arbitrary: st)
  case (Suc k)
  let ?n = "nextPoint st" and ?m = "min (effectiveLimit st) (endPoint st - nextPoint st)"
  show ?case
  proof (cases "?n < endPoint st")
    case False
    then show ?thesis by (intro exI [of _ "[]"]) (simp add: ReadNext_def)
  next
    case True
    have limit: "effectiveLimit st \<noteq> 0" using Suc.prems(3) by (simp add: stream_ok_def Let_def)
    let ?qs = "map p [?n..<?n + ?m]"
    have all: "matching (stream_options st) ps = ps" for ps
      using Suc.prems(1,2) by (simp add: MatchesReadOptions_def)
    have ne: "?qs \<noteq> []" and len: "length ?qs = ?m" using True limit by simp_all
    obtain c st' where st': "ReadNext point_size None st = (Stream_Chunk c (las_columns (stream_header st) (stream_file st) ?qs), st')"
      "PointData_IsValid (las_columns (stream_header st) (stream_file st) ?qs)" "stream_ok point_size bs p st'"
      "nextPoint st' = ?n + ?m" "endPoint st' = endPoint st" "stream_header st' = stream_header st"
      "stream_file st' = stream_file st" "stream_options st' = stream_options st" "effectiveLimit st' = effectiveLimit st"
      using ReadNext_window(2) [OF Suc.prems(3) True] ne unfolding all len by blast
    have "endPoint st' - nextPoint st' < k" using Suc.prems(4) st'(4,5) True limit by simp
    then obtain qss where qss: "drain point_size k st' = Some (map (las_columns (stream_header st) (stream_file st)) qss)"
      "concat qss = map p [?n + ?m..<endPoint st]"
      "\<forall>qs \<in> set qss. qs \<noteq> [] \<and> length qs \<le> effectiveLimit st \<and>
         PointData_IsValid (las_columns (stream_header st) (stream_file st) qs)"
      using Suc.IH [of st'] Suc.prems(1,2) st' by auto
    have "[?n..<endPoint st] = [?n..<?n + ?m] @ [?n + ?m..<endPoint st]"
      using upt_add_eq_append [of ?n "?n + ?m" "endPoint st - (?n + ?m)"] True
      by (cases "effectiveLimit st \<le> endPoint st - ?n") (simp_all add: min_def)
    then have "concat (?qs # qss) = map p [?n..<endPoint st]" using qss(2) by simp
    moreover have "length ?qs \<le> effectiveLimit st" unfolding len by simp
    ultimately show ?thesis
      using qss st'(1,2) ne by (intro exI [of _ "?qs # qss"]) auto
  qed
qed simp

text \<open>
  Claim C2: A stream opened without filters on a complete file always comes to its end.  Every
  call before it returns a non-empty chunk of at most the chunk limit with valid columns, and
  the chunks are, one after the other, exactly the points of the range in file order.
\<close>

theorem unfiltered_stream_delivers:
  assumes "OpenLasPointStream point_size name f opts = Inr st" "complete_file name f bs opts (stream_header st) p"
    "opt_bounds opts = None" "classifications opts = []"
  shows "\<exists>k qss. drain point_size k st = Some (map (las_columns (stream_header st) name) qss) \<and>
    concat qss = map p [firstPoint (range opts)..<range_end opts (stream_header st)] \<and>
    (\<forall>qs \<in> set qss. qs \<noteq> [] \<and> length qs \<le> chunkPointLimit opts \<and>
       PointData_IsValid (las_columns (stream_header st) name qs))"
proof -
  note ok = opened_stream_ok [OF assms(1,2)]
  obtain qss where "drain point_size (Suc (endPoint st - nextPoint st)) st = Some (map (las_columns (stream_header st) name) qss)"
    "concat qss = map p [firstPoint (range opts)..<range_end opts (stream_header st)]"
    "\<forall>qs \<in> set qss. qs \<noteq> [] \<and> length qs \<le> effectiveLimit st \<and>
       PointData_IsValid (las_columns (stream_header st) name qs)"
    using drain_unfiltered [of st point_size bs p "Suc (endPoint st - nextPoint st)"] ok(1-5) assms(3,4) by auto
  then show ?thesis using ok(6) by (meson le_trans)
qed

text \<open>
  Claim C35: With a bounds or classification filter a stream advances by the number of points
  that passed the filter, not by the size of the window it read.  The window of the next call
  begins at the position of a point already read, so points behind it are delivered again; and
  a window without any matching point ends the stream with an error although matching points
  may follow.
\<close>

theorem filtered_stream_misadvances:
  assumes "OpenLasPointStream point_size name f opts = Inr st" "complete_file name f bs opts (stream_header st) p"
    "nextPoint st < endPoint st"
    "qs = matching opts (map p [nextPoint st..<nextPoint st + min (effectiveLimit st) (endPoint st - nextPoint st)])"
  shows "if qs = []
    then fst (ReadNext point_size None st) =
      Stream_Error (error_diag DecodeFailure ''LAS stream produced an invalid point chunk''\<lparr>pointIndex := Some (nextPoint st)\<rparr>)
    else \<exists>c st'. ReadNext point_size None st = (Stream_Chunk c (las_columns (stream_header st) name qs), st') \<and>
      nextPoint st' = nextPoint st + length qs"
proof -
  note ok = opened_stream_ok [OF assms(1,2)]
  show ?thesis
    using ReadNext_window [OF ok(1) assms(3)] unfolding assms(4) ok(2,5) by auto
qed

section \<open>Sample streams\<close>

definition sample_stream :: "PointReadOptions \<Rightarrow> LasPointStream option" where
  "sample_stream opts = (case OpenLasPointStream 200 ''points.las'' (plain_file sample_file_bytes) opts of
     Inl _ \<Rightarrow> None | Inr st \<Rightarrow> Some st)"

lemma sample_opened:
  assumes "PointReadOptions_IsValid opts" "range opts = \<lparr>firstPoint = 1, range_pointCount = 0\<rparr>"
    "chunkPointLimit opts = 2" "memoryBudgetBytes opts = 67108864"
  obtains s :: LocalRandomAccessSource where "OpenLasPointStream 200 ''points.las'' (plain_file sample_file_bytes) opts =
    Inr (new_stream ''points.las'' (plain_file sample_file_bytes) opts sample_header 2 (bytesRead s))"
proof -
  obtain s where "ReadMetadata (Some local_source) 67108864
      (new_local_source ''points.las'' (plain_file sample_file_bytes)) = (Inr sample_header, s)"
    using sample_metadata_read [of 67108864] by auto
  then show ?thesis using assms
    by (intro that [of s])
      (simp add: OpenLasPointStream_def EffectiveChunkPointLimit_def sample_header_numbers Let_def)
qed

definition sample_point :: LasPoint where
  "sample_point = decode_fields sample_header sample_record_0\<lparr>lp_extraBytes := []\<rparr>"

lemma sample_complete:
  assumes "range opts = \<lparr>firstPoint = 1, range_pointCount = 0\<rparr>"
  shows "complete_file ''points.las'' (plain_file sample_file_bytes) sample_file_bytes opts sample_header (\<lambda>_. sample_point)"
  using plain_file_readable(1) [OF sample_bytes(2)] sample_bytes(1) plain_file_readable(2) length_sample_file
  by (auto simp: complete_file_def assms range_end_def sample_header_numbers sample_records sample_point_0
      sample_point_def)

lemma sample_options_valid: "PointReadOptions_IsValid sample_options"
  by (simp add: PointReadOptions_IsValid_def PointRange_IsValid_def sample_options_fields)

theorem unfiltered_stream_delivers_witness:
  "\<exists>st k ds. OpenLasPointStream 200 ''points.las'' (plain_file sample_file_bytes) sample_options = Inr st \<and>
     drain 200 k st = Some ds \<and> concat (map returnNumber ds) = [9, 9, 9, 9]"
proof -
  obtain s :: LocalRandomAccessSource where open_stream: "OpenLasPointStream 200 ''points.las'' (plain_file sample_file_bytes) sample_options =
      Inr (new_stream ''points.las'' (plain_file sample_file_bytes) sample_options sample_header 2 (bytesRead s))"
    (is "_ = Inr ?st")
    using sample_opened [OF sample_options_valid sample_options_fields(1-3)] .
  have h: "stream_header ?st = sample_header" by (simp add: new_stream_def)
  obtain k qss where drained: "drain 200 k ?st = Some (map (las_columns sample_header ''points.las'') qss)"
    "concat qss = map (\<lambda>_. sample_point) [1..<5]"
    using unfiltered_stream_delivers [OF open_stream, of sample_file_bytes "\<lambda>_. sample_point"]
      sample_complete [OF sample_options_fields(1)]
    by (auto simp: h sample_options_fields range_end_def sample_header_numbers)
  have "returnNumber (las_columns sample_header ''points.las'' qs) = map lp_returnNumber qs" for qs
    by (simp add: las_columns_def Let_def)
  then have "concat (map returnNumber (map (las_columns sample_header ''points.las'') qss)) =
      map lp_returnNumber (concat qss)"
    by (simp add: map_concat o_def)
  also have "\<dots> = [9, 9, 9, 9]"
    by (simp add: drained(2) sample_point_def decode_fields_def decode_waveform_def decode_legacy_def decode_base_def
        sample_header_def sample_record_0_def read_word_def read_uint_def sub_bytes_def upt_rec Let_def)
  finally show ?thesis using open_stream drained(1) by blast
qed

text \<open>No point of the sample file is of class 2.\<close>

theorem filtered_stream_misadvances_witness:
  "\<exists>st d. OpenLasPointStream 200 ''points.las'' (plain_file sample_file_bytes)
      (sample_options\<lparr>classifications := [2]\<rparr>) = Inr st \<and> fst (ReadNext 200 None st) = Stream_Error d"
proof -
  let ?o = "sample_options\<lparr>classifications := [2]\<rparr>"
  have o: "PointReadOptions_IsValid ?o" "range ?o = \<lparr>firstPoint = 1, range_pointCount = 0\<rparr>"
    "chunkPointLimit ?o = 2" "memoryBudgetBytes ?o = 67108864" "opt_bounds ?o = None"
    by (simp_all add: PointReadOptions_IsValid_def PointRange_IsValid_def sample_options_fields)
  obtain s :: LocalRandomAccessSource where open_stream: "OpenLasPointStream 200 ''points.las'' (plain_file sample_file_bytes) ?o =
      Inr (new_stream ''points.las'' (plain_file sample_file_bytes) ?o sample_header 2 (bytesRead s))"
    (is "_ = Inr ?st")
    using sample_opened [OF o(1-4)] .
  have st: "stream_header ?st = sample_header" "nextPoint ?st = 1" "endPoint ?st = 5" "effectiveLimit ?st = 2"
    by (simp_all add: new_stream_def o(2) range_end_def sample_header_numbers)
  have "lp_classification sample_point = 0"
    by (simp add: sample_point_def decode_fields_def decode_waveform_def decode_legacy_def decode_base_def
        sample_header_def sample_record_0_def read_word_def read_uint_def sub_bytes_def Let_def)
  then have "\<not> MatchesReadOptions sample_point ?o" by (simp add: MatchesReadOptions_def sample_options_fields)
  then have "[] = matching ?o (map (\<lambda>_. sample_point)
      [nextPoint ?st..<nextPoint ?st + min (effectiveLimit ?st) (endPoint ?st - nextPoint ?st)])"
    by (simp add: filter_map o_def)
  then show ?thesis
    using filtered_stream_misadvances [OF open_stream _ _ , of sample_file_bytes "\<lambda>_. sample_point" "[]"]
      sample_complete [OF o(2)] open_stream
    by (simp only: st if_True) auto
qed

end
