(* ===== verification/Spool.thy ===== *)
theory Spool
  imports Byte_Source Lod
begin

text \<open>
  The tile spool of \<^verbatim>\<open>usd-pointcloud-tiling\<close> (\<^verbatim>\<open>Spool.h\<close>, \<^verbatim>\<open>Spool.cpp\<close>): a file of point records in
  the order they are appended, with a header that holds tile and schema and a footer that holds the
  number of points.  Doubles and floats are kept as their bits, since the spool only copies them; the
  byte order of the machine is little-endian.  A \<^verbatim>\<open>std::ofstream\<close> is the bytes the device has taken,
  its state and what the device answers; a \<^verbatim>\<open>std::ifstream\<close> is a content with a position.

  The locale \<open>codec\<close> is the contract of a reading function with respect to the bytes of a value: it
  reads back what was written and accepts nothing else.  It is interpreted on the reading functions
  of the spool.  The theorems say that the reader completes exactly on the files a writer produces.
\<close>

section \<open>Streams\<close>

record out_stream =
  out_bytes :: "u8 list"
  out_fail :: bool
  device :: "nat \<Rightarrow> nat \<Rightarrow> nat"
  sync_good :: "nat \<Rightarrow> bool"

definition write_out :: "u8 list \<Rightarrow> out_stream \<Rightarrow> bool \<times> out_stream" where
  \<comment> \<open>\<open>device p n\<close> is how many of \<open>n\<close> bytes the device takes at position \<open>p\<close>\<close>
  "write_out bs s =
     (if out_fail s then (False, s)
      else let k = device s (length (out_bytes s)) (length bs) in
        if length bs \<le> k then (True, s\<lparr>out_bytes := out_bytes s @ bs\<rparr>)
        else (False, s\<lparr>out_bytes := out_bytes s @ take k bs, out_fail := True\<rparr>))"

definition flush_out :: "out_stream \<Rightarrow> bool \<times> out_stream" where
  "flush_out s =
     (if out_fail s then (False, s)
      else if sync_good s (length (out_bytes s)) then (True, s) else (False, s\<lparr>out_fail := True\<rparr>))"

definition tellp :: "out_stream \<Rightarrow> nat option" where
  "tellp s = (if out_fail s then None else Some (length (out_bytes s)))"

definition and_write ::
  "(out_stream \<Rightarrow> bool \<times> out_stream) \<Rightarrow> (out_stream \<Rightarrow> bool \<times> out_stream) \<Rightarrow> out_stream \<Rightarrow> bool \<times> out_stream" where
  "and_write f g s = (case f s of (True, s') \<Rightarrow> g s' | (False, s') \<Rightarrow> (False, s'))"

record in_stream =
  in_bytes :: "u8 list"
  in_pos :: nat
  in_fail :: bool
  in_read_good :: "nat \<Rightarrow> nat \<Rightarrow> bool"
  in_seek_good :: "nat \<Rightarrow> bool"

type_synonym 'a reading = "in_stream \<Rightarrow> 'a option \<times> in_stream"

definition read_in :: "nat \<Rightarrow> u8 list reading" where
  "read_in n s =
     (if in_fail s then (None, s)
      else if in_pos s + n \<le> length (in_bytes s) \<and> in_read_good s (in_pos s) n
      then (Some (sub_bytes (in_pos s) n (in_bytes s)), s\<lparr>in_pos := in_pos s + n\<rparr>)
      else (None, s\<lparr>in_fail := True\<rparr>))"

definition seek_in :: "nat \<Rightarrow> in_stream \<Rightarrow> in_stream" where
  "seek_in p s = (if in_fail s then s
     else if in_seek_good s p then s\<lparr>in_pos := p\<rparr> else s\<lparr>in_fail := True\<rparr>)"

definition tellg :: "in_stream \<Rightarrow> nat option" where
  "tellg s = (if in_fail s then None else Some (in_pos s))"

definition give :: "'a \<Rightarrow> 'a reading" where
  "give a s = (Some a, s)"

definition and_read :: "'a reading \<Rightarrow> ('a \<Rightarrow> 'b reading) \<Rightarrow> 'b reading" where
  "and_read f g s = (case f s of (Some a, s') \<Rightarrow> g a s' | (None, s') \<Rightarrow> (None, s'))"

datatype 's open_result = Opened 's | No_handles | Not_opened

section \<open>Values\<close>

type_synonym bits_vec = "u64 \<times> u64 \<times> u64"

datatype SpoolAttributeValue =
    V_Int32 "32 word" | V_Int16 "16 word" | V_UInt8 u8 | V_UInt16 "16 word" | V_UInt32 "32 word"
  | V_UInt64 u64 | V_Float32 "32 word" | V_Float64 u64 | V_Vec2 "u64 \<times> u64" | V_Vec3 bits_vec

record SpoolPoint =
  sp_sourcePosition :: bits_vec
  sp_stagePosition :: bits_vec
  sp_attributes :: "SpoolAttributeValue list"

record SpoolSchema =
  schema_version :: nat
  coordinateSpace :: nat
  schema_attributes :: "PointAttribute list"

record SpoolIoStats =
  io_bytesWritten :: nat
  io_bytesRead :: nat

definition kPointSpoolSchemaVersion :: nat where
  "kPointSpoolSchemaVersion = 2"

definition SourceAndStage :: nat where
  "SourceAndStage = 1"

definition new_schema :: SpoolSchema where
  "new_schema = \<lparr>schema_version = kPointSpoolSchemaVersion, coordinateSpace = SourceAndStage, schema_attributes = []\<rparr>"

definition kHeader :: "u8 list" where
  "kHeader = bytes_of ''USDGSP01''"

definition kFooter :: "u8 list" where
  "kFooter = bytes_of ''USDGEND1''"

definition kFooterSize :: nat where
  "kFooterSize = length kFooter + 8"

definition type_code :: "PointAttributeType \<Rightarrow> nat" where
  \<comment> \<open>the value of the enumerator\<close>
  "type_code t = (case t of Int32 \<Rightarrow> 0 | Int16 \<Rightarrow> 1 | UInt8 \<Rightarrow> 2 | UInt16 \<Rightarrow> 3 | UInt32 \<Rightarrow> 4
     | UInt64 \<Rightarrow> 5 | Float32 \<Rightarrow> 6 | Float64 \<Rightarrow> 7 | Float64Vec2 \<Rightarrow> 8 | Float64Vec3 \<Rightarrow> 9)"

definition type_of_code :: "nat \<Rightarrow> PointAttributeType option" where
  "type_of_code n = List.find (\<lambda>t. type_code t = n)
     [Int32, Int16, UInt8, UInt16, UInt32, UInt64, Float32, Float64, Float64Vec2, Float64Vec3]"

definition value_index :: "SpoolAttributeValue \<Rightarrow> nat" where
  \<comment> \<open>the index of the alternative\<close>
  "value_index v = (case v of V_Int32 _ \<Rightarrow> 0 | V_Int16 _ \<Rightarrow> 1 | V_UInt8 _ \<Rightarrow> 2 | V_UInt16 _ \<Rightarrow> 3
     | V_UInt32 _ \<Rightarrow> 4 | V_UInt64 _ \<Rightarrow> 5 | V_Float32 _ \<Rightarrow> 6 | V_Float64 _ \<Rightarrow> 7 | V_Vec2 _ \<Rightarrow> 8 | V_Vec3 _ \<Rightarrow> 9)"

fun AttributeSize :: "PointAttributeType \<Rightarrow> nat" where
  "AttributeSize Int32 = 4"
| "AttributeSize Int16 = 2"
| "AttributeSize UInt8 = 1"
| "AttributeSize UInt16 = 2"
| "AttributeSize UInt32 = 4"
| "AttributeSize UInt64 = 8"
| "AttributeSize Float32 = 4"
| "AttributeSize Float64 = 8"
| "AttributeSize Float64Vec2 = 16"
| "AttributeSize Float64Vec3 = 24"

definition SpoolSchema_IsValid :: "SpoolSchema \<Rightarrow> bool" where
  "SpoolSchema_IsValid s \<longleftrightarrow> schema_version s = kPointSpoolSchemaVersion \<and>
     coordinateSpace s = SourceAndStage \<and> length (schema_attributes s) \<le> 4294967295 \<and>
     list_all (\<lambda>a. PointAttribute_IsValid a \<and> AttributeSize (attr_type a) \<noteq> 0) (schema_attributes s)"

section \<open>Writing values\<close>

definition word_bytes :: "'a::len word \<Rightarrow> u8 list" where
  "word_bytes w = le_bytes (LENGTH('a) div 8) (unat w)"

definition uint_bytes :: "nat \<Rightarrow> nat \<Rightarrow> u8 list" where
  "uint_bytes w n = le_bytes w n"

definition sint_bytes :: "nat \<Rightarrow> int \<Rightarrow> u8 list" where
  "sint_bytes w i = le_bytes w (nat (i mod 2 ^ (8 * w)))"

definition vec_bytes :: "bits_vec \<Rightarrow> u8 list" where
  "vec_bytes v = (case v of (x, y, z) \<Rightarrow> word_bytes x @ word_bytes y @ word_bytes z)"

definition WriteString :: "string \<Rightarrow> out_stream \<Rightarrow> bool \<times> out_stream" where
  "WriteString s =
     (if 4294967295 < length s then Pair False
      else and_write (write_out (uint_bytes 4 (length s))) (write_out (bytes_of s)))"

definition value_bytes :: "SpoolAttributeValue \<Rightarrow> u8 list" where
  \<comment> \<open>the object representation of the alternative held\<close>
  "value_bytes v = (case v of V_Int32 w \<Rightarrow> word_bytes w | V_Int16 w \<Rightarrow> word_bytes w | V_UInt8 w \<Rightarrow> word_bytes w
     | V_UInt16 w \<Rightarrow> word_bytes w | V_UInt32 w \<Rightarrow> word_bytes w | V_UInt64 w \<Rightarrow> word_bytes w
     | V_Float32 w \<Rightarrow> word_bytes w | V_Float64 w \<Rightarrow> word_bytes w
     | V_Vec2 p \<Rightarrow> word_bytes (fst p) @ word_bytes (snd p) | V_Vec3 p \<Rightarrow> vec_bytes p)"

definition WriteAttribute :: "PointAttributeType \<Rightarrow> SpoolAttributeValue \<Rightarrow> out_stream \<Rightarrow> bool \<times> out_stream" where
  \<comment> \<open>the alternatives stand in the order of the enumerators, so the value holds the
     alternative of the type exactly when the index is its code\<close>
  "WriteAttribute t v = (if value_index v \<noteq> type_code t then Pair False else write_out (value_bytes v))"

section \<open>Reading values\<close>

definition get_uint :: "nat \<Rightarrow> nat reading" where
  "get_uint w = and_read (read_in w) (\<lambda>bs. give (le_value bs))"

definition get_sint :: "nat \<Rightarrow> int reading" where
  "get_sint w = and_read (read_in w) (\<lambda>bs. give (to_signed w (le_value bs)))"

definition bytes_word :: "u8 list \<Rightarrow> 'a::len word" where
  "bytes_word bs = of_nat (le_value bs)"

definition get_word :: "'a::len word reading" where
  "get_word = and_read (read_in (LENGTH('a) div 8)) (\<lambda>bs. give (bytes_word bs))"

definition bytes_vec :: "u8 list \<Rightarrow> bits_vec" where
  "bytes_vec bs = (bytes_word (sub_bytes 0 8 bs), bytes_word (sub_bytes 8 8 bs), bytes_word (sub_bytes 16 8 bs))"

definition get_vec :: "bits_vec reading" where
  "get_vec = and_read (read_in 24) (\<lambda>bs. give (bytes_vec bs))"

definition ReadString :: "string reading" where
  "ReadString = and_read (get_uint 4) (\<lambda>n.
     if 1048576 < n then (\<lambda>s. (None, s)) else and_read (read_in n) (\<lambda>bs. give (chars_of bs)))"

fun ReadAttribute :: "PointAttributeType \<Rightarrow> SpoolAttributeValue reading" where
  "ReadAttribute Int32 = and_read get_word (\<lambda>w. give (V_Int32 w))"
| "ReadAttribute Int16 = and_read get_word (\<lambda>w. give (V_Int16 w))"
| "ReadAttribute UInt8 = and_read get_word (\<lambda>w. give (V_UInt8 w))"
| "ReadAttribute UInt16 = and_read get_word (\<lambda>w. give (V_UInt16 w))"
| "ReadAttribute UInt32 = and_read get_word (\<lambda>w. give (V_UInt32 w))"
| "ReadAttribute UInt64 = and_read get_word (\<lambda>w. give (V_UInt64 w))"
| "ReadAttribute Float32 = and_read get_word (\<lambda>w. give (V_Float32 w))"
| "ReadAttribute Float64 = and_read get_word (\<lambda>w. give (V_Float64 w))"
| "ReadAttribute Float64Vec2 = and_read (read_in 16)
     (\<lambda>bs. give (V_Vec2 (bytes_word (sub_bytes 0 8 bs), bytes_word (sub_bytes 8 8 bs))))"
| "ReadAttribute Float64Vec3 = and_read get_vec (\<lambda>v. give (V_Vec3 v))"

fun read_attributes :: "PointAttribute list \<Rightarrow> SpoolAttributeValue list reading" where
  "read_attributes [] = give []"
| "read_attributes (a # as) = and_read (ReadAttribute (attr_type a)) (\<lambda>v.
     and_read (read_attributes as) (\<lambda>vs. give (v # vs)))"

section \<open>The writer\<close>

record TileSpoolWriter =
  wr_stream :: out_stream
  wr_schema :: SpoolSchema
  memoryLimit :: nat
  buffered :: nat
  wr_pointCount :: nat
  wr_points :: "SpoolPoint list"
  wr_stats :: "SpoolIoStats option"
  wr_open :: bool

definition count_written :: "nat \<Rightarrow> SpoolIoStats option \<Rightarrow> SpoolIoStats option" where
  "count_written n = map_option (\<lambda>io. io\<lparr>io_bytesWritten := (io_bytesWritten io + n) mod (u64_max + 1)\<rparr>)"

fun write_all :: "(out_stream \<Rightarrow> bool \<times> out_stream) list \<Rightarrow> out_stream \<Rightarrow> bool \<times> out_stream" where
  "write_all [] s = (True, s)"
| "write_all (f # fs) s = and_write f (write_all fs) s"

definition write_numbers :: "PointTileId \<Rightarrow> SpoolSchema \<Rightarrow> out_stream \<Rightarrow> bool \<times> out_stream" where
  "write_numbers t sch = write_all
     [write_out (uint_bytes 4 (schema_version sch)), write_out (uint_bytes 1 (coordinateSpace sch)),
      write_out (sint_bytes 4 (level t)), write_out (sint_bytes 8 (tx t)), write_out (sint_bytes 8 (ty t)),
      write_out (uint_bytes 4 (length (schema_attributes sch)))]"

definition write_attribute :: "PointAttribute \<Rightarrow> out_stream \<Rightarrow> bool \<times> out_stream" where
  "write_attribute a = and_write (WriteString (attr_name a)) (write_out (uint_bytes 1 (type_code (attr_type a))))"

definition Writer_Open ::
  "out_stream open_result \<Rightarrow> string \<Rightarrow> PointTileId \<Rightarrow> SpoolSchema \<Rightarrow> nat \<Rightarrow> SpoolIoStats option \<Rightarrow>
     TileSpoolWriter option \<Rightarrow> (bool \<times> Diagnostic list) \<times> TileSpoolWriter option" where
  "Writer_Open opened path t sch memoryLimitBytes io w =
     (if \<not> TileId_IsValid t \<or> \<not> SpoolSchema_IsValid sch \<or> memoryLimitBytes = 0
      then ((False, [error_diag InvalidPointTile ''invalid tile spool configuration'']), w)
      else case opened of
        No_handles \<Rightarrow> ((False, [error_diag OpenFileBudgetExhausted
          (''unable to create tile spool, the process has no file handles left: '' @ path)]), None)
      | Not_opened \<Rightarrow> ((False, [error_diag SpoolWriteFailed (''unable to create tile spool: '' @ path)]), None)
      | Opened s0 \<Rightarrow>
          (let w1 = \<lparr>wr_stream = snd (write_out kHeader s0), wr_schema = sch, memoryLimit = memoryLimitBytes,
                 buffered = 0, wr_pointCount = 0, wr_points = [], wr_stats = io, wr_open = True\<rparr>
           in case write_numbers t sch (wr_stream w1) of
             (False, s) \<Rightarrow> ((False, [error_diag SpoolWriteFailed ''unable to write tile spool header'']), Some (w1\<lparr>wr_stream := s\<rparr>))
           | (True, s) \<Rightarrow>
               (case write_all (map write_attribute (schema_attributes sch)) s of
                  (False, s') \<Rightarrow> ((False, [error_diag SpoolWriteFailed ''unable to write tile spool schema'']),
                    Some (w1\<lparr>wr_stream := s'\<rparr>))
                | (True, s') \<Rightarrow> ((True, []), Some (w1\<lparr>wr_stream := s',
                    wr_stats := (case tellp s' of None \<Rightarrow> io | Some p \<Rightarrow> count_written p io)\<rparr>)))))"

definition write_point :: "SpoolSchema \<Rightarrow> SpoolPoint \<Rightarrow> out_stream \<Rightarrow> (Diagnostic list) \<times> out_stream" where
  "write_point sch p s =
     (case and_write (write_out (vec_bytes (sp_sourcePosition p))) (write_out (vec_bytes (sp_stagePosition p))) s of
        (False, s') \<Rightarrow> ([error_diag SpoolWriteFailed ''unable to write tile spool point''], s')
      | (True, s') \<Rightarrow>
          (case write_all (map2 (\<lambda>a v. WriteAttribute (attr_type a) v) (schema_attributes sch) (sp_attributes p)) s' of
             (False, s'') \<Rightarrow> ([error_diag SpoolWriteFailed ''unable to write tile spool attribute''], s'')
           | (True, s'') \<Rightarrow> ([], s'')))"

fun write_points :: "SpoolSchema \<Rightarrow> SpoolPoint list \<Rightarrow> nat \<Rightarrow> out_stream \<Rightarrow> Diagnostic list \<times> nat \<times> out_stream" where
  "write_points sch [] n s = ([], n, s)"
| "write_points sch (p # ps) n s =
     (case write_point sch p s of
        ([], s') \<Rightarrow> write_points sch ps ((n + 1) mod (u64_max + 1)) s'
      | (d # ds, s') \<Rightarrow> (d # ds, n, s'))"

definition written_since :: "nat option \<Rightarrow> out_stream \<Rightarrow> SpoolIoStats option \<Rightarrow> SpoolIoStats option" where
  "written_since start s io =
     (case (start, tellp s) of (Some a, Some b) \<Rightarrow> if a \<le> b then count_written (b - a) io else io | _ \<Rightarrow> io)"

definition Writer_Flush :: "TileSpoolWriter option \<Rightarrow> (bool \<times> Diagnostic list) \<times> TileSpoolWriter option" where
  "Writer_Flush impl =
     (case impl of
        None \<Rightarrow> ((False, [error_diag SpoolWriteFailed ''unable to flush tile spool'']), None)
      | Some w \<Rightarrow>
          if \<not> wr_open w then ((False, [error_diag SpoolWriteFailed ''unable to flush tile spool'']), Some w)
          else let start = tellp (wr_stream w) in
            (case write_points (wr_schema w) (wr_points w) (wr_pointCount w) (wr_stream w) of
               (d # ds, n, s) \<Rightarrow> ((False, d # ds), Some (w\<lparr>wr_stream := s, wr_pointCount := n\<rparr>))
             | ([], n, s) \<Rightarrow>
                 let w' = w\<lparr>wr_pointCount := n, wr_points := [], buffered := 0\<rparr> in
                 (case flush_out s of
                    (False, s') \<Rightarrow> ((False, [error_diag SpoolWriteFailed ''unable to flush tile spool'']),
                      Some (w'\<lparr>wr_stream := s'\<rparr>))
                  | (True, s') \<Rightarrow> ((True, []), Some (w'\<lparr>wr_stream := s', wr_stats := written_since start s' (wr_stats w)\<rparr>)))))"

definition record_size :: "SpoolSchema \<Rightarrow> nat" where
  "record_size sch = 48 + sum_list (map (\<lambda>a. AttributeSize (attr_type a)) (schema_attributes sch))"

definition Writer_Append ::
  "SpoolPoint \<Rightarrow> TileSpoolWriter option \<Rightarrow> (bool \<times> Diagnostic list) \<times> TileSpoolWriter option" where
  "Writer_Append p impl =
     (case impl of
        None \<Rightarrow> ((False, [error_diag InvalidPointTile ''point does not match tile spool schema'']), None)
      | Some w \<Rightarrow>
          if \<not> wr_open w \<or> length (sp_attributes p) \<noteq> length (schema_attributes (wr_schema w))
          then ((False, [error_diag InvalidPointTile ''point does not match tile spool schema'']), Some w)
          else if list_ex (\<lambda>(v, a). value_index v \<noteq> type_code (attr_type a))
                    (zip (sp_attributes p) (schema_attributes (wr_schema w)))
          then ((False, [error_diag InvalidPointTile ''point attribute type does not match tile spool schema'']), Some w)
          else let w' = w\<lparr>buffered := (buffered w + record_size (wr_schema w)) mod (u64_max + 1), wr_points := wr_points w @ [p]\<rparr>
            in if memoryLimit w' \<le> buffered w' then Writer_Flush (Some w') else ((True, []), Some w'))"

definition Writer_Close :: "TileSpoolWriter option \<Rightarrow> (bool \<times> Diagnostic list) \<times> TileSpoolWriter option" where
  "Writer_Close impl =
     (case impl of
        None \<Rightarrow> ((True, []), None)
      | Some w0 \<Rightarrow>
          if \<not> wr_open w0 then ((True, []), Some w0)
          else case Writer_Flush (Some w0) of
            ((False, ds), w) \<Rightarrow> ((False, ds), w)
          | ((True, _), None) \<Rightarrow> ((True, []), None)
          | ((True, _), Some w) \<Rightarrow>
              let start = tellp (wr_stream w) in
              (case and_write (and_write (write_out kFooter) (write_out (uint_bytes 8 (wr_pointCount w)))) flush_out (wr_stream w) of
                 (False, s) \<Rightarrow> ((False, [error_diag SpoolWriteFailed ''unable to finalize tile spool'']), Some (w\<lparr>wr_stream := s\<rparr>))
               | (True, s) \<Rightarrow> ((True, []), Some (w\<lparr>wr_stream := s, wr_stats := written_since start s (wr_stats w), wr_open := False\<rparr>))))"

definition Writer_BufferedBytes :: "TileSpoolWriter option \<Rightarrow> nat" where
  "Writer_BufferedBytes impl = (case impl of None \<Rightarrow> 0 | Some w \<Rightarrow> buffered w)"

section \<open>The reader\<close>

record TileSpoolReader =
  rd_stream :: in_stream
  rd_schema :: SpoolSchema
  rd_pointCount :: nat
  pointsRead :: nat
  dataEnd :: nat
  recordSize :: nat
  rd_stats :: "SpoolIoStats option"
  complete :: bool

definition new_reader :: "in_stream \<Rightarrow> TileSpoolReader" where
  "new_reader s = \<lparr>rd_stream = s, rd_schema = new_schema, rd_pointCount = 0, pointsRead = 0, dataEnd = 0,
     recordSize = 0, rd_stats = None, complete = False\<rparr>"

definition count_read :: "nat \<Rightarrow> SpoolIoStats option \<Rightarrow> SpoolIoStats option" where
  "count_read n = map_option (\<lambda>io. io\<lparr>io_bytesRead := (io_bytesRead io + n) mod (u64_max + 1)\<rparr>)"

definition read_since :: "nat \<Rightarrow> in_stream \<Rightarrow> SpoolIoStats option \<Rightarrow> SpoolIoStats option" where
  "read_since a s io = (case tellg s of None \<Rightarrow> io | Some b \<Rightarrow> if a \<le> b then count_read (b - a) io else io)"

definition expect :: "u8 list \<Rightarrow> unit reading" where
  "expect bs = and_read (read_in (length bs)) (\<lambda>xs. if xs = bs then give () else (\<lambda>s. (None, s)))"

definition read_numbers :: "(nat \<times> nat \<times> int \<times> int \<times> int \<times> nat) reading" where
  \<comment> \<open>version, coordinate space, tile and number of attributes\<close>
  "read_numbers =
     and_read (expect kHeader) (\<lambda>_. and_read (get_uint 4) (\<lambda>version. and_read (get_uint 1) (\<lambda>space.
     and_read (get_sint 4) (\<lambda>l. and_read (get_sint 8) (\<lambda>x. and_read (get_sint 8) (\<lambda>y.
     and_read (get_uint 4) (\<lambda>n. if 100000 < n then (\<lambda>s. (None, s)) else give (version, space, l, x, y, n))))))))"

definition read_attribute :: "(string \<times> nat) reading" where
  "read_attribute = and_read ReadString (\<lambda>name. and_read (get_uint 1) (\<lambda>t. give (name, t)))"

fun read_schema :: "nat \<Rightarrow> (string \<times> nat) list reading" where
  "read_schema 0 = give []"
| "read_schema (Suc n) = and_read read_attribute (\<lambda>a. and_read (read_schema n) (\<lambda>as. give (a # as)))"

fun schema_of :: "(string \<times> nat) list \<Rightarrow> PointAttribute list option" where
  \<comment> \<open>None where a code is no enumerator; \<^verbatim>\<open>AttributeSize\<close> is then zero and the schema invalid\<close>
  "schema_of [] = Some []"
| "schema_of ((name, t) # as) =
     (case (type_of_code t, schema_of as) of
        (Some pt, Some rest) \<Rightarrow> Some (attribute name pt # rest)
      | _ \<Rightarrow> None)"

definition Reader_layout :: "SpoolIoStats option \<Rightarrow> SpoolSchema \<Rightarrow> in_stream \<Rightarrow> (Diagnostic list + unit) \<times> TileSpoolReader" where
  "Reader_layout io sch s =
     (let bad = Inl [error_diag SpoolIncomplete ''invalid tile spool record layout''];
          r = (new_reader s)\<lparr>recordSize := record_size sch, rd_stats := io\<rparr>;
          e = seek_in (length (in_bytes s)) s
      in case (tellg s, tellg e) of
        (Some dataStart, Some fileEnd) \<Rightarrow>
          if fileEnd < dataStart \<or> fileEnd - dataStart < kFooterSize \<or>
             (fileEnd - dataStart - kFooterSize) mod record_size sch \<noteq> 0
          then (bad, r\<lparr>rd_stream := e\<rparr>)
          else if fileEnd - kFooterSize < dataStart
          then (Inl [error_diag SpoolIncomplete ''invalid tile spool footer layout''],
                r\<lparr>rd_stream := e, dataEnd := fileEnd - kFooterSize\<rparr>)
          else (Inr (), r\<lparr>rd_stream := seek_in dataStart e, rd_schema := sch, dataEnd := fileEnd - kFooterSize,
                  rd_stats := count_read dataStart io\<rparr>)
      | _ \<Rightarrow> (bad, r\<lparr>rd_stream := e\<rparr>))"

definition Reader_Open ::
  "in_stream open_result \<Rightarrow> string \<Rightarrow> PointTileId \<Rightarrow> SpoolIoStats option \<Rightarrow>
     (Diagnostic list + PointTileId \<times> SpoolSchema) \<times> TileSpoolReader option" where
  \<comment> \<open>the tile is the caller's, whose \<open>z\<close> the file does not hold\<close>
  "Reader_Open opened path t io =
     (case opened of
        No_handles \<Rightarrow> (Inl [error_diag OpenFileBudgetExhausted
          (''unable to open tile spool, the process has no file handles left: '' @ path)], None)
      | Not_opened \<Rightarrow> (Inl [error_diag SpoolIncomplete (''unable to open tile spool: '' @ path)], None)
      | Opened s0 \<Rightarrow>
          (case read_numbers s0 of
             (None, s) \<Rightarrow> (Inl [error_diag SpoolIncomplete ''invalid or truncated tile spool header''], Some (new_reader s))
           | (Some (version, space, l, x, y, n), s) \<Rightarrow>
               (case read_schema n s of
                  (None, s') \<Rightarrow> (Inl [error_diag SpoolIncomplete ''invalid or truncated tile spool schema''], Some (new_reader s'))
                | (Some raw, s') \<Rightarrow>
                    let t' = tile_id l x y (tz t); invalid = Inl [error_diag InvalidPointTile ''tile spool schema or tile id is invalid''] in
                    (case schema_of raw of
                       None \<Rightarrow> (invalid, Some (new_reader s'))
                     | Some as \<Rightarrow>
                         let sch = \<lparr>schema_version = version, coordinateSpace = space, schema_attributes = as\<rparr> in
                         if \<not> SpoolSchema_IsValid sch \<or> \<not> TileId_IsValid t' then (invalid, Some (new_reader s'))
                         else (case Reader_layout io sch s' of
                             (Inl ds, r) \<Rightarrow> (Inl ds, Some r)
                           | (Inr _, r) \<Rightarrow> (Inr (t', sch), Some r))))))"

datatype spool_outcome = Spool_Point SpoolPoint | Spool_Stop "Diagnostic list"

definition read_point :: "SpoolSchema \<Rightarrow> SpoolPoint reading" where
  "read_point sch = and_read get_vec (\<lambda>p. and_read get_vec (\<lambda>q. and_read (read_attributes (schema_attributes sch)) (\<lambda>vs.
     give \<lparr>sp_sourcePosition = p, sp_stagePosition = q, sp_attributes = vs\<rparr>)))"

definition Reader_ReadNext :: "TileSpoolReader option \<Rightarrow> spool_outcome \<times> TileSpoolReader option" where
  "Reader_ReadNext impl =
     (case impl of
        None \<Rightarrow> (Spool_Stop [], None)
      | Some r \<Rightarrow>
          if complete r then (Spool_Stop [], Some r)
          else case tellg (rd_stream r) of
            None \<Rightarrow> (Spool_Stop [], Some r)
          | Some position \<Rightarrow>
              if dataEnd r < position then (Spool_Stop [error_diag SpoolIncomplete ''incomplete tile spool''], Some r)
              else if position = dataEnd r then
                (case and_read (expect kFooter) (\<lambda>_. get_uint 8) (rd_stream r) of
                   (Some n, s) \<Rightarrow>
                     if n \<noteq> pointsRead r
                     then (Spool_Stop [error_diag SpoolIncomplete ''incomplete tile spool''], Some (r\<lparr>rd_stream := s\<rparr>))
                     else (Spool_Stop [], Some (r\<lparr>rd_stream := s, rd_pointCount := n, complete := True,
                             rd_stats := read_since position s (rd_stats r)\<rparr>))
                 | (None, s) \<Rightarrow> (Spool_Stop [error_diag SpoolIncomplete ''incomplete tile spool''], Some (r\<lparr>rd_stream := s\<rparr>)))
              else if dataEnd r - position < recordSize r
              then (Spool_Stop [error_diag SpoolIncomplete ''truncated tile spool point''], Some r)
              else (case read_point (rd_schema r) (rd_stream r) of
                   (None, s) \<Rightarrow> (Spool_Stop [error_diag SpoolIncomplete ''truncated tile spool point''], Some (r\<lparr>rd_stream := s\<rparr>))
                 | (Some p, s) \<Rightarrow> (Spool_Point p, Some (r\<lparr>rd_stream := s, pointsRead := (pointsRead r + 1) mod (u64_max + 1),
                       rd_stats := read_since position s (rd_stats r)\<rparr>))))"

definition Reader_IsComplete :: "TileSpoolReader option \<Rightarrow> bool" where
  "Reader_IsComplete impl = (case impl of None \<Rightarrow> False | Some r \<Rightarrow> complete r)"

definition Reader_Close :: "TileSpoolReader option \<Rightarrow> TileSpoolReader option" where
  "Reader_Close impl = None"

definition RemoveSpoolDirectory :: "(string \<Rightarrow> bool) \<Rightarrow> string \<Rightarrow> bool \<times> Diagnostic list" where
  \<comment> \<open>the argument says whether the file system removes a directory\<close>
  "RemoveSpoolDirectory removes path =
     (if \<not> removes path then (False, [error_diag SpoolWorkspaceFailed ''unable to remove tile spool directory'']) else (True, []))"

section \<open>Codecs\<close>

definition ready_in :: "in_stream \<Rightarrow> bool" where
  "ready_in s \<longleftrightarrow> \<not> in_fail s \<and> in_pos s \<le> length (in_bytes s) \<and>
     (\<forall>p n. in_read_good s p n) \<and> (\<forall>p. in_seek_good s p)"

definition rest_in :: "in_stream \<Rightarrow> u8 list" where
  "rest_in s = drop (in_pos s) (in_bytes s)"

definition advance :: "nat \<Rightarrow> in_stream \<Rightarrow> in_stream" where
  "advance n s = s\<lparr>in_pos := in_pos s + n\<rparr>"

lemma advance_simps [simp]:
  "in_bytes (advance n s) = in_bytes s" "in_pos (advance n s) = in_pos s + n" "in_fail (advance n s) = in_fail s"
  "advance m (advance n s) = advance (n + m) s" "advance 0 s = s"
  "rest_in (advance n s) = drop n (rest_in s)"
  by (simp_all add: advance_def rest_in_def add.commute add.left_commute)

lemma ready_advance: "ready_in s \<Longrightarrow> rest_in s = xs @ ys \<Longrightarrow> ready_in (advance (length xs) s)"
proof -
  assume a: "ready_in s" "rest_in s = xs @ ys"
  then have "length (xs @ ys) = length (in_bytes s) - in_pos s" by (metis length_drop rest_in_def)
  with a(1) show ?thesis by (auto simp: ready_in_def advance_def)
qed

lemma rest_advance: "rest_in s = xs @ ys \<Longrightarrow> rest_in (advance (length xs) s) = ys"
  by simp

locale codec =
  fixes enc :: "'a \<Rightarrow> u8 list"
    and dec :: "'a reading"
    and fits :: "'a \<Rightarrow> bool"
  assumes reads: "ready_in s \<Longrightarrow> fits a \<Longrightarrow> rest_in s = enc a @ xs \<Longrightarrow> dec s = (Some a, advance (length (enc a)) s)"
    and sound: "ready_in s \<Longrightarrow> dec s = (Some a, s') \<Longrightarrow>
          fits a \<and> (\<exists>xs. rest_in s = enc a @ xs) \<and> s' = advance (length (enc a)) s"
begin

lemma moves:
  assumes "ready_in s" "dec s = (Some a, s')"
  obtains xs where "fits a" "rest_in s = enc a @ xs" "s' = advance (length (enc a)) s" "ready_in s'" "rest_in s' = xs"
proof -
  obtain xs where "fits a" "rest_in s = enc a @ xs" "s' = advance (length (enc a)) s"
    using sound [OF assms] by auto
  then show ?thesis using that ready_advance [OF assms(1)] by simp
qed

end

lemma codec_cong:
  assumes "codec e d f" "\<And>a. f' a \<longleftrightarrow> f a" "\<And>a. f a \<Longrightarrow> e' a = e a"
  shows "codec e' d f'"
proof
  fix s a xs assume "ready_in s" "f' a" "rest_in s = e' a @ xs"
  then show "d s = (Some a, advance (length (e' a)) s)" using codec.reads [OF assms(1)] assms(2,3) by simp
next
  fix s a s' assume "ready_in s" "d s = (Some a, s')"
  then show "f' a \<and> (\<exists>xs. rest_in s = e' a @ xs) \<and> s' = advance (length (e' a)) s"
    using codec.sound [OF assms(1)] assms(2,3) by metis
qed

lemma codec_give: "codec (\<lambda>_. []) (give c) (\<lambda>x. x = c)"
  by unfold_locales (auto simp: give_def)

lemma codec_none: "codec e (\<lambda>s. (None, s)) (\<lambda>_. False)"
  by unfold_locales auto

lemma codec_bind:
  assumes "codec e1 d1 f1" "\<And>a. f1 a \<Longrightarrow> codec e2 (k a) (\<lambda>c. p c = a \<and> fit c)"
  shows "codec (\<lambda>c. e1 (p c) @ e2 c) (and_read d1 k) (\<lambda>c. f1 (p c) \<and> fit c)"
proof
  fix s c xs assume s: "ready_in s" "f1 (p c) \<and> fit c" "rest_in s = (e1 (p c) @ e2 c) @ xs"
  have 1: "d1 s = (Some (p c), advance (length (e1 (p c))) s)"
    using codec.reads [OF assms(1) s(1)] s(2,3) by simp
  have r: "ready_in (advance (length (e1 (p c))) s)" using ready_advance [OF s(1)] s(3) by simp
  have "k (p c) (advance (length (e1 (p c))) s) = (Some c, advance (length (e2 c)) (advance (length (e1 (p c))) s))"
    using codec.reads [OF assms(2) r] s(2,3) by simp
  then show "and_read d1 k s = (Some c, advance (length (e1 (p c) @ e2 c)) s)"
    by (simp add: and_read_def 1)
next
  fix s c s' assume s: "ready_in s" "and_read d1 k s = (Some c, s')"
  then obtain a s1 where 1: "d1 s = (Some a, s1)" "k a s1 = (Some c, s')"
    by (auto simp: and_read_def split: prod.splits option.splits)
  obtain xs where 2: "f1 a" "rest_in s = e1 a @ xs" "s1 = advance (length (e1 a)) s" "ready_in s1" "rest_in s1 = xs"
    using codec.moves [OF assms(1) s(1) 1(1)] by metis
  have "(p c = a \<and> fit c) \<and> (\<exists>ys. rest_in s1 = e2 c @ ys) \<and> s' = advance (length (e2 c)) s1"
    using codec.sound [OF assms(2) [OF 2(1)] 2(4) 1(2)] .
  then show "(f1 (p c) \<and> fit c) \<and> (\<exists>xs. rest_in s = (e1 (p c) @ e2 c) @ xs) \<and> s' = advance (length (e1 (p c) @ e2 c)) s"
    using 2 by auto
qed

lemma codec_con:
  assumes "codec e d f" "\<And>b. f b \<Longrightarrow> e' (C b) = e b" "\<And>v. f' v \<longleftrightarrow> (\<exists>b. v = C b \<and> f b)"
  shows "codec e' (and_read d (\<lambda>b. give (C b))) f'"
proof
  fix s v xs assume s: "ready_in s" "f' v" "rest_in s = e' v @ xs"
  then obtain b where b: "v = C b" "f b" using assms(3) by auto
  then have "d s = (Some b, advance (length (e b)) s)"
    using codec.reads [OF assms(1) s(1)] s(3) assms(2) by simp
  then show "and_read d (\<lambda>b. give (C b)) s = (Some v, advance (length (e' v)) s)"
    using b assms(2) by (simp add: and_read_def give_def)
next
  fix s v s' assume s: "ready_in s" "and_read d (\<lambda>b. give (C b)) s = (Some v, s')"
  then obtain b where b: "d s = (Some b, s')" "v = C b"
    by (auto simp: and_read_def give_def split: prod.splits option.splits)
  then show "f' v \<and> (\<exists>xs. rest_in s = e' v @ xs) \<and> s' = advance (length (e' v)) s"
    using codec.sound [OF assms(1) s(1) b(1)] assms(2,3) by auto
qed

section \<open>The reading functions of the spool\<close>

interpretation raw_codec: codec "\<lambda>bs. bs" "read_in n" "\<lambda>bs. length bs = n"
proof
  fix s a xs assume s: "ready_in s" "length a = n" "rest_in s = a @ xs"
  have "length (a @ xs) = length (in_bytes s) - in_pos s" using s(3) by (metis length_drop rest_in_def)
  then show "read_in n s = (Some a, advance (length a) s)"
    using s by (auto simp: read_in_def ready_in_def advance_def sub_bytes_def rest_in_def)
next
  fix s a s' assume s: "ready_in s" "read_in n s = (Some a, s')"
  then have "in_pos s + n \<le> length (in_bytes s)" "a = take n (rest_in s)" "s' = advance n s"
    by (auto simp: read_in_def sub_bytes_def rest_in_def advance_def split: if_splits)
  moreover from this have "rest_in s = a @ drop n (rest_in s)" by simp
  moreover from calculation have "length a = n" by (simp add: rest_in_def)
  ultimately show "length a = n \<and> (\<exists>xs. rest_in s = a @ xs) \<and> s' = advance (length a) s" by metis
qed

lemma le_bytes_value: "length bs = w \<Longrightarrow> le_bytes w (le_value bs) = bs"
  using le_bytes_le_value by metis

interpretation uint_codec: codec "uint_bytes w" "get_uint w" "\<lambda>n. n < 256 ^ w"
  unfolding get_uint_def
proof (rule codec_con [OF raw_codec.codec_axioms])
  show "n < 256 ^ w \<longleftrightarrow> (\<exists>b. n = le_value b \<and> length b = w)" for n
    using le_value_less by (metis le_value_round length_le_bytes)
qed (simp add: uint_bytes_def le_bytes_value)

lemma power_256: "(256 :: int) ^ w = 2 ^ (8 * w)"
  by (simp add: power_mult)

lemma to_signed_inverse:
  assumes "0 < w" "- (2 ^ (8 * w - 1)) \<le> i" "i < 2 ^ (8 * w - 1)"
  shows "to_signed w (nat (i mod 2 ^ (8 * w))) = i" "nat (i mod 2 ^ (8 * w)) < 256 ^ w"
proof -
  have two: "(2 :: int) ^ (8 * w) = 2 * 2 ^ (8 * w - 1)" using assms(1) by (simp flip: power_Suc)
  have m: "0 \<le> i mod 2 ^ (8 * w)" "i mod 2 ^ (8 * w) < 2 ^ (8 * w)" by simp_all
  have "int (nat (i mod 2 ^ (8 * w))) < int (256 ^ w)" using m by (simp add: power_256)
  then show "nat (i mod 2 ^ (8 * w)) < 256 ^ w" by (simp only: of_nat_less_iff)
  have half: "nat (i mod 2 ^ (8 * w)) < 2 ^ (8 * w - 1) \<longleftrightarrow> i mod 2 ^ (8 * w) < 2 ^ (8 * w - 1)"
    using m by (simp add: nat_less_iff)
  show "to_signed w (nat (i mod 2 ^ (8 * w))) = i"
  proof (cases "0 \<le> i")
    case True
    then have "i mod 2 ^ (8 * w) = i" using assms(3) two by (intro mod_pos_pos_trivial) auto
    then show ?thesis using True assms(3) by (simp add: to_signed_def half)
  next
    case False
    then have "(i + 2 ^ (8 * w)) mod 2 ^ (8 * w) = i + 2 ^ (8 * w)"
      using assms(2) two by (intro mod_pos_pos_trivial) auto
    then have "i mod 2 ^ (8 * w) = i + 2 ^ (8 * w)" by simp
    then show ?thesis using False assms(2) two by (auto simp: to_signed_def half)
  qed
qed

lemma sint_bytes_signed: "0 < w \<Longrightarrow> length bs = w \<Longrightarrow> sint_bytes w (to_signed w (le_value bs)) = bs"
proof -
  assume a: "0 < w" "length bs = w"
  have "le_value bs < 256 ^ w" using le_value_less [of bs] a(2) by simp
  then have v: "int (le_value bs) < 2 ^ (8 * w)" by (metis of_nat_less_iff of_nat_numeral of_nat_power power_256)
  have "to_signed w (le_value bs) mod 2 ^ (8 * w) = int (le_value bs)"
    using v by (simp add: to_signed_def mod_pos_pos_trivial minus_mod_self2)
  then show ?thesis using a(2) by (simp add: sint_bytes_def le_bytes_value)
qed

lemma sint_codec:
  assumes "0 < w"
  shows "codec (sint_bytes w) (get_sint w) (\<lambda>i. - (2 ^ (8 * w - 1)) \<le> i \<and> i < 2 ^ (8 * w - 1))"
  unfolding get_sint_def
proof (rule codec_con [OF raw_codec.codec_axioms])
  show "(- (2 ^ (8 * w - 1)) \<le> i \<and> i < 2 ^ (8 * w - 1)) \<longleftrightarrow> (\<exists>b. i = to_signed w (le_value b) \<and> length b = w)" for i
  proof
    assume i: "- (2 ^ (8 * w - 1)) \<le> i \<and> i < 2 ^ (8 * w - 1)"
    then have "i = to_signed w (le_value (sint_bytes w i))" "length (sint_bytes w i) = w"
      using to_signed_inverse [OF assms, of i] by (simp_all add: sint_bytes_def)
    then show "\<exists>b. i = to_signed w (le_value b) \<and> length b = w" by blast
  next
    assume "\<exists>b. i = to_signed w (le_value b) \<and> length b = w"
    then show "- (2 ^ (8 * w - 1)) \<le> i \<and> i < 2 ^ (8 * w - 1)"
      using to_signed_range [OF assms] le_value_less by blast
  qed
qed (use sint_bytes_signed [OF assms] in simp)

lemma word_round:
  assumes "LENGTH('a::len) = 8 * k"
  shows "length bs = k \<Longrightarrow> word_bytes (bytes_word bs :: 'a word) = bs"
    "bytes_word (word_bytes (w :: 'a word)) = w" "length (word_bytes (w :: 'a word)) = k"
proof -
  have p: "(256 :: nat) ^ k = 2 ^ LENGTH('a)" unfolding assms by (simp add: power_mult)
  show "word_bytes (bytes_word bs :: 'a word) = bs" if "length bs = k"
  proof -
    have "le_value bs < 2 ^ LENGTH('a)" using le_value_less [of bs] p that by simp
    then show ?thesis using that by (simp add: word_bytes_def bytes_word_def unat_of_nat assms le_bytes_value)
  qed
  have "unat w < 256 ^ k" unfolding p by (rule unsigned_less)
  then show "bytes_word (word_bytes (w :: 'a word)) = w" by (simp add: word_bytes_def bytes_word_def assms)
  show "length (word_bytes (w :: 'a word)) = k" by (simp add: word_bytes_def assms)
qed

lemma word_codec:
  assumes "LENGTH('a::len) = 8 * k"
  shows "codec word_bytes (get_word :: 'a word reading) (\<lambda>_. True)"
  unfolding get_word_def
proof (rule codec_con [OF raw_codec.codec_axioms])
  show "True \<longleftrightarrow> (\<exists>b. w = bytes_word b \<and> length b = LENGTH('a) div 8)" for w :: "'a word"
    using word_round(2,3) [OF assms, of w] assms by (metis nonzero_mult_div_cancel_left zero_neq_numeral)
qed (use word_round(1) [OF assms] assms in simp)

lemma word_lengths [simp]:
  "length (word_bytes (a :: u8)) = 1" "length (word_bytes (b :: 16 word)) = 2"
  "length (word_bytes (c :: 32 word)) = 4" "length (word_bytes (d :: u64)) = 8"
  by (simp_all add: word_bytes_def)

lemma length_vec_bytes [simp]: "length (vec_bytes v) = 24"
  by (simp add: vec_bytes_def split: prod.splits)

lemma u64_round: "length bs = 8 \<Longrightarrow> word_bytes (bytes_word bs :: u64) = bs" "bytes_word (word_bytes (w :: u64)) = w"
  using word_round [where 'a = 64 and k = 8] by auto

lemma split_bytes: "length bs = m + n \<Longrightarrow> sub_bytes 0 m bs @ sub_bytes m n bs = bs"
  by (simp add: sub_bytes_def)

lemma pair_round:
  "length bs = 16 \<Longrightarrow> word_bytes (bytes_word (sub_bytes 0 8 bs) :: u64) @ word_bytes (bytes_word (sub_bytes 8 8 bs) :: u64) = bs"
  "sub_bytes 0 8 (word_bytes (x :: u64) @ word_bytes (y :: u64)) = word_bytes x"
  "sub_bytes 8 8 (word_bytes (x :: u64) @ word_bytes (y :: u64)) = word_bytes y"
  using split_bytes [of bs 8 8] by (simp_all add: u64_round length_sub_bytes) (simp_all add: sub_bytes_def)

lemma vec_round:
  "length bs = 24 \<Longrightarrow> vec_bytes (bytes_vec bs) = bs" "bytes_vec (vec_bytes v) = v"
proof -
  show "vec_bytes (bytes_vec bs) = bs" if "length bs = 24"
  proof -
    have "take 8 bs @ take 8 (drop 8 bs) @ take 8 (drop 16 bs) = bs"
      using that append_take_drop_id [of 8 bs] append_take_drop_id [of 8 "drop 8 bs"] by simp
    then show ?thesis using that by (simp add: vec_bytes_def bytes_vec_def u64_round length_sub_bytes sub_bytes_def)
  qed
  show "bytes_vec (vec_bytes v) = v"
    by (cases v) (simp add: vec_bytes_def bytes_vec_def sub_bytes_def u64_round)
qed

interpretation vec_codec: codec vec_bytes get_vec "\<lambda>_. True"
  unfolding get_vec_def
  by (rule codec_con [OF raw_codec.codec_axioms]) (auto simp: vec_round intro: exI [of _ "vec_bytes _"])

lemma bytes_of_chars_of: "bytes_of (chars_of bs) = bs"
proof -
  have "of_nat (of_char (char_of (unat b) :: char)) = b" for b :: u8
  proof -
    have "unat b < 256" using unsigned_less [of b] by simp
    then show ?thesis by simp
  qed
  then show ?thesis by (simp add: bytes_of_def chars_of_def o_def map_idI)
qed

lemma length_chars_of [simp]: "length (chars_of bs) = length bs"
  by (simp add: chars_of_def)

definition string_bytes :: "string \<Rightarrow> u8 list" where
  "string_bytes s = uint_bytes 4 (length s) @ bytes_of s"

interpretation string_codec: codec string_bytes ReadString "\<lambda>s. length s \<le> 1048576"
  unfolding ReadString_def
proof (rule codec_cong)
  show "codec (\<lambda>s. uint_bytes 4 (length s) @ bytes_of s)
     (and_read (get_uint 4) (\<lambda>n. if 1048576 < n then (\<lambda>s. (None, s)) else and_read (read_in n) (\<lambda>bs. give (chars_of bs))))
     (\<lambda>s. length s < 256 ^ 4 \<and> length s \<le> 1048576)"
  proof (rule codec_bind [OF uint_codec.codec_axioms])
    fix n :: nat
    have "codec bytes_of (and_read (read_in n) (\<lambda>bs. give (chars_of bs))) (\<lambda>s. length s = n)"
      by (rule codec_con [OF raw_codec.codec_axioms])
        (auto simp: bytes_of_chars_of intro: exI [of _ "bytes_of _"])
    then show "codec bytes_of (if 1048576 < n then (\<lambda>s. (None, s)) else and_read (read_in n) (\<lambda>bs. give (chars_of bs)))
       (\<lambda>s. length s = n \<and> length s \<le> 1048576)"
      by (auto intro: codec_cong codec_none)
  qed
qed (auto simp: string_bytes_def)

definition holds :: "PointAttributeType \<Rightarrow> SpoolAttributeValue \<Rightarrow> bool" where
  "holds t v \<longleftrightarrow> value_index v = type_code t"

lemma attribute_codec: "codec value_bytes (ReadAttribute t) (holds t)"
proof -
  note w = word_codec [where 'a = 8 and k = 1] word_codec [where 'a = 16 and k = 2]
    word_codec [where 'a = 32 and k = 4] word_codec [where 'a = 64 and k = 8]
  have v2: "codec value_bytes (and_read (read_in 16)
      (\<lambda>bs. give (V_Vec2 (bytes_word (sub_bytes 0 8 bs), bytes_word (sub_bytes 8 8 bs))))) (holds Float64Vec2)"
  proof (rule codec_con [OF raw_codec.codec_axioms])
    show "holds Float64Vec2 v \<longleftrightarrow>
       (\<exists>b. v = V_Vec2 (bytes_word (sub_bytes 0 8 b), bytes_word (sub_bytes 8 8 b)) \<and> length b = 16)" for v
    proof (cases v)
      case (V_Vec2 q)
      then show ?thesis
        by (auto simp: holds_def value_index_def type_code_def pair_round u64_round
            intro!: exI [of _ "word_bytes (fst q) @ word_bytes (snd q)"])
    qed (auto simp: holds_def value_index_def type_code_def)
  qed (simp add: value_bytes_def pair_round)
  show ?thesis
  proof (cases t)
    case Float64Vec2
    then show ?thesis using v2 by simp
  next
    case Float64Vec3
    show ?thesis unfolding Float64Vec3 ReadAttribute.simps
      by (rule codec_con [OF vec_codec.codec_axioms])
        (auto simp: value_bytes_def holds_def value_index_def type_code_def split: SpoolAttributeValue.splits)
  qed (auto intro!: w codec_con simp: value_bytes_def holds_def value_index_def type_code_def
      split: SpoolAttributeValue.splits)
qed

definition values_bytes :: "SpoolAttributeValue list \<Rightarrow> u8 list" where
  "values_bytes vs = concat (map value_bytes vs)"

lemma attributes_codec: "codec values_bytes (read_attributes as) (list_all2 (\<lambda>a. holds (attr_type a)) as)"
proof (induction as)
  case Nil
  show ?case unfolding read_attributes.simps
    by (rule codec_cong [OF codec_give [of "[]"]]) (auto simp: values_bytes_def)
next
  case (Cons a as)
  have tail: "codec (\<lambda>vs. values_bytes (tl vs)) (and_read (read_attributes as) (\<lambda>vs. give (v # vs)))
     (\<lambda>vs. hd vs = v \<and> (vs \<noteq> [] \<and> list_all2 (\<lambda>a. holds (attr_type a)) as (tl vs)))" for v
    by (rule codec_con [OF Cons]) (auto simp: neq_Nil_conv)
  have "codec (\<lambda>vs. value_bytes (hd vs) @ values_bytes (tl vs)) (read_attributes (a # as))
     (\<lambda>vs. holds (attr_type a) (hd vs) \<and> (vs \<noteq> [] \<and> list_all2 (\<lambda>a. holds (attr_type a)) as (tl vs)))"
    unfolding read_attributes.simps by (rule codec_bind [OF attribute_codec tail])
  then show ?case
    by (rule codec_cong) (auto simp: values_bytes_def list_all2_Cons1 neq_Nil_conv)
qed

definition point_bytes :: "SpoolPoint \<Rightarrow> u8 list" where
  "point_bytes p = vec_bytes (sp_sourcePosition p) @ vec_bytes (sp_stagePosition p) @ values_bytes (sp_attributes p)"

definition fits_schema :: "SpoolSchema \<Rightarrow> SpoolPoint \<Rightarrow> bool" where
  "fits_schema sch p \<longleftrightarrow> list_all2 (\<lambda>a. holds (attr_type a)) (schema_attributes sch) (sp_attributes p)"

interpretation point_codec: codec point_bytes "read_point sch" "fits_schema sch"
proof -
  let ?fits = "list_all2 (\<lambda>a. holds (attr_type a)) (schema_attributes sch)"
  let ?mk = "\<lambda>p q vs. \<lparr>sp_sourcePosition = p, sp_stagePosition = q, sp_attributes = vs\<rparr>"
  have a: "codec (\<lambda>c. values_bytes (sp_attributes c))
      (and_read (read_attributes (schema_attributes sch)) (\<lambda>vs. give (?mk p q vs)))
      (\<lambda>c. sp_stagePosition c = q \<and> (sp_sourcePosition c = p \<and> ?fits (sp_attributes c)))" for p q
    by (rule codec_con [OF attributes_codec]) (auto intro!: SpoolPoint.equality)
  have "codec (\<lambda>c. vec_bytes (sp_stagePosition c) @ values_bytes (sp_attributes c))
      (and_read get_vec (\<lambda>q. and_read (read_attributes (schema_attributes sch)) (\<lambda>vs. give (?mk p q vs))))
      (\<lambda>c. True \<and> (sp_sourcePosition c = p \<and> ?fits (sp_attributes c)))" for p
    by (rule codec_bind [OF vec_codec.codec_axioms a])
  then have b: "codec (\<lambda>c. vec_bytes (sp_stagePosition c) @ values_bytes (sp_attributes c))
      (and_read get_vec (\<lambda>q. and_read (read_attributes (schema_attributes sch)) (\<lambda>vs. give (?mk p q vs))))
      (\<lambda>c. sp_sourcePosition c = p \<and> ?fits (sp_attributes c))" for p
    by simp
  show "codec point_bytes (read_point sch) (fits_schema sch)"
    unfolding read_point_def
    by (rule codec_cong [OF codec_bind [OF vec_codec.codec_axioms b]]) (auto simp: fits_schema_def point_bytes_def)
qed

lemma expect_codec: "codec (\<lambda>_. bs) (expect bs) (\<lambda>_. True)"
proof -
  have "codec (\<lambda>_. []) (if xs = bs then give () else (\<lambda>s. (None, s))) (\<lambda>u. bs = xs \<and> True)" for xs
    by (auto intro: codec_cong codec_give codec_none)
  then have "codec (\<lambda>u. bs @ []) (expect bs) (\<lambda>u. length bs = length bs \<and> True)"
    unfolding expect_def by (intro codec_bind [OF raw_codec.codec_axioms]) simp
  then show ?thesis by simp
qed

type_synonym spool_numbers = "nat \<times> nat \<times> int \<times> int \<times> int \<times> nat"

definition numbers_bytes :: "spool_numbers \<Rightarrow> u8 list" where
  "numbers_bytes c = (case c of (v, sp, l, x, y, n) \<Rightarrow>
     uint_bytes 4 v @ uint_bytes 1 sp @ sint_bytes 4 l @ sint_bytes 8 x @ sint_bytes 8 y @ uint_bytes 4 n)"

definition in_i32 :: "int \<Rightarrow> bool" where
  "in_i32 i \<longleftrightarrow> - 2147483648 \<le> i \<and> i < 2147483648"

definition in_i64 :: "int \<Rightarrow> bool" where
  "in_i64 i \<longleftrightarrow> - 9223372036854775808 \<le> i \<and> i < 9223372036854775808"

definition numbers_fit :: "spool_numbers \<Rightarrow> bool" where
  "numbers_fit c = (case c of (v, sp, l, x, y, n) \<Rightarrow>
     v < 4294967296 \<and> sp < 256 \<and> in_i32 l \<and> in_i64 x \<and> in_i64 y \<and> n \<le> 100000)"

lemma number_codecs:
  "codec (uint_bytes 4) (get_uint 4) (\<lambda>n. n < 4294967296)" "codec (uint_bytes 1) (get_uint 1) (\<lambda>n. n < 256)"
  "codec (sint_bytes 4) (get_sint 4) in_i32" "codec (sint_bytes 8) (get_sint 8) in_i64"
  using uint_codec.codec_axioms [of 4] uint_codec.codec_axioms [of 1]
    codec_cong [OF sint_codec [of 4], of in_i32] codec_cong [OF sint_codec [of 8], of in_i64]
  by (simp_all add: in_i32_def in_i64_def)

interpretation numbers_codec: codec "\<lambda>c. kHeader @ numbers_bytes c" read_numbers numbers_fit
proof -
  let ?v = "fst :: spool_numbers \<Rightarrow> _" and ?sp = "\<lambda>c :: spool_numbers. fst (snd c)"
  let ?l = "\<lambda>c :: spool_numbers. fst (snd (snd c))" and ?x = "\<lambda>c :: spool_numbers. fst (snd (snd (snd c)))"
  let ?y = "\<lambda>c :: spool_numbers. fst (snd (snd (snd (snd c))))"
  let ?n = "\<lambda>c :: spool_numbers. snd (snd (snd (snd (snd c))))"
  let ?fin = "\<lambda>v sp l x y n. if 100000 < n then (\<lambda>s. (None, s)) else give (v, sp, l, x, y, n)"
  let ?rest = "\<lambda>v sp l x y c. ?v c = v \<and> ?sp c = sp \<and> ?l c = l \<and> ?x c = x \<and> ?y c = y \<and> ?n c \<le> 100000"
  have c6: "codec (\<lambda>c. []) (?fin v sp l x y n) (\<lambda>c. ?n c = n \<and> ?rest v sp l x y c)" for v sp l x y n
    by (auto intro!: codec_cong [OF codec_give] codec_cong [OF codec_none])
  have c5: "codec (\<lambda>c. uint_bytes 4 (?n c) @ []) (and_read (get_uint 4) (?fin v sp l x y))
     (\<lambda>c. ?y c = y \<and> (?n c < 4294967296 \<and> ?rest v sp l x y c))" for v sp l x y
    by (rule codec_cong [OF codec_bind [OF number_codecs(1) c6]]) auto
  have c4: "codec (\<lambda>c. sint_bytes 8 (?y c) @ uint_bytes 4 (?n c) @ [])
     (and_read (get_sint 8) (\<lambda>y. and_read (get_uint 4) (?fin v sp l x y)))
     (\<lambda>c. ?x c = x \<and> (in_i64 (?y c) \<and> ?n c < 4294967296 \<and> ?rest v sp l x (?y c) c))" for v sp l x
    by (rule codec_cong [OF codec_bind [OF number_codecs(4), where p = ?y
          and fit = "\<lambda>c. ?n c < 4294967296 \<and> ?rest v sp l x (?y c) c"]])
      (rule codec_cong [OF c5], auto)
  have c3: "codec (\<lambda>c. sint_bytes 8 (?x c) @ sint_bytes 8 (?y c) @ uint_bytes 4 (?n c) @ [])
     (and_read (get_sint 8) (\<lambda>x. and_read (get_sint 8) (\<lambda>y. and_read (get_uint 4) (?fin v sp l x y))))
     (\<lambda>c. ?l c = l \<and> (in_i64 (?x c) \<and> in_i64 (?y c) \<and> ?n c < 4294967296 \<and> ?rest v sp l (?x c) (?y c) c))" for v sp l
    by (rule codec_cong [OF codec_bind [OF number_codecs(4), where p = ?x
          and fit = "\<lambda>c. in_i64 (?y c) \<and> ?n c < 4294967296 \<and> ?rest v sp l (?x c) (?y c) c"]])
      (rule codec_cong [OF c4], auto)
  have c2: "codec (\<lambda>c. sint_bytes 4 (?l c) @ sint_bytes 8 (?x c) @ sint_bytes 8 (?y c) @ uint_bytes 4 (?n c) @ [])
     (and_read (get_sint 4) (\<lambda>l. and_read (get_sint 8) (\<lambda>x. and_read (get_sint 8) (\<lambda>y. and_read (get_uint 4) (?fin v sp l x y)))))
     (\<lambda>c. ?sp c = sp \<and> (in_i32 (?l c) \<and> in_i64 (?x c) \<and> in_i64 (?y c) \<and> ?n c < 4294967296 \<and>
        ?rest v sp (?l c) (?x c) (?y c) c))" for v sp
    by (rule codec_cong [OF codec_bind [OF number_codecs(3), where p = ?l
          and fit = "\<lambda>c. in_i64 (?x c) \<and> in_i64 (?y c) \<and> ?n c < 4294967296 \<and> ?rest v sp (?l c) (?x c) (?y c) c"]])
      (rule codec_cong [OF c3], auto)
  have c1: "codec (\<lambda>c. uint_bytes 1 (?sp c) @ sint_bytes 4 (?l c) @ sint_bytes 8 (?x c) @ sint_bytes 8 (?y c) @ uint_bytes 4 (?n c) @ [])
     (and_read (get_uint 1) (\<lambda>sp. and_read (get_sint 4) (\<lambda>l. and_read (get_sint 8) (\<lambda>x. and_read (get_sint 8) (\<lambda>y.
        and_read (get_uint 4) (?fin v sp l x y))))))
     (\<lambda>c. ?v c = v \<and> (?sp c < 256 \<and> in_i32 (?l c) \<and> in_i64 (?x c) \<and> in_i64 (?y c) \<and> ?n c < 4294967296 \<and>
        ?rest v (?sp c) (?l c) (?x c) (?y c) c))" for v
    by (rule codec_cong [OF codec_bind [OF number_codecs(2), where p = ?sp
          and fit = "\<lambda>c. in_i32 (?l c) \<and> in_i64 (?x c) \<and> in_i64 (?y c) \<and> ?n c < 4294967296 \<and>
            ?rest v (?sp c) (?l c) (?x c) (?y c) c"]])
      (rule codec_cong [OF c2], auto)
  have c0: "codec numbers_bytes (and_read (get_uint 4) (\<lambda>v. and_read (get_uint 1) (\<lambda>sp. and_read (get_sint 4) (\<lambda>l.
        and_read (get_sint 8) (\<lambda>x. and_read (get_sint 8) (\<lambda>y. and_read (get_uint 4) (?fin v sp l x y))))))) numbers_fit"
    by (rule codec_cong [OF codec_bind [OF number_codecs(1), where p = ?v
          and fit = "\<lambda>c. ?sp c < 256 \<and> in_i32 (?l c) \<and> in_i64 (?x c) \<and> in_i64 (?y c) \<and> ?n c < 4294967296 \<and>
            ?rest (?v c) (?sp c) (?l c) (?x c) (?y c) c"]])
      (rule codec_cong [OF c1], auto simp: numbers_bytes_def numbers_fit_def)
  show "codec (\<lambda>c. kHeader @ numbers_bytes c) read_numbers numbers_fit"
    unfolding read_numbers_def
    by (rule codec_cong [OF codec_bind [OF expect_codec, where p = "\<lambda>_. ()" and fit = numbers_fit]])
      (rule codec_cong [OF c0], auto)
qed

definition raw_bytes :: "string \<times> nat \<Rightarrow> u8 list" where
  "raw_bytes a = string_bytes (fst a) @ uint_bytes 1 (snd a)"

definition raw_fits :: "string \<times> nat \<Rightarrow> bool" where
  "raw_fits a \<longleftrightarrow> length (fst a) \<le> 1048576 \<and> snd a < 256"

lemma raw_attribute_codec: "codec raw_bytes read_attribute raw_fits"
proof -
  have "codec (\<lambda>c. uint_bytes 1 (snd c)) (and_read (get_uint 1) (\<lambda>t. give (name, t))) (\<lambda>c. fst c = name \<and> snd c < 256)" for name :: string
    by (rule codec_con [OF number_codecs(2)]) auto
  then show ?thesis
    unfolding read_attribute_def
    by (intro codec_cong [OF codec_bind [OF string_codec.codec_axioms, where p = fst]])
      (auto simp: raw_bytes_def raw_fits_def)
qed

lemma raw_schema_codec:
  "codec (\<lambda>as. concat (map raw_bytes as)) (read_schema n) (\<lambda>as. length as = n \<and> list_all raw_fits as)"
proof (induction n)
  case 0
  show ?case unfolding read_schema.simps by (rule codec_cong [OF codec_give [of "[]"]]) auto
next
  case (Suc n)
  have tail: "codec (\<lambda>as. concat (map raw_bytes (tl as))) (and_read (read_schema n) (\<lambda>as. give (a # as)))
     (\<lambda>as. hd as = a \<and> (length as = Suc n \<and> list_all raw_fits (tl as)))" for a
    by (rule codec_con [OF Suc]) (auto simp: length_Suc_conv)
  show ?case unfolding read_schema.simps
    by (rule codec_cong [OF codec_bind [OF raw_attribute_codec tail]]) (auto simp: length_Suc_conv)
qed

definition raw_of :: "PointAttribute \<Rightarrow> string \<times> nat" where
  "raw_of a = (attr_name a, type_code (attr_type a))"

lemma type_of_code: "type_of_code (type_code t) = Some t" "type_of_code n = Some t \<Longrightarrow> n = type_code t" "type_code t < 256"
proof -
  show "type_of_code (type_code t) = Some t" by (cases t) (simp_all add: type_of_code_def type_code_def)
  show "type_of_code n = Some t \<Longrightarrow> n = type_code t" by (auto simp: type_of_code_def split: if_splits)
  show "type_code t < 256" by (cases t) (simp_all add: type_code_def)
qed

lemma schema_of_raw: "schema_of raw = Some as \<longleftrightarrow> raw = map raw_of as"
proof (induction raw arbitrary: as)
  case (Cons a raw)
  show ?case
  proof (cases a)
    case (Pair name t)
    show ?thesis
    proof (cases as)
      case Nil
      then show ?thesis by (simp add: Pair split: option.splits)
    next
      case (Cons b bs)
      have "raw_of b = (name, t) \<longleftrightarrow> attr_name b = name \<and> type_of_code t = Some (attr_type b)"
        using type_of_code by (auto simp: raw_of_def)
      moreover have "attribute name pt = b \<longleftrightarrow> attr_name b = name \<and> attr_type b = pt" for pt
        by (cases b) (auto simp: attribute_def)
      moreover have "schema_of ((name, t) # raw) = Some (b # bs) \<longleftrightarrow>
          (\<exists>pt. type_of_code t = Some pt \<and> attribute name pt = b) \<and> schema_of raw = Some bs"
        by (cases "type_of_code t"; cases "schema_of raw") auto
      ultimately show ?thesis
        unfolding Pair Cons list.map(2) list.inject Cons.IH [symmetric] by metis
    qed
  qed
qed auto

section \<open>The file of a spool\<close>

definition header_bytes :: "PointTileId \<Rightarrow> SpoolSchema \<Rightarrow> u8 list" where
  "header_bytes t sch = kHeader @ numbers_bytes (schema_version sch, coordinateSpace sch, level t, tx t, ty t,
       length (schema_attributes sch)) @ concat (map raw_bytes (map raw_of (schema_attributes sch)))"

definition footer_bytes :: "nat \<Rightarrow> u8 list" where
  "footer_bytes n = kFooter @ uint_bytes 8 n"

definition spool_bytes :: "PointTileId \<Rightarrow> SpoolSchema \<Rightarrow> SpoolPoint list \<Rightarrow> u8 list" where
  "spool_bytes t sch ps = header_bytes t sch @ concat (map point_bytes ps) @ footer_bytes (length ps)"

definition readable_schema :: "PointTileId \<Rightarrow> SpoolSchema \<Rightarrow> bool" where
  "readable_schema t sch \<longleftrightarrow> TileId_IsValid t \<and> in_i32 (level t) \<and> in_i64 (tx t) \<and> in_i64 (ty t) \<and>
     SpoolSchema_IsValid sch \<and> length (schema_attributes sch) \<le> 100000 \<and>
     list_all (\<lambda>a. length (attr_name a) \<le> 1048576) (schema_attributes sch)"

lemma value_size: "holds t v \<Longrightarrow> length (value_bytes v) = AttributeSize t"
  by (cases t; cases v)
    (simp_all add: holds_def value_index_def type_code_def value_bytes_def split: prod.splits)

lemma point_size: "fits_schema sch p \<Longrightarrow> length (point_bytes p) = record_size sch"
proof -
  have "list_all2 (\<lambda>a. holds (attr_type a)) as vs \<Longrightarrow>
      length (values_bytes vs) = sum_list (map (\<lambda>a. AttributeSize (attr_type a)) as)" for as vs
    by (induction as vs rule: list_all2_induct) (simp_all add: values_bytes_def value_size)
  then show "fits_schema sch p \<Longrightarrow> length (point_bytes p) = record_size sch"
    by (simp add: point_bytes_def record_size_def fits_schema_def)
qed

lemma points_size: "list_all (fits_schema sch) ps \<Longrightarrow> length (concat (map point_bytes ps)) = record_size sch * length ps"
  by (induction ps) (simp_all add: point_size)

lemma footer_size [simp]: "length (footer_bytes n) = 16" "kFooterSize = 16" "length kFooter = 8"
  by (simp_all add: footer_bytes_def kFooterSize_def kFooter_def uint_bytes_def bytes_of_def)

section \<open>Reading a spool to its end\<close>

fun read_spool :: "nat \<Rightarrow> TileSpoolReader option \<Rightarrow> ((SpoolPoint list \<times> Diagnostic list) \<times> TileSpoolReader option) option" where
  \<comment> \<open>\<^verbatim>\<open>ReadNext\<close> until it returns false, the number of calls bounded\<close>
  "read_spool 0 r = None"
| "read_spool (Suc k) r =
     (case Reader_ReadNext r of
        (Spool_Stop ds, r') \<Rightarrow> Some (([], ds), r')
      | (Spool_Point p, r') \<Rightarrow>
          (case read_spool k r' of
             None \<Rightarrow> None
           | Some ((ps, ds), r'') \<Rightarrow> Some ((p # ps, ds), r'')))"

definition reading_at :: "SpoolSchema \<Rightarrow> nat \<Rightarrow> u8 list \<Rightarrow> TileSpoolReader \<Rightarrow> bool" where
  \<comment> \<open>a reader before the record number \<open>n\<close>, the bytes \<open>xs\<close> and the footer ahead\<close>
  "reading_at sch n xs r \<longleftrightarrow> ready_in (rd_stream r) \<and> rd_schema r = sch \<and> recordSize r = record_size sch \<and>
     pointsRead r = n \<and> \<not> complete r \<and> in_pos (rd_stream r) + length xs = dataEnd r \<and>
     (\<exists>ys. rest_in (rd_stream r) = xs @ ys \<and> length ys = 16)"

lemma footer_codec: "codec footer_bytes (and_read (expect kFooter) (\<lambda>_. get_uint 8)) (\<lambda>n. n < 256 ^ 8)"
proof -
  have "codec (uint_bytes 8) (get_uint 8) (\<lambda>c. () = u \<and> c < 256 ^ 8)" for u :: unit
    by (rule codec_cong [OF uint_codec.codec_axioms]) auto
  then show ?thesis
    by (intro codec_cong [OF codec_bind [OF expect_codec, where p = "\<lambda>_. ()"]]) (auto simp: footer_bytes_def)
qed

lemma reading_next:
  assumes "reading_at sch n (point_bytes p @ xs) r" "fits_schema sch p"
  obtains r' where "Reader_ReadNext (Some r) = (Spool_Point p, Some r')"
    "reading_at sch ((n + 1) mod (u64_max + 1)) xs r'" "rest_in (rd_stream r) = point_bytes p @ rest_in (rd_stream r')"
proof -
  let ?s = "rd_stream r"
  obtain ys where ys: "rest_in ?s = point_bytes p @ (xs @ ys)" "length ys = 16"
    using assms(1) by (auto simp: reading_at_def)
  have r: "ready_in ?s" "rd_schema r = sch" "recordSize r = record_size sch" "pointsRead r = n" "\<not> complete r"
    "in_pos ?s + length (point_bytes p @ xs) = dataEnd r"
    using assms(1) by (auto simp: reading_at_def)
  have sz: "length (point_bytes p) = record_size sch" "0 < record_size sch"
    using point_size [OF assms(2)] by (simp_all add: record_size_def)
  have read: "read_point sch ?s = (Some p, advance (length (point_bytes p)) ?s)"
    by (rule point_codec.reads [OF r(1) assms(2) ys(1)])
  let ?r = "r\<lparr>rd_stream := advance (length (point_bytes p)) ?s, pointsRead := (n + 1) mod (u64_max + 1),
     rd_stats := read_since (in_pos ?s) (advance (length (point_bytes p)) ?s) (rd_stats r)\<rparr>"
  have t: "tellg ?s = Some (in_pos ?s)" using r(1) by (simp add: tellg_def ready_in_def)
  have "Reader_ReadNext (Some r) = (Spool_Point p, Some ?r)"
    using r(3,5,6) sz t read by (simp add: Reader_ReadNext_def r(2,4))
  moreover have "reading_at sch ((n + 1) mod (u64_max + 1)) xs ?r"
    using r ys ready_advance [OF r(1) ys(1)] by (auto simp: reading_at_def)
  ultimately show ?thesis using that ys(1) by simp
qed

lemma reading_end:
  assumes "reading_at sch n [] r" "rest_in (rd_stream r) = footer_bytes n" "n \<le> u64_max"
  obtains r' where "Reader_ReadNext (Some r) = (Spool_Stop [], Some r')" "complete r'"
proof -
  let ?s = "rd_stream r"
  have r: "ready_in ?s" "pointsRead r = n" "\<not> complete r" "in_pos ?s = dataEnd r"
    using assms(1) by (auto simp: reading_at_def)
  have "and_read (expect kFooter) (\<lambda>_. get_uint 8) ?s = (Some n, advance (length (footer_bytes n)) ?s)"
    using codec.reads [OF footer_codec r(1), of n "[]"] assms(2,3) by simp
  moreover have "tellg ?s = Some (in_pos ?s)" using r(1) by (simp add: tellg_def ready_in_def)
  ultimately show ?thesis
    using that [of "r\<lparr>rd_stream := advance 16 ?s, rd_pointCount := n, complete := True,
        rd_stats := read_since (in_pos ?s) (advance 16 ?s) (rd_stats r)\<rparr>"] r
    by (simp add: Reader_ReadNext_def)
qed

lemma read_spool_delivers:
  assumes "reading_at sch n (concat (map point_bytes ps)) r" "list_all (fits_schema sch) ps"
    "rest_in (rd_stream r) = concat (map point_bytes ps) @ footer_bytes (n + length ps)" "n + length ps \<le> u64_max"
  shows "\<exists>r'. read_spool (Suc (length ps)) (Some r) = Some ((ps, []), r') \<and> Reader_IsComplete r'"
  using assms
proof (induction ps arbitrary: n r)
  case Nil
  then obtain r' where "Reader_ReadNext (Some r) = (Spool_Stop [], Some r')" "complete r'"
    using reading_end by (metis add.right_neutral append_Nil concat.simps(1) list.simps(8) list.size(3))
  then show ?case by (simp add: Reader_IsComplete_def)
next
  case (Cons p ps)
  then have "reading_at sch n (point_bytes p @ concat (map point_bytes ps)) r" "fits_schema sch p" by simp_all
  then obtain r' where r': "Reader_ReadNext (Some r) = (Spool_Point p, Some r')"
    "reading_at sch ((n + 1) mod (u64_max + 1)) (concat (map point_bytes ps)) r'"
    "rest_in (rd_stream r) = point_bytes p @ rest_in (rd_stream r')"
    by (rule reading_next)
  have m: "(n + 1) mod (u64_max + 1) = n + 1" using Cons.prems(4) by simp
  have "\<exists>r''. read_spool (Suc (length ps)) (Some r') = Some ((ps, []), r'') \<and> Reader_IsComplete r''"
    by (rule Cons.IH [OF r'(2) [unfolded m]]) (use Cons.prems(2-4) r'(3) in auto)
  then show ?case using r'(1) by (auto simp del: read_spool.simps(2) simp: read_spool.simps(2) [of "Suc (length ps)" "Some r"])
qed

lemma read_spool_sound:
  assumes "reading_at sch n xs r" "read_spool k (Some r) = Some ((ps, ds), r')" "Reader_IsComplete r'"
    "n + length xs \<le> u64_max"
  shows "ds = [] \<and> list_all (fits_schema sch) ps \<and> concat (map point_bytes ps) = xs \<and>
    rest_in (rd_stream r) = xs @ footer_bytes (n + length ps)"
  using assms
proof (induction k arbitrary: n xs r ps)
  case (Suc k)
  let ?s = "rd_stream r"
  have r: "ready_in ?s" "rd_schema r = sch" "recordSize r = record_size sch" "pointsRead r = n" "\<not> complete r"
    "in_pos ?s + length xs = dataEnd r"
    using Suc.prems(1) by (auto simp: reading_at_def)
  obtain ys where ys: "rest_in ?s = xs @ ys" "length ys = 16" using Suc.prems(1) by (auto simp: reading_at_def)
  have t: "tellg ?s = Some (in_pos ?s)" using r(1) by (simp add: tellg_def ready_in_def)
  note next_def = Reader_ReadNext_def Reader_IsComplete_def
  show ?case
  proof (cases "xs = []")
    case True
    then obtain m s' where m: "and_read (expect kFooter) (\<lambda>_. get_uint 8) ?s = (Some m, s')" "m = n" "ps = []" "ds = []"
      using Suc.prems(2,3) r t by (auto simp: next_def split: prod.splits option.splits if_splits)
    obtain zs where "rest_in ?s = footer_bytes n @ zs"
      using codec.sound [OF footer_codec r(1) m(1)] m(2) by auto
    then have "rest_in ?s = footer_bytes n"
      using ys True by (metis append_Nil append_eq_append_conv append_Nil2 footer_size(1))
    then show ?thesis using m True by simp
  next
    case False
    then have pos: "in_pos ?s < dataEnd r" using r(6) by (cases xs) auto
    have ge: "record_size sch \<le> dataEnd r - in_pos ?s"
      using Suc.prems(2,3) r t pos by (auto simp: next_def split: if_splits)
    obtain p s' where p: "read_point sch ?s = (Some p, s')"
      using Suc.prems(2,3) r t pos ge by (auto simp: next_def split: prod.splits option.splits)
    obtain zs where zs: "fits_schema sch p" "rest_in ?s = point_bytes p @ zs"
      using point_codec.sound [OF r(1) p] by auto
    have len: "length (point_bytes p) \<le> length xs" using ge r(6) point_size [OF zs(1)] by simp
    then obtain xs' where xs': "xs = point_bytes p @ xs'"
      using zs(2) ys(1) by (metis append_eq_append_conv_if append_take_drop_id)
    obtain r1 where r1: "Reader_ReadNext (Some r) = (Spool_Point p, Some r1)"
      "reading_at sch ((n + 1) mod (u64_max + 1)) xs' r1" "rest_in ?s = point_bytes p @ rest_in (rd_stream r1)"
      using reading_next [OF _ zs(1), of n xs' r] Suc.prems(1) xs' by blast
    have pos': "0 < length (point_bytes p)" using point_size [OF zs(1)] by (simp add: record_size_def)
    then have "n + 1 \<le> u64_max" using Suc.prems(4) unfolding xs' length_append by linarith
    then have m: "(n + 1) mod (u64_max + 1) = n + 1" by simp
    have le: "n + 1 + length xs' \<le> u64_max" using Suc.prems(4) pos' unfolding xs' length_append by linarith
    obtain qs where qs: "read_spool k (Some r1) = Some ((qs, ds), r')" "ps = p # qs"
      using Suc.prems(2) r1(1) by (auto split: option.splits prod.splits)
    have "ds = [] \<and> list_all (fits_schema sch) qs \<and> concat (map point_bytes qs) = xs' \<and>
       rest_in (rd_stream r1) = xs' @ footer_bytes (n + 1 + length qs)"
      by (rule Suc.IH [OF r1(2) [unfolded m] qs(1) Suc.prems(3)]) (use le in simp)
    then show ?thesis using qs(2) zs(1) xs' r1(3) by simp
  qed
qed simp

section \<open>Opening a spool\<close>

definition plain_in :: "u8 list \<Rightarrow> in_stream" where
  "plain_in bs = \<lparr>in_bytes = bs, in_pos = 0, in_fail = False, in_read_good = (\<lambda>_ _. True), in_seek_good = (\<lambda>_. True)\<rparr>"

lemma plain_in_ready: "ready_in (plain_in bs)" "rest_in (plain_in bs) = bs"
  by (simp_all add: plain_in_def ready_in_def rest_in_def)

lemma layout_accepts:
  assumes "ready_in s" "rest_in s = xs @ ys" "length ys = 16" "length xs mod record_size sch = 0"
  obtains r where "Reader_layout io sch s = (Inr (), r)" "reading_at sch 0 xs r" "rest_in (rd_stream r) = xs @ ys"
proof -
  have len: "length (in_bytes s) = in_pos s + length xs + 16" "in_pos s \<le> length (in_bytes s)"
  proof -
    show "in_pos s \<le> length (in_bytes s)" using assms(1) by (simp add: ready_in_def)
    moreover have "length (xs @ ys) = length (in_bytes s) - in_pos s" using assms(2) by (metis length_drop rest_in_def)
    ultimately show "length (in_bytes s) = in_pos s + length xs + 16" using assms(3) by simp
  qed
  let ?r = "(new_reader s)\<lparr>recordSize := record_size sch, rd_stats := io,
      rd_stream := s, rd_schema := sch, dataEnd := in_pos s + length xs, rd_stats := count_read (in_pos s) io\<rparr>"
  have e: "seek_in (in_pos s) (seek_in (length (in_bytes s)) s) = s"
    using assms(1) by (simp add: seek_in_def ready_in_def)
  have t: "tellg s = Some (in_pos s)" "tellg (seek_in (length (in_bytes s)) s) = Some (length (in_bytes s))"
    using assms(1) by (simp_all add: seek_in_def tellg_def ready_in_def)
  have "Reader_layout io sch s = (Inr (), ?r)"
    unfolding Reader_layout_def Let_def t e using assms(4) by (simp add: len(1) e [unfolded len(1)])
  moreover have "reading_at sch 0 xs ?r"
    using assms(1-3) by (simp add: reading_at_def new_reader_def)
  ultimately show ?thesis using that assms(2) by simp
qed

lemma layout_sound:
  assumes "ready_in s" "Reader_layout io sch s = (Inr u, r)"
  obtains xs ys where "rest_in s = xs @ ys" "length ys = 16" "length xs mod record_size sch = 0"
proof -
  have "tellg s = Some (in_pos s)" "tellg (seek_in (length (in_bytes s)) s) = Some (length (in_bytes s))"
    using assms(1) by (simp_all add: seek_in_def tellg_def ready_in_def)
  then have n: "16 \<le> length (rest_in s)" "(length (rest_in s) - 16) mod record_size sch = 0"
    using assms(2) by (auto simp: Reader_layout_def Let_def rest_in_def split: if_splits)
  show ?thesis
    by (rule that [of "take (length (rest_in s) - 16) (rest_in s)" "drop (length (rest_in s) - 16) (rest_in s)"])
      (use n in auto)
qed

lemma opened_accepts:
  assumes "readable_schema t sch" "tz t = tz t0" "bs = header_bytes t sch @ xs @ ys" "length ys = 16"
    "length xs mod record_size sch = 0"
  obtains r where "Reader_Open (Opened (plain_in bs)) path t0 io = (Inr (t, sch), Some r)"
    "reading_at sch 0 xs r" "rest_in (rd_stream r) = xs @ ys"
proof -
  let ?c = "(schema_version sch, coordinateSpace sch, level t, tx t, ty t, length (schema_attributes sch))"
  let ?raw = "map raw_of (schema_attributes sch)"
  have fits: "numbers_fit ?c" "list_all raw_fits ?raw"
    using assms(1) by (auto simp: readable_schema_def numbers_fit_def SpoolSchema_IsValid_def
        kPointSpoolSchemaVersion_def SourceAndStage_def list_all_iff raw_fits_def raw_of_def type_of_code(3))
  have bs: "rest_in (plain_in bs) = (kHeader @ numbers_bytes ?c) @ (concat (map raw_bytes ?raw) @ xs @ ys)"
    by (simp add: plain_in_ready assms(3) header_bytes_def)
  define s where "s = advance (length (kHeader @ numbers_bytes ?c)) (plain_in bs)"
  have n: "read_numbers (plain_in bs) = (Some ?c, s)"
    unfolding s_def by (rule numbers_codec.reads [OF plain_in_ready(1) fits(1) bs])
  have s: "ready_in s" "rest_in s = concat (map raw_bytes ?raw) @ xs @ ys"
    unfolding s_def by (rule ready_advance [OF plain_in_ready(1) bs], rule rest_advance [OF bs])
  define s' where "s' = advance (length (concat (map raw_bytes ?raw))) s"
  have m: "read_schema (length (schema_attributes sch)) s = (Some ?raw, s')"
    unfolding s'_def by (rule codec.reads [OF raw_schema_codec s(1) _ s(2)]) (use fits(2) in simp)
  have s': "ready_in s'" "rest_in s' = xs @ ys"
    unfolding s'_def by (rule ready_advance [OF s], rule rest_advance [OF s(2)])
  obtain r where r: "Reader_layout io sch s' = (Inr (), r)" "reading_at sch 0 xs r" "rest_in (rd_stream r) = xs @ ys"
    using layout_accepts [OF s' assms(4,5)] .
  have t: "tile_id (level t) (tx t) (ty t) (tz t0) = t" using assms(2) by (simp add: tile_id_def)
  have e: "\<lparr>schema_version = schema_version sch, coordinateSpace = coordinateSpace sch,
      schema_attributes = schema_attributes sch\<rparr> = sch" by simp
  have "schema_of ?raw = Some (schema_attributes sch)" by (simp add: schema_of_raw)
  then have "Reader_Open (Opened (plain_in bs)) path t0 io = (Inr (t, sch), Some r)"
    using assms(1) by (simp add: Reader_Open_def Let_def readable_schema_def n m r(1) t e)
  then show ?thesis using that r by blast
qed

lemma opened_sound:
  assumes "Reader_Open (Opened (plain_in bs)) path t0 io = (Inr (t, sch), R)"
  obtains xs ys where "readable_schema t sch" "tz t = tz t0" "bs = header_bytes t sch @ xs @ ys" "length ys = 16"
    "length xs mod record_size sch = 0"
proof -
  obtain w s where w: "read_numbers (plain_in bs) = (w, s)" by (cases "read_numbers (plain_in bs)")
  with assms have "w \<noteq> None" by (cases w) (auto simp: Reader_Open_def)
  with w obtain version space l x y n where n: "read_numbers (plain_in bs) = (Some (version, space, l, x, y, n), s)"
    by (cases w) auto
  obtain v s' where v: "read_schema n s = (v, s')" by (cases "read_schema n s")
  with assms have "v \<noteq> None" by (cases v) (auto simp: Reader_Open_def n)
  with v obtain raw where m: "read_schema n s = (Some raw, s')" by (cases v) auto
  have "schema_of raw \<noteq> None" using assms by (cases "schema_of raw") (auto simp: Reader_Open_def n m Let_def)
  then obtain as where as: "schema_of raw = Some as" by auto
  define sch1 where "sch1 = \<lparr>schema_version = version, coordinateSpace = space, schema_attributes = as\<rparr>"
  have opened: "Reader_Open (Opened (plain_in bs)) path t0 io =
     (if \<not> SpoolSchema_IsValid sch1 \<or> \<not> TileId_IsValid (tile_id l x y (tz t0))
      then (Inl [error_diag InvalidPointTile ''tile spool schema or tile id is invalid''], Some (new_reader s'))
      else (case Reader_layout io sch1 s' of
          (Inl ds, r) \<Rightarrow> (Inl ds, Some r) | (Inr _, r) \<Rightarrow> (Inr (tile_id l x y (tz t0), sch1), Some r)))"
    unfolding Reader_Open_def by (simp add: n m as Let_def flip: sch1_def)
  have valid: "SpoolSchema_IsValid sch1" "TileId_IsValid (tile_id l x y (tz t0))"
    using assms unfolding opened by (auto split: if_splits)
  obtain u r where lay1: "Reader_layout io sch1 s' = (u, r)" by (cases "Reader_layout io sch1 s'")
  have "sch = sch1" "t = tile_id l x y (tz t0)" and lay2: "\<not> isl u"
    using assms valid unfolding opened lay1 by (cases u; simp)+
  then have sch: "sch = \<lparr>schema_version = version, coordinateSpace = space, schema_attributes = as\<rparr>"
    "t = tile_id l x y (tz t0)" "SpoolSchema_IsValid sch" "TileId_IsValid t"
    and lay: "\<exists>u r. Reader_layout io sch s' = (Inr u, r)"
    using valid lay1 by (simp_all add: sch1_def) (cases u; simp)
  obtain zs where 1: "numbers_fit (version, space, l, x, y, n)" "ready_in s" "rest_in s = zs"
    "rest_in (plain_in bs) = (kHeader @ numbers_bytes (version, space, l, x, y, n)) @ zs"
    using numbers_codec.moves [OF plain_in_ready(1) n] by metis
  obtain zs' where 2: "length raw = n \<and> list_all raw_fits raw" "ready_in s'" "rest_in s' = zs'"
    "rest_in s = concat (map raw_bytes raw) @ zs'"
    using codec.moves [OF raw_schema_codec 1(2) m] by metis
  obtain xs ys where 3: "rest_in s' = xs @ ys" "length ys = 16" "length xs mod record_size sch = 0"
    using lay layout_sound [OF 2(2)] by metis
  have raw: "raw = map raw_of as" using as by (simp add: schema_of_raw)
  have A: "readable_schema t sch" "tz t = tz t0"
    using 1(1) 2(1) sch raw
    by (auto simp: readable_schema_def numbers_fit_def raw_fits_def raw_of_def list_all_iff tile_id_def)
  have B: "bs = (kHeader @ numbers_bytes (version, space, l, x, y, n)) @ concat (map raw_bytes raw) @ xs @ ys"
    using 1(3,4) 2(3,4) 3(1) plain_in_ready(2) by metis
  have "length as = n" using 2(1) raw by simp
  then have "header_bytes t sch = kHeader @ numbers_bytes (version, space, l, x, y, n) @ concat (map raw_bytes raw)"
    unfolding header_bytes_def sch(1,2) raw by (simp add: tile_id_def)
  then have "bs = header_bytes t sch @ xs @ ys" unfolding B by (simp only: append_assoc)
  then show ?thesis by (rule that [OF A _ 3(2,3)])
qed

section \<open>What the writer writes\<close>

definition ready_out :: "out_stream \<Rightarrow> bool" where
  "ready_out s \<longleftrightarrow> \<not> out_fail s \<and> (\<forall>p n. n \<le> device s p n) \<and> (\<forall>p. sync_good s p)"

definition written :: "u8 list \<Rightarrow> out_stream \<Rightarrow> out_stream" where
  "written bs s = s\<lparr>out_bytes := out_bytes s @ bs\<rparr>"

lemma written_simps [simp]:
  "ready_out (written bs s) = ready_out s" "out_bytes (written bs s) = out_bytes s @ bs"
  "written ys (written xs s) = written (xs @ ys) s" "written [] s = s"
  by (simp_all add: written_def ready_out_def)

definition writes :: "(out_stream \<Rightarrow> bool \<times> out_stream) \<Rightarrow> u8 list \<Rightarrow> bool" where
  "writes f bs \<longleftrightarrow> (\<forall>s. ready_out s \<longrightarrow> f s = (True, written bs s))"

named_theorems writing \<open>what the writing functions write\<close>

lemma writesD: "writes f bs \<Longrightarrow> ready_out s \<Longrightarrow> f s = (True, written bs s)"
  by (simp add: writes_def)

lemma writes_out [writing]: "writes (write_out bs) bs"
  by (auto simp: writes_def write_out_def ready_out_def written_def Let_def)

lemma writes_flush [writing]: "writes flush_out []"
  by (auto simp: writes_def flush_out_def ready_out_def)

lemma writes_and [writing]: "writes f xs \<Longrightarrow> writes g ys \<Longrightarrow> writes (and_write f g) (xs @ ys)"
  by (simp add: writes_def and_write_def)

lemma writes_all: "list_all2 writes fs bss \<Longrightarrow> writes (write_all fs) (concat bss)"
proof (induction fs bss rule: list_all2_induct)
  case Nil
  show ?case by (simp add: writes_def)
next
  case (Cons f fs bs bss)
  show ?case using writes_and [OF Cons.hyps(1) Cons.IH] by (simp add: writes_def and_write_def)
qed

lemma writes_numbers:
  "writes (write_numbers t sch) (numbers_bytes (schema_version sch, coordinateSpace sch, level t, tx t, ty t,
     length (schema_attributes sch)))"
proof -
  have "list_all2 writes (map write_out bss) bss" for bss
    by (induction bss) (simp_all add: writes_out)
  from writes_all [OF this [of "[uint_bytes 4 (schema_version sch), uint_bytes 1 (coordinateSpace sch),
      sint_bytes 4 (level t), sint_bytes 8 (tx t), sint_bytes 8 (ty t), uint_bytes 4 (length (schema_attributes sch))]"]]
  show ?thesis by (simp add: write_numbers_def numbers_bytes_def)
qed

lemma writes_attribute:
  assumes "length (attr_name a) \<le> 4294967295"
  shows "writes (write_attribute a) (raw_bytes (raw_of a))"
proof -
  have "writes (WriteString (attr_name a)) (string_bytes (attr_name a))"
    using assms writes_and [OF writes_out writes_out] by (simp add: WriteString_def string_bytes_def)
  from writes_and [OF this writes_out] show ?thesis
    by (simp add: write_attribute_def raw_bytes_def raw_of_def)
qed

lemma writes_attributes:
  assumes "list_all (\<lambda>a. length (attr_name a) \<le> 4294967295) as"
  shows "writes (write_all (map write_attribute as)) (concat (map raw_bytes (map raw_of as)))"
proof (rule writes_all)
  show "list_all2 writes (map write_attribute as) (map raw_bytes (map raw_of as))"
    using assms by (induction as) (simp_all add: writes_attribute)
qed

lemma write_point_ready:
  assumes "ready_out s" "fits_schema sch p"
  shows "write_point sch p s = ([], written (point_bytes p) s)"
proof -
  have "list_all2 (\<lambda>a. holds (attr_type a)) as vs \<Longrightarrow>
      list_all2 writes (map2 (\<lambda>a v. WriteAttribute (attr_type a) v) as vs) (map value_bytes vs)" for as vs
    by (induction as vs rule: list_all2_induct) (simp_all add: WriteAttribute_def holds_def writes_out)
  then have v: "writes (write_all (map2 (\<lambda>a v. WriteAttribute (attr_type a) v) (schema_attributes sch) (sp_attributes p)))
      (values_bytes (sp_attributes p))"
    unfolding values_bytes_def by (intro writes_all) (use assms(2) in \<open>simp add: fits_schema_def\<close>)
  have f: "and_write (write_out (vec_bytes (sp_sourcePosition p))) (write_out (vec_bytes (sp_stagePosition p))) s =
      (True, written (vec_bytes (sp_sourcePosition p) @ vec_bytes (sp_stagePosition p)) s)"
    by (rule writesD [OF writes_and [OF writes_out writes_out] assms(1)])
  show ?thesis
    unfolding write_point_def f using writesD [OF v] assms(1) by (simp add: point_bytes_def)
qed

lemma write_points_ready:
  assumes "ready_out s" "list_all (fits_schema sch) ps" "n + length ps \<le> u64_max"
  shows "write_points sch ps n s = ([], n + length ps, written (concat (map point_bytes ps)) s)"
  using assms by (induction ps arbitrary: n s) (simp_all add: write_point_ready)

definition writer_at :: "PointTileId \<Rightarrow> SpoolSchema \<Rightarrow> nat \<Rightarrow> SpoolPoint list \<Rightarrow> SpoolPoint list \<Rightarrow> TileSpoolWriter \<Rightarrow> bool" where
  \<comment> \<open>the points \<open>qs\<close> are in the file, the points \<open>rs\<close> in the buffer\<close>
  "writer_at t sch limit qs rs w \<longleftrightarrow> wr_open w \<and> wr_schema w = sch \<and> memoryLimit w = limit \<and> ready_out (wr_stream w) \<and>
     wr_points w = rs \<and> wr_pointCount w = length qs \<and>
     out_bytes (wr_stream w) = header_bytes t sch @ concat (map point_bytes qs)"

lemma flush_at:
  assumes "writer_at t sch limit qs rs w" "list_all (fits_schema sch) rs" "length qs + length rs \<le> u64_max"
  obtains w' where "Writer_Flush (Some w) = ((True, []), Some w')" "writer_at t sch limit (qs @ rs) [] w'" "buffered w' = 0"
proof -
  let ?s = "wr_stream w" and ?bs = "concat (map point_bytes rs)"
  have w: "wr_open w" "wr_schema w = sch" "ready_out ?s" "wr_points w = rs" "wr_pointCount w = length qs"
    using assms(1) by (simp_all add: writer_at_def)
  have p: "write_points sch rs (length qs) ?s = ([], length qs + length rs, written ?bs ?s)"
    by (rule write_points_ready [OF w(3) assms(2,3)])
  have f: "flush_out (written ?bs ?s) = (True, written ?bs ?s)"
    using writesD [OF writes_flush, of "written ?bs ?s"] w(3) by simp
  let ?w = "w\<lparr>wr_pointCount := length qs + length rs, wr_points := [], buffered := 0, wr_stream := written ?bs ?s,
      wr_stats := written_since (tellp ?s) (written ?bs ?s) (wr_stats w)\<rparr>"
  have "Writer_Flush (Some w) = ((True, []), Some ?w)"
    by (simp add: Writer_Flush_def w(1,2,4,5) p f Let_def)
  moreover have "writer_at t sch limit (qs @ rs) [] ?w" using assms(1) by (simp add: writer_at_def)
  ultimately show ?thesis using that by simp
qed

lemma append_at:
  assumes "writer_at t sch limit qs rs w" "list_all (fits_schema sch) (rs @ [p])" "length qs + length rs < u64_max" "0 < limit"
  obtains w' qs' rs' where "Writer_Append p (Some w) = ((True, []), Some w')" "writer_at t sch limit qs' rs' w'"
    "buffered w' < limit" "qs' @ rs' = qs @ rs @ [p]"
proof -
  let ?w = "w\<lparr>buffered := (buffered w + record_size sch) mod (u64_max + 1), wr_points := wr_points w @ [p]\<rparr>"
  have w: "wr_open w" "wr_schema w = sch" "memoryLimit w = limit" using assms(1) by (simp_all add: writer_at_def)
  have match: "list_all2 (\<lambda>a. holds (attr_type a)) (schema_attributes sch) (sp_attributes p)"
    using assms(2) by (simp add: fits_schema_def)
  then have "length (sp_attributes p) = length (schema_attributes sch)" by (simp add: list_all2_lengthD)
  moreover have "\<not> list_ex (\<lambda>(v, a). value_index v \<noteq> type_code (attr_type a)) (zip (sp_attributes p) (schema_attributes sch))"
    using match by (induction rule: list_all2_induct) (simp_all add: holds_def)
  ultimately have a: "Writer_Append p (Some w) =
      (if limit \<le> buffered ?w then Writer_Flush (Some ?w) else ((True, []), Some ?w))"
    by (simp add: Writer_Append_def w Let_def)
  have at: "writer_at t sch limit qs (rs @ [p]) ?w" using assms(1) by (simp add: writer_at_def)
  show ?thesis
  proof (cases "limit \<le> buffered ?w")
    case True
    obtain w' where "Writer_Flush (Some ?w) = ((True, []), Some w')" "writer_at t sch limit (qs @ rs @ [p]) [] w'" "buffered w' = 0"
      by (rule flush_at [OF at assms(2)]) (use assms(3) in auto)
    then show ?thesis using that a True assms(4) by simp
  next
    case False
    then show ?thesis using that [OF _ at] a by simp
  qed
qed

lemma close_at:
  assumes "writer_at t sch limit qs rs w" "list_all (fits_schema sch) rs" "length qs + length rs \<le> u64_max"
  obtains w' where "Writer_Close (Some w) = ((True, []), Some w')" "\<not> wr_open w'"
    "out_bytes (wr_stream w') = spool_bytes t sch (qs @ rs)"
proof -
  obtain w1 where w1: "Writer_Flush (Some w) = ((True, []), Some w1)" "writer_at t sch limit (qs @ rs) [] w1"
    by (rule flush_at [OF assms])
  let ?s = "wr_stream w1" and ?n = "length (qs @ rs)"
  have r: "ready_out ?s" "wr_pointCount w1 = ?n" using w1(2) by (simp_all add: writer_at_def)
  have "and_write (and_write (write_out kFooter) (write_out (uint_bytes 8 ?n))) flush_out ?s = (True, written (footer_bytes ?n) ?s)"
    using writesD [OF writes_and [OF writes_and [OF writes_out writes_out] writes_flush] r(1)]
    by (simp add: footer_bytes_def)
  then have "Writer_Close (Some w) = ((True, []), Some (w1\<lparr>wr_stream := written (footer_bytes ?n) ?s,
      wr_stats := written_since (tellp ?s) (written (footer_bytes ?n) ?s) (wr_stats w1), wr_open := False\<rparr>))"
    using assms(1) w1(1) r(2) by (simp add: Writer_Close_def writer_at_def Let_def)
  then show ?thesis using that w1(2) by (simp add: writer_at_def spool_bytes_def)
qed

section \<open>Writing and reading a whole spool\<close>

definition plain_out :: out_stream where
  "plain_out = \<lparr>out_bytes = [], out_fail = False, device = (\<lambda>_ n. n), sync_good = (\<lambda>_. True)\<rparr>"

fun append_all :: "SpoolPoint list \<Rightarrow> TileSpoolWriter option \<Rightarrow> TileSpoolWriter option option" where
  "append_all [] w = Some w"
| "append_all (p # ps) w = (case Writer_Append p w of ((True, _), w') \<Rightarrow> append_all ps w' | ((False, _), _) \<Rightarrow> None)"

definition spool_writer :: "string \<Rightarrow> PointTileId \<Rightarrow> SpoolSchema \<Rightarrow> nat \<Rightarrow> SpoolPoint list \<Rightarrow> TileSpoolWriter option option" where
  \<comment> \<open>the writer after opening and appending\<close>
  "spool_writer path t sch limit ps =
     (case Writer_Open (Opened plain_out) path t sch limit None None of
        ((True, _), w) \<Rightarrow> append_all ps w | ((False, _), _) \<Rightarrow> None)"

definition spool_file :: "string \<Rightarrow> PointTileId \<Rightarrow> SpoolSchema \<Rightarrow> nat \<Rightarrow> SpoolPoint list \<Rightarrow> u8 list option" where
  \<comment> \<open>the bytes of the file after closing\<close>
  "spool_file path t sch limit ps =
     (case spool_writer path t sch limit ps of
        None \<Rightarrow> None
      | Some w \<Rightarrow> (case Writer_Close w of ((True, _), Some w') \<Rightarrow> Some (out_bytes (wr_stream w')) | _ \<Rightarrow> None))"

lemma append_all_at:
  assumes "writer_at t sch limit qs rs w" "buffered w < limit" "list_all (fits_schema sch) (qs @ rs @ ps)"
    "length qs + length rs + length ps \<le> u64_max"
  shows "\<exists>w' qs' rs'. append_all ps (Some w) = Some (Some w') \<and> writer_at t sch limit qs' rs' w' \<and>
    buffered w' < limit \<and> qs' @ rs' = qs @ rs @ ps"
  using assms
proof (induction ps arbitrary: w qs rs)
  case Nil
  then show ?case by auto
next
  case (Cons p ps)
  have "list_all (fits_schema sch) (rs @ [p])" "length qs + length rs < u64_max" "0 < limit"
    using Cons.prems(2-4) by simp_all
  then obtain w1 qs1 rs1 where 1: "Writer_Append p (Some w) = ((True, []), Some w1)" "writer_at t sch limit qs1 rs1 w1"
    "buffered w1 < limit" "qs1 @ rs1 = qs @ rs @ [p]"
    using append_at [OF Cons.prems(1)] by metis
  have len: "length qs1 + length rs1 = length qs + length rs + 1" using arg_cong [OF 1(4), of length] by simp
  have eq: "qs1 @ rs1 @ ps = qs @ rs @ p # ps" using arg_cong [OF 1(4), of "\<lambda>xs. xs @ ps"] by simp
  have "\<exists>w' qs' rs'. append_all ps (Some w1) = Some (Some w') \<and> writer_at t sch limit qs' rs' w' \<and>
    buffered w' < limit \<and> qs' @ rs' = qs1 @ rs1 @ ps"
    by (rule Cons.IH [OF 1(2,3) Cons.prems(3) [folded eq]]) (use Cons.prems(4) len in simp)
  then show ?case using 1(1) eq by simp
qed

lemma spool_writer_at:
  assumes "SpoolSchema_IsValid sch" "TileId_IsValid t" "0 < limit"
    "list_all (\<lambda>a. length (attr_name a) \<le> 4294967295) (schema_attributes sch)"
    "list_all (fits_schema sch) ps" "length ps \<le> u64_max"
  obtains w qs rs where "spool_writer path t sch limit ps = Some (Some w)" "writer_at t sch limit qs rs w"
    "buffered w < limit" "qs @ rs = ps"
proof -
  have h: "write_out kHeader plain_out = (True, written kHeader plain_out)" and r: "ready_out plain_out"
    using writesD [OF writes_out] by (simp_all add: ready_out_def plain_out_def)
  let ?s = "written (header_bytes t sch) plain_out"
  have n: "write_numbers t sch (written kHeader plain_out) = (True, written (kHeader @ numbers_bytes (schema_version sch,
      coordinateSpace sch, level t, tx t, ty t, length (schema_attributes sch))) plain_out)"
    using writesD [OF writes_numbers] r by simp
  have a: "write_all (map write_attribute (schema_attributes sch)) (written (kHeader @ numbers_bytes (schema_version sch,
      coordinateSpace sch, level t, tx t, ty t, length (schema_attributes sch))) plain_out) = (True, ?s)"
    using writesD [OF writes_attributes [OF assms(4)]] r by (simp add: header_bytes_def)
  have t: "tellp ?s = Some (length (header_bytes t sch))"
    using r by (simp add: tellp_def written_def plain_out_def)
  obtain w0 where w0: "Writer_Open (Opened plain_out) path t sch limit None None = ((True, []), Some w0)"
    "writer_at t sch limit [] [] w0" "buffered w0 = 0"
  proof (rule that)
    let ?w = "\<lparr>wr_stream = ?s, wr_schema = sch, memoryLimit = limit, buffered = 0, wr_pointCount = 0, wr_points = [],
       wr_stats = None, wr_open = True\<rparr>"
    show "Writer_Open (Opened plain_out) path t sch limit None None = ((True, []), Some ?w)"
      using assms(1-3) by (simp add: Writer_Open_def h n a t Let_def count_written_def)
    show "writer_at t sch limit [] [] ?w" using r by (simp add: writer_at_def) (simp add: plain_out_def)
  qed simp
  have "\<exists>w qs rs. append_all ps (Some w0) = Some (Some w) \<and> writer_at t sch limit qs rs w \<and>
    buffered w < limit \<and> qs @ rs = [] @ [] @ ps"
    by (rule append_all_at [OF w0(2)]) (use assms(3,5,6) w0(3) in simp_all)
  then show ?thesis using that w0(1) by (auto simp: spool_writer_def)
qed

lemma spool_file_bytes:
  assumes "SpoolSchema_IsValid sch" "TileId_IsValid t" "0 < limit"
    "list_all (\<lambda>a. length (attr_name a) \<le> 4294967295) (schema_attributes sch)"
    "list_all (fits_schema sch) ps" "length ps \<le> u64_max"
  shows "spool_file path t sch limit ps = Some (spool_bytes t sch ps)"
proof -
  obtain w qs rs where w: "spool_writer path t sch limit ps = Some (Some w)" "writer_at t sch limit qs rs w" "qs @ rs = ps"
    using spool_writer_at [OF assms] by metis
  have "list_all (fits_schema sch) rs" "length qs + length rs \<le> u64_max" using assms(5,6) w(3) by auto
  then obtain w' where "Writer_Close (Some w) = ((True, []), Some w')" "out_bytes (wr_stream w') = spool_bytes t sch (qs @ rs)"
    using close_at [OF w(2)] by metis
  then show ?thesis using w(1,3) by (simp add: spool_file_def)
qed

lemma spool_read_back:
  assumes "readable_schema t sch" "tz t = tz t0" "list_all (fits_schema sch) ps" "length ps \<le> u64_max"
  obtains r r' where "Reader_Open (Opened (plain_in (spool_bytes t sch ps))) path t0 io = (Inr (t, sch), Some r)"
    "read_spool (Suc (length ps)) (Some r) = Some ((ps, []), r')" "Reader_IsComplete r'"
proof -
  have "length (concat (map point_bytes ps)) mod record_size sch = 0" by (simp add: points_size [OF assms(3)])
  then obtain r where r: "Reader_Open (Opened (plain_in (spool_bytes t sch ps))) path t0 io = (Inr (t, sch), Some r)"
    "reading_at sch 0 (concat (map point_bytes ps)) r"
    "rest_in (rd_stream r) = concat (map point_bytes ps) @ footer_bytes (length ps)"
    using opened_accepts [OF assms(1,2) spool_bytes_def footer_size(1)] by metis
  then show ?thesis
    using read_spool_delivers [OF r(2) assms(3)] assms(4) that by auto
qed

section \<open>Properties\<close>

text \<open>
  Claim C36: a spool file is complete for the reader exactly when it is the file of some points.  For a
  file of any bytes (of a length a file can have), opening succeeds with a tile and a schema and
  reading ends with the points \<open>ps\<close> and the reader complete if and only if the tile and schema are
  valid and within the reader's limits, the points have the attributes of the schema, and the bytes
  are those of the header, the points and the footer with their number; then nothing is reported.  So
  a file that was cut short, altered in its header or left without its footer is never complete
  unless it is byte for byte the file of other points, and reading every written file ends.
\<close>
theorem spool_complete_iff:
  assumes "length bs \<le> stream_max"
  shows "(\<exists>r r' k. Reader_Open (Opened (plain_in bs)) path t0 io = (Inr (t, sch), r) \<and>
      read_spool k r = Some ((ps, ds), r') \<and> Reader_IsComplete r') \<longleftrightarrow>
    readable_schema t sch \<and> tz t = tz t0 \<and> list_all (fits_schema sch) ps \<and> ds = [] \<and> bs = spool_bytes t sch ps"
proof
  assume "\<exists>r r' k. Reader_Open (Opened (plain_in bs)) path t0 io = (Inr (t, sch), r) \<and>
      read_spool k r = Some ((ps, ds), r') \<and> Reader_IsComplete r'"
  then obtain r r' k where r: "Reader_Open (Opened (plain_in bs)) path t0 io = (Inr (t, sch), r)"
    "read_spool k r = Some ((ps, ds), r')" "Reader_IsComplete r'" by auto
  obtain xs ys where o: "readable_schema t sch" "tz t = tz t0" "bs = header_bytes t sch @ xs @ ys" "length ys = 16"
    "length xs mod record_size sch = 0"
    using opened_sound [OF r(1)] .
  obtain r1 where r1: "r = Some r1" "reading_at sch 0 xs r1" "rest_in (rd_stream r1) = xs @ ys"
    using opened_accepts [OF o, of path io] r(1) by auto
  have "0 + length xs \<le> u64_max" using assms o(3) by simp
  then have "ds = [] \<and> list_all (fits_schema sch) ps \<and> concat (map point_bytes ps) = xs \<and>
      rest_in (rd_stream r1) = xs @ footer_bytes (0 + length ps)"
    using read_spool_sound [OF r1(2) r(2) [unfolded r1(1)] r(3)] by blast
  then show "readable_schema t sch \<and> tz t = tz t0 \<and> list_all (fits_schema sch) ps \<and> ds = [] \<and> bs = spool_bytes t sch ps"
    using o(1-3) r1(3) by (simp add: spool_bytes_def)
next
  assume a: "readable_schema t sch \<and> tz t = tz t0 \<and> list_all (fits_schema sch) ps \<and> ds = [] \<and> bs = spool_bytes t sch ps"
  have "length ps \<le> length (concat (map point_bytes ps))"
    using a points_size [of sch ps] by (simp add: record_size_def)
  also have "\<dots> \<le> length bs" using a by (simp add: spool_bytes_def)
  finally have "length ps \<le> u64_max" using assms by simp
  then show "\<exists>r r' k. Reader_Open (Opened (plain_in bs)) path t0 io = (Inr (t, sch), r) \<and>
      read_spool k r = Some ((ps, ds), r') \<and> Reader_IsComplete r'"
    using a spool_read_back [of t sch t0 ps path io] by metis
qed

text \<open>
  Claim C37: what is appended to a spool is read back.  On a device that takes every byte, a writer
  opened with a valid tile, a schema within the reader's limits and any positive memory limit accepts
  every point with the attributes of the schema, never holds the limit or more in its buffer after an
  append, and closes a file from which the reader delivers the tile, the schema and exactly the
  appended points in their order, and completes without a report.
\<close>
theorem spool_roundtrip:
  assumes "readable_schema t sch" "tz t = tz t0" "0 < limit" "list_all (fits_schema sch) ps" "length ps \<le> u64_max"
  shows "(\<forall>n. \<exists>w. spool_writer path t sch limit (take n ps) = Some w \<and> Writer_BufferedBytes w < limit) \<and>
    (\<exists>bs r r'. spool_file path t sch limit ps = Some bs \<and>
      Reader_Open (Opened (plain_in bs)) path t0 io = (Inr (t, sch), r) \<and>
      read_spool (Suc (length ps)) r = Some ((ps, []), r') \<and> Reader_IsComplete r')"
proof (intro conjI allI)
  have sch: "SpoolSchema_IsValid sch" "TileId_IsValid t" "list_all (\<lambda>a. length (attr_name a) \<le> 4294967295) (schema_attributes sch)"
    using assms(1) by (auto simp: readable_schema_def list_all_iff)
  show "\<exists>w. spool_writer path t sch limit (take n ps) = Some w \<and> Writer_BufferedBytes w < limit" for n
  proof -
    have "list_all (fits_schema sch) (take n ps)" "length (take n ps) \<le> u64_max"
      using assms(4,5) set_take_subset [of n ps] by (auto simp: list_all_iff)
    from spool_writer_at [OF sch(1,2) assms(3) sch(3) this] show ?thesis
      by (metis Writer_BufferedBytes_def option.simps(5))
  qed
  show "\<exists>bs r r'. spool_file path t sch limit ps = Some bs \<and>
      Reader_Open (Opened (plain_in bs)) path t0 io = (Inr (t, sch), r) \<and>
      read_spool (Suc (length ps)) r = Some ((ps, []), r') \<and> Reader_IsComplete r'"
    using spool_file_bytes [OF sch(1,2) assms(3) sch(3) assms(4,5)] spool_read_back [OF assms(1,2,4,5), of path io] by metis
qed

section \<open>Examples\<close>

definition sample_spool_schema :: SpoolSchema where
  "sample_spool_schema = new_schema\<lparr>schema_attributes := [attribute ''i'' UInt16]\<rparr>"

definition sample_spool_point :: SpoolPoint where
  "sample_spool_point = \<lparr>sp_sourcePosition = (1, 2, 3), sp_stagePosition = (4, 5, 6), sp_attributes = [V_UInt16 7]\<rparr>"

lemma sample_spool:
  "readable_schema (tile_id 1 (- 2) 3 0) sample_spool_schema" "fits_schema sample_spool_schema sample_spool_point"
  by (simp_all add: readable_schema_def sample_spool_schema_def new_schema_def sample_spool_point_def fits_schema_def
      holds_def value_index_def type_code_def attribute_def tile_id_def TileId_IsValid_def in_i32_def in_i64_def
      SpoolSchema_IsValid_def kPointSpoolSchemaVersion_def SourceAndStage_def PointAttribute_IsValid_def)

lemma sample_spool_length:
  "length (spool_bytes (tile_id 1 (- 2) 3 0) sample_spool_schema [sample_spool_point]) \<le> stream_max"
  using points_size [of sample_spool_schema "[sample_spool_point]"] sample_spool(2)
  by (simp add: spool_bytes_def header_bytes_def kHeader_def numbers_bytes_def uint_bytes_def sint_bytes_def
      raw_bytes_def raw_of_def string_bytes_def sample_spool_schema_def new_schema_def attribute_def record_size_def)

theorem spool_complete_iff_witness:
  "\<exists>r r' k. Reader_Open (Opened (plain_in (spool_bytes (tile_id 1 (- 2) 3 0) sample_spool_schema [sample_spool_point])))
      ''a'' (tile_id 0 0 0 0) None = (Inr (tile_id 1 (- 2) 3 0, sample_spool_schema), r) \<and>
    read_spool k r = Some (([sample_spool_point], []), r') \<and> Reader_IsComplete r'"
  using spool_complete_iff [OF sample_spool_length, of "''a''" "tile_id 0 0 0 0" None "tile_id 1 (- 2) 3 0"
      sample_spool_schema "[sample_spool_point]" "[]"] sample_spool by (simp add: tile_id_def)

theorem spool_roundtrip_witness:
  "\<exists>bs r r'. spool_file ''a'' (tile_id 1 (- 2) 3 0) sample_spool_schema 60 [sample_spool_point, sample_spool_point] = Some bs \<and>
    Reader_Open (Opened (plain_in bs)) ''a'' (tile_id 0 0 0 0) None = (Inr (tile_id 1 (- 2) 3 0, sample_spool_schema), r) \<and>
    read_spool 3 r = Some (([sample_spool_point, sample_spool_point], []), r') \<and> Reader_IsComplete r'"
  using spool_roundtrip [of "tile_id 1 (- 2) 3 0" sample_spool_schema "tile_id 0 0 0 0" 60
      "[sample_spool_point, sample_spool_point]" "''a''" None] sample_spool
  by (simp add: tile_id_def numeral_3_eq_3)

end
