(* ===== verification/Geo_Cache.thy ===== *)
theory Geo_Cache
  imports Byte_Codec "HOL-Library.Sublist"
begin

text \<open>
  The generated-output cache (\<^verbatim>\<open>usd-geo-cache\<close>, \<^verbatim>\<open>Cache.h\<close> and \<^verbatim>\<open>Cache.cpp\<close>): identities of
  sources, descriptors of what was generated, the two-level layout of entries in a cache root, the
  inspection of an entry with its statistics, the search for a superseded entry and the
  invalidation.  A path is the list of its components.  The file system is the association of its
  paths with the kinds of their nodes, and says which of its operations fail.

  The lemmas show which descriptors share a generation directory, what invalidation leaves behind
  and when a revised source is recognised.
\<close>

section \<open>Paths and the file system\<close>

type_synonym path = "string list"

datatype node = Regular | Directory | Other_node

record file_system =
  nodes :: "(path \<times> node) list"
  status_fails :: "path \<Rightarrow> bool"
  list_fails :: "path \<Rightarrow> nat option" \<comment> \<open>the number of entries before a listing ends with an error\<close>
  remove_fails :: "path \<Rightarrow> bool"
  remove_leaves :: "path \<Rightarrow> path \<Rightarrow> bool"

definition node_at :: "file_system \<Rightarrow> path \<Rightarrow> node option" where
  "node_at fs p = map_of (nodes fs) p"

definition list_directory :: "file_system \<Rightarrow> path \<Rightarrow> string list option" where
  \<comment> \<open>the names a \<^verbatim>\<open>directory_iterator\<close> yields, None when it cannot be opened; an error of
    \<^verbatim>\<open>increment\<close> leaves the iterator at the end, after the names it has yielded\<close>
  "list_directory fs dir =
     (if list_fails fs dir = Some 0 \<or> node_at fs dir \<noteq> Some Directory then None
      else let names = [last p. (p, _) \<leftarrow> nodes fs, p \<noteq> [] \<and> butlast p = dir]
        in Some (case list_fails fs dir of None \<Rightarrow> names | Some n \<Rightarrow> take n names))"

definition keep_nodes :: "(path \<Rightarrow> bool) \<Rightarrow> file_system \<Rightarrow> file_system" where
  "keep_nodes P fs = fs\<lparr>nodes := filter (\<lambda>n. P (fst n)) (nodes fs)\<rparr>"

definition remove_all :: "path \<Rightarrow> file_system \<Rightarrow> bool \<times> file_system" where
  \<comment> \<open>whether there was an error; a failed removal may leave part of the tree\<close>
  "remove_all p fs =
     (if remove_fails fs p then (True, keep_nodes (\<lambda>q. \<not> prefix p q \<or> remove_leaves fs p q) fs)
      else (False, keep_nodes (\<lambda>q. \<not> prefix p q) fs))"

definition remove_one :: "path \<Rightarrow> file_system \<Rightarrow> file_system" where
  \<comment> \<open>\<^verbatim>\<open>std::filesystem::remove\<close>, its error ignored: a directory goes only when it is empty\<close>
  "remove_one p fs =
     (if remove_fails fs p \<or> list_ex (\<lambda>n. strict_prefix p (fst n)) (nodes fs) then fs
      else keep_nodes (\<lambda>q. q \<noteq> p) fs)"

section \<open>Names and decisions\<close>

datatype LookupStatus = InvalidLayout | Missing | Incomplete | Hit

datatype ResolverIdentityStability = Stable | Unstable | Unavailable

datatype CacheDecision =
  IdentityUnavailable | IdentityUnstable | IdentityStable | IdentityChanged | ReuseDisabled | Cache_Hit | Invalidated

fun LookupStatusName :: "LookupStatus \<Rightarrow> string" where
  "LookupStatusName InvalidLayout = ''invalid-layout''"
| "LookupStatusName Missing = ''missing''"
| "LookupStatusName Incomplete = ''incomplete''"
| "LookupStatusName Hit = ''hit''"

fun ResolverIdentityStabilityName :: "ResolverIdentityStability \<Rightarrow> string" where
  "ResolverIdentityStabilityName Stable = ''stable''"
| "ResolverIdentityStabilityName Unstable = ''unstable''"
| "ResolverIdentityStabilityName Unavailable = ''unavailable''"

fun CacheDecisionName :: "CacheDecision \<Rightarrow> string" where
  "CacheDecisionName IdentityUnavailable = ''resolver-identity-unavailable''"
| "CacheDecisionName IdentityUnstable = ''resolver-identity-unstable''"
| "CacheDecisionName IdentityStable = ''resolver-identity-stable''"
| "CacheDecisionName IdentityChanged = ''resolver-identity-changed''"
| "CacheDecisionName ReuseDisabled = ''generated-cache-reuse-disabled''"
| "CacheDecisionName Cache_Hit = ''generated-cache-hit''"
| "CacheDecisionName Invalidated = ''generated-cache-invalidated''"

fun CacheDecisionMessage :: "CacheDecision \<Rightarrow> string" where
  "CacheDecisionMessage IdentityUnavailable =
     ''Source identity unavailable: the active resolver exposed no usable identity metadata.''"
| "CacheDecisionMessage IdentityUnstable =
     ''Source identity unstable: the active resolver identified the source but could not guarantee its freshness.''"
| "CacheDecisionMessage IdentityStable = ''Source identity stable: generated cache reuse is permitted.''"
| "CacheDecisionMessage IdentityChanged =
     ''Source identity changed: a generated entry exists for a different source validation identity, so output is regenerated.''"
| "CacheDecisionMessage ReuseDisabled =
     ''Generated cache reuse disabled: the active resolver did not provide a stable source validation identity.''"
| "CacheDecisionMessage Cache_Hit = ''Generated cache hit: the committed entry matched and was reused.''"
| "CacheDecisionMessage Invalidated =
     ''Generated cache invalidated: the committed entry did not validate and was removed.''"

fun IdentityDecision :: "ResolverIdentityStability \<Rightarrow> CacheDecision" where
  "IdentityDecision Stable = IdentityStable"
| "IdentityDecision Unstable = IdentityUnstable"
| "IdentityDecision Unavailable = IdentityUnavailable"

section \<open>Statistics\<close>

record LookupStatistics =
  lookups :: nat
  hits :: nat
  misses :: nat
  incomplete :: nat
  invalidLayouts :: nat

definition no_lookups :: LookupStatistics where
  "no_lookups = \<lparr>lookups = 0, hits = 0, misses = 0, incomplete = 0, invalidLayouts = 0\<rparr>"

definition count_up :: "nat \<Rightarrow> nat" where
  "count_up n = (n + 1) mod (u64_max + 1)"

definition RecordLookup :: "LookupStatus \<Rightarrow> LookupStatistics \<Rightarrow> LookupStatistics" where
  "RecordLookup status st =
     (let st' = st\<lparr>lookups := count_up (lookups st)\<rparr> in
      case status of
        Hit \<Rightarrow> st'\<lparr>hits := count_up (hits st')\<rparr>
      | Missing \<Rightarrow> st'\<lparr>misses := count_up (misses st')\<rparr>
      | Incomplete \<Rightarrow> st'\<lparr>incomplete := count_up (incomplete st')\<rparr>
      | InvalidLayout \<Rightarrow> st'\<lparr>invalidLayouts := count_up (invalidLayouts st')\<rparr>)"

definition ResetLookupStatistics :: "LookupStatistics \<Rightarrow> LookupStatistics" where
  "ResetLookupStatistics _ = no_lookups"

definition HitRatio :: "LookupStatistics \<Rightarrow> fl" where
  "HitRatio st = (if lookups st = 0 then fzero
     else fdiv binary64 (fof_int binary64 (int (hits st))) (fof_int binary64 (int (lookups st))))"

section \<open>Identities\<close>

definition HasArgumentsWithEmptyNames :: "CacheArguments \<Rightarrow> bool" where
  "HasArgumentsWithEmptyNames arguments = list_ex (\<lambda>(name, _). list_all is_cache_space name) arguments"

definition HasNonWhitespace :: "string \<Rightarrow> bool" where
  "HasNonWhitespace v = list_ex (\<lambda>c. \<not> is_cache_space c) v"

record ResolverAssetIdentity =
  resolvedIdentifier :: string
  asset_sizeBytes :: nat
  asset_validationToken :: string

record SourceIdentity =
  source_id :: string
  sizeBytes :: nat
  modifiedTime :: int
  validationToken :: string
  canonicalPath :: string
  contentIdentity :: string

definition no_identity :: SourceIdentity where
  "no_identity = \<lparr>source_id = [], sizeBytes = 0, modifiedTime = 0, validationToken = [], canonicalPath = [], contentIdentity = []\<rparr>"

definition SourceIdentity_IsValid :: "SourceIdentity \<Rightarrow> bool" where
  "SourceIdentity_IsValid s \<longleftrightarrow> (source_id s \<noteq> [] \<or> canonicalPath s \<noteq> []) \<and>
     (validationToken s \<noteq> [] \<or> contentIdentity s \<noteq> [])"

record local_input =
  canonical :: "string + string"
  input_size :: "string + nat"
  input_time :: "string + int"
  input_opens :: bool
  input_bytes :: "u8 list"
  input_ends :: bool

definition content_token :: "u8 list \<Rightarrow> string" where
  "content_token bs = ''fnv1a64:'' @ show_hex 16 (unat (fnv1a 14695981039346656037 (chars_of bs)))"

definition TryBuildLocalSourceIdentity :: "local_input \<Rightarrow> string + SourceIdentity" where
  \<comment> \<open>the argument is what the file system and the stream answer for the path\<close>
  "TryBuildLocalSourceIdentity i =
     (case canonical i of
        Inl e \<Rightarrow> Inl (''unable to canonicalize input for cache identity: '' @ e)
      | Inr p \<Rightarrow>
     (case input_size i of
        Inl e \<Rightarrow> Inl (''unable to inspect input for cache identity: '' @ e)
      | Inr n \<Rightarrow>
     (case input_time i of
        Inl e \<Rightarrow> Inl (''unable to inspect input timestamp for cache identity: '' @ e)
      | Inr t \<Rightarrow>
          if \<not> input_opens i then Inl ''unable to open input for cache identity''
          else if \<not> input_ends i then Inl ''unable to read input for cache identity''
          else let token = content_token (input_bytes i);
                 s = \<lparr>source_id = p, sizeBytes = n, modifiedTime = t, validationToken = token,
                      canonicalPath = p, contentIdentity = token\<rparr>
            in if \<not> SourceIdentity_IsValid s then Inl ''generated source identity is invalid'' else Inr s)))"

definition ClassifyResolverIdentity :: "ResolverAssetIdentity \<Rightarrow> ResolverIdentityStability" where
  "ClassifyResolverIdentity a =
     (if \<not> HasNonWhitespace (resolvedIdentifier a) then Unavailable
      else if \<not> HasNonWhitespace (asset_validationToken a) then Unstable
      else Stable)"

definition TryBuildResolverSourceIdentity ::
  "ResolverAssetIdentity \<Rightarrow> (string + SourceIdentity) \<times> ResolverIdentityStability" where
  "TryBuildResolverSourceIdentity a =
     (let stability = ClassifyResolverIdentity a in
      (if stability \<noteq> Stable
       then Inl (if stability = Unstable then ''resolver source identity is unstable''
                 else ''resolver source identity is unavailable'')
       else let s = no_identity\<lparr>source_id := resolvedIdentifier a, sizeBytes := asset_sizeBytes a,
                      validationToken := asset_validationToken a\<rparr>
         in if \<not> SourceIdentity_IsValid s then Inl ''resolver source identity is invalid'' else Inr s,
       stability))"

section \<open>Descriptors and layouts\<close>

record Descriptor =
  desc_source :: SourceIdentity
  pluginVersion :: string
  parserVersion :: string
  openUsdVersion :: string
  coordinateTransform :: CacheArguments
  desc_attributes :: CacheArguments
  tileAndLod :: CacheArguments
  downsampling :: CacheArguments
  sourceDerived :: CacheArguments

definition Descriptor_IsValid :: "Descriptor \<Rightarrow> bool" where
  "Descriptor_IsValid d \<longleftrightarrow> SourceIdentity_IsValid (desc_source d) \<and> pluginVersion d \<noteq> [] \<and>
     parserVersion d \<noteq> [] \<and> openUsdVersion d \<noteq> [] \<and>
     \<not> HasArgumentsWithEmptyNames (coordinateTransform d) \<and> \<not> HasArgumentsWithEmptyNames (desc_attributes d) \<and>
     \<not> HasArgumentsWithEmptyNames (tileAndLod d) \<and> \<not> HasArgumentsWithEmptyNames (downsampling d) \<and>
     \<not> HasArgumentsWithEmptyNames (sourceDerived d)"

definition SourceValidation :: "Descriptor \<Rightarrow> string" where
  "SourceValidation d = (if validationToken (desc_source d) = [] then contentIdentity (desc_source d)
     else validationToken (desc_source d))"

definition AppendPrefixed :: "string \<Rightarrow> CacheArguments \<Rightarrow> CacheArguments" where
  "AppendPrefixed pre vs = map (\<lambda>(name, v). (pre @ ''.'' @ name, v)) vs"

definition source_identifier :: "Descriptor \<Rightarrow> string" where
  "source_identifier d = (if source_id (desc_source d) = [] then canonicalPath (desc_source d)
     else source_id (desc_source d))"

definition MakeGenerationArguments :: "Descriptor \<Rightarrow> CacheArguments" where
  "MakeGenerationArguments d =
     [(''source.identifier'', source_identifier d), (''plugin.version'', pluginVersion d),
      (''parser.version'', parserVersion d), (''openusd.version'', openUsdVersion d)] @
     AppendPrefixed ''attributes'' (desc_attributes d) @ AppendPrefixed ''tile-lod'' (tileAndLod d) @
     AppendPrefixed ''downsampling'' (downsampling d)"

definition MakeIdentityArguments :: "Descriptor \<Rightarrow> CacheArguments" where
  "MakeIdentityArguments d =
     [(''source.size'', show_nat (sizeBytes (desc_source d))), (''source.modified'', show_int (modifiedTime (desc_source d))),
      (''source.validation'', SourceValidation d)] @
     AppendPrefixed ''transform'' (coordinateTransform d) @ AppendPrefixed ''source-derived'' (sourceDerived d)"

definition MakeCacheArguments :: "Descriptor \<Rightarrow> CacheArguments" where
  "MakeCacheArguments d = MakeGenerationArguments d @ MakeIdentityArguments d"

definition Descriptor_StableCacheKey :: "Descriptor \<Rightarrow> string" where
  "Descriptor_StableCacheKey d = (if \<not> Descriptor_IsValid d then [] else StableCacheKey (MakeCacheArguments d))"

record Layout =
  entryDirectory :: path
  rootLayer :: path
  manifest :: path
  payloadDirectory :: path

definition Layout_IsValid :: "Layout \<Rightarrow> bool" where
  "Layout_IsValid l \<longleftrightarrow> entryDirectory l \<noteq> [] \<and> rootLayer l \<noteq> [] \<and> manifest l \<noteq> [] \<and> payloadDirectory l \<noteq> []"

definition kRootLayerName :: string where "kRootLayerName = ''root.usdc''"
definition kManifestName :: string where "kManifestName = ''cache.manifest''"
definition kPayloadDirectoryName :: string where "kPayloadDirectoryName = ''payloads''"

definition TryBuildLayout :: "path \<Rightarrow> Descriptor \<Rightarrow> Layout option" where
  "TryBuildLayout cacheRoot d =
     (if cacheRoot = [] \<or> \<not> Descriptor_IsValid d then None
      else let generationKey = StableCacheKey (MakeGenerationArguments d);
               identityKey = StableCacheKey (MakeIdentityArguments d)
        in if generationKey = [] \<or> identityKey = [] then None
           else let entry = cacheRoot @ [generationKey, identityKey]
             in Some \<lparr>entryDirectory = entry, rootLayer = entry @ [kRootLayerName],
                  manifest = entry @ [kManifestName], payloadDirectory = entry @ [kPayloadDirectoryName]\<rparr>)"

definition AxisName :: "int \<Rightarrow> string" where
  "AxisName v = (if 0 \<le> v then ''p'' @ show_nat (nat v) else ''n'' @ show_nat (nat (- (v + 1)) + 1))"

definition TileName :: "TileId \<Rightarrow> string" where
  "TileName t = ''Tile_L'' @ show_int (level t) @ ''_'' @ AxisName (tx t) @ ''_'' @ AxisName (ty t) @ ''_'' @ AxisName (tz t)"

definition TilePayloadPath :: "Layout \<Rightarrow> TileId \<Rightarrow> int \<Rightarrow> path" where
  "TilePayloadPath l t lodLevel =
     (if \<not> Layout_IsValid l \<or> \<not> TileId_IsValid t \<or> lodLevel < 0 then []
      else payloadDirectory l @ [TileName t @ ''_LOD'' @ show_int lodLevel @ ''.usdc''])"

section \<open>Looking up and invalidating\<close>

definition IsLayoutKeyName :: "string \<Rightarrow> bool" where
  "IsLayoutKeyName name \<longleftrightarrow> length name = 16 \<and>
     list_all (\<lambda>c. CHR ''0'' \<le> c \<and> c \<le> CHR ''9'' \<or> CHR ''a'' \<le> c \<and> c \<le> CHR ''f'') name"

record MarkerStatus =
  marker_exists :: bool
  regular :: bool
  marker_error :: bool

definition InspectMarker :: "file_system \<Rightarrow> path \<Rightarrow> MarkerStatus" where
  "InspectMarker fs p =
     (if status_fails fs p then \<lparr>marker_exists = False, regular = False, marker_error = True\<rparr>
      else case node_at fs p of
        None \<Rightarrow> \<lparr>marker_exists = False, regular = False, marker_error = False\<rparr>
      | Some k \<Rightarrow> \<lparr>marker_exists = True, regular = (k = Regular), marker_error = False\<rparr>)"

definition inspect_status :: "file_system \<Rightarrow> Layout \<Rightarrow> LookupStatus" where
  "inspect_status fs l =
     (if \<not> Layout_IsValid l then InvalidLayout
      else let r = InspectMarker fs (rootLayer l); m = InspectMarker fs (manifest l) in
        if marker_error r \<or> marker_error m then Incomplete
        else if \<not> marker_exists r \<and> \<not> marker_exists m then Missing
        else if \<not> regular r \<or> \<not> regular m then Incomplete
        else Hit)"

definition Inspect :: "file_system \<Rightarrow> Layout \<Rightarrow> LookupStatistics \<Rightarrow> LookupStatus \<times> LookupStatistics" where
  "Inspect fs l st = (let status = inspect_status fs l in (status, RecordLookup status st))"

definition IsCacheHit :: "file_system \<Rightarrow> Layout \<Rightarrow> LookupStatistics \<Rightarrow> bool \<times> LookupStatistics" where
  "IsCacheHit fs l st = (case Inspect fs l st of (status, st') \<Rightarrow> (status = Hit, st'))"

definition committed_entry :: "file_system \<Rightarrow> path \<Rightarrow> bool" where
  "committed_entry fs p \<longleftrightarrow>
     (let r = InspectMarker fs (p @ [kRootLayerName]); m = InspectMarker fs (p @ [kManifestName])
      in marker_exists r \<and> regular r \<and> marker_exists m \<and> regular m)"

definition HasSupersededIdentityEntry :: "file_system \<Rightarrow> Layout \<Rightarrow> bool" where
  "HasSupersededIdentityEntry fs l =
     (if \<not> Layout_IsValid l then False
      else let generationDirectory = butlast (entryDirectory l); entryName = last (entryDirectory l) in
        if generationDirectory = [] then False
        else case list_directory fs generationDirectory of
          None \<Rightarrow> False
        | Some names \<Rightarrow>
            list_ex (\<lambda>name. \<not> (name = entryName \<or> \<not> IsLayoutKeyName name) \<and>
               committed_entry fs (generationDirectory @ [name])) names)"

definition Invalidate :: "path \<Rightarrow> Descriptor \<Rightarrow> file_system \<Rightarrow> bool \<times> file_system" where
  "Invalidate cacheRoot d fs =
     (case TryBuildLayout cacheRoot d of
        None \<Rightarrow> (False, fs)
      | Some l \<Rightarrow>
          (case remove_all (entryDirectory l) fs of
             (True, fs') \<Rightarrow> (False, fs')
           | (False, fs') \<Rightarrow> (True, remove_one (butlast (entryDirectory l)) fs')))"

section \<open>Keys\<close>

lemma hex_char_key: "d < 16 \<Longrightarrow> CHR ''0'' \<le> hex_char d \<and> hex_char d \<le> CHR ''9'' \<or> CHR ''a'' \<le> hex_char d \<and> hex_char d \<le> CHR ''f''"
proof -
  assume d: "d < 16"
  have "(of_char (hex_char d) :: nat) = (if d < 10 then 48 + d else 87 + d)"
    using d by (cases "d < 10") (simp_all add: hex_char_def)
  then show ?thesis using d by (auto simp: less_eq_char_def)
qed

lemma key_name: "IsLayoutKeyName (StableCacheKey a)"
proof -
  have "list_all (\<lambda>c. CHR ''0'' \<le> c \<and> c \<le> CHR ''9'' \<or> CHR ''a'' \<le> c \<and> c \<le> CHR ''f'') (show_hex w n)" for w n
    by (induction w arbitrary: n) (simp_all add: hex_char_key)
  then show ?thesis unfolding IsLayoutKeyName_def length_StableCacheKey by (simp add: StableCacheKey_def)
qed

lemma key_nonempty: "StableCacheKey a \<noteq> []"
  using length_StableCacheKey [of a] by (metis list.size(3) zero_neq_numeral)

definition generation_key :: "Descriptor \<Rightarrow> string" where
  "generation_key d = StableCacheKey (MakeGenerationArguments d)"

definition identity_key :: "Descriptor \<Rightarrow> string" where
  "identity_key d = StableCacheKey (MakeIdentityArguments d)"

lemma layout_paths:
  assumes "TryBuildLayout cacheRoot d = Some l"
  shows "entryDirectory l = cacheRoot @ [generation_key d, identity_key d]"
    "rootLayer l = entryDirectory l @ [kRootLayerName]" "manifest l = entryDirectory l @ [kManifestName]"
    "Layout_IsValid l" "butlast (entryDirectory l) = cacheRoot @ [generation_key d]"
    "last (entryDirectory l) = identity_key d" "cacheRoot \<noteq> []"
  using assms
  by (auto simp: TryBuildLayout_def Let_def key_nonempty generation_key_def identity_key_def Layout_IsValid_def
      butlast_append split: if_splits)

section \<open>What shares a generation directory\<close>

definition fixed_prefix :: "string \<Rightarrow> bool" where
  "fixed_prefix pre \<longleftrightarrow> pre \<noteq> [] \<and> list_all (\<lambda>c. \<not> is_cache_space c \<and> tolower c = c \<and> c \<noteq> CHR ''.'') pre"

definition argument_group :: "string \<times> string \<Rightarrow> string" where
  "argument_group p = takeWhile (\<lambda>c. c \<noteq> CHR ''.'') (fst p)"

lemma dropWhile_before: "\<not> sp x \<Longrightarrow> dropWhile sp (xs @ x # ys) = dropWhile sp xs @ x # ys"
  by (induction xs) auto

lemma NormalizeName_prefixed:
  assumes "fixed_prefix pre"
  shows "takeWhile (\<lambda>c. c \<noteq> CHR ''.'') (NormalizeName (pre @ ''.'' @ name)) = pre"
proof -
  obtain c cs where pre: "pre = c # cs" "\<not> is_cache_space c"
    using assms by (cases pre) (auto simp: fixed_prefix_def)
  have dot: "\<not> is_cache_space CHR ''.''" by (simp add: is_cache_space_def)
  have "cache_trim (pre @ ''.'' @ name) = pre @ CHR ''.'' # rev (dropWhile is_cache_space (rev name))"
    using dropWhile_before [where sp = is_cache_space, OF dot] pre by (simp add: cache_trim_def trim_of_def)
  moreover have "list_all (\<lambda>c. tolower c = c \<and> c \<noteq> CHR ''.'') pre"
    using assms by (auto simp: fixed_prefix_def list_all_iff)
  then have "map tolower pre = pre" "takeWhile (\<lambda>c. c \<noteq> CHR ''.'') (pre @ CHR ''.'' # ys) = pre" for ys
    by (induction pre) auto
  ultimately show ?thesis by (simp add: NormalizeName_def tolower_def)
qed

definition prefixed_pairs :: "string \<Rightarrow> CacheArguments \<Rightarrow> (string \<times> string) multiset" where
  "prefixed_pairs pre vs = mset (normalized_pairs (AppendPrefixed pre vs))"

lemma filter_group: "\<forall>p \<in># M. f p = a \<Longrightarrow> filter_mset (\<lambda>p. f p = g) M = (if g = a then M else {#})"
  by (induction M) auto

lemma prefixed_group:
  assumes "fixed_prefix pre"
  shows "filter_mset (\<lambda>p. argument_group p = g) (prefixed_pairs pre vs) = (if g = pre then prefixed_pairs pre vs else {#})"
  by (rule filter_group)
    (use NormalizeName_prefixed [OF assms] in
      \<open>auto simp: prefixed_pairs_def normalized_pairs_def AppendPrefixed_def argument_group_def\<close>)

lemma fixed_prefixes:
  "fixed_prefix ''source''" "fixed_prefix ''plugin''" "fixed_prefix ''parser''" "fixed_prefix ''openusd''"
  "fixed_prefix ''attributes''" "fixed_prefix ''tile-lod''" "fixed_prefix ''downsampling''"
  by (simp_all add: fixed_prefix_def is_cache_space_def tolower_def)

lemma generation_pairs:
  "mset (normalized_pairs (MakeGenerationArguments d)) =
     prefixed_pairs ''source'' [(''identifier'', source_identifier d)] + prefixed_pairs ''plugin'' [(''version'', pluginVersion d)] +
     prefixed_pairs ''parser'' [(''version'', parserVersion d)] + prefixed_pairs ''openusd'' [(''version'', openUsdVersion d)] +
     prefixed_pairs ''attributes'' (desc_attributes d) + prefixed_pairs ''tile-lod'' (tileAndLod d) +
     prefixed_pairs ''downsampling'' (downsampling d)"
  by (simp add: MakeGenerationArguments_def prefixed_pairs_def normalized_pairs_def AppendPrefixed_def)

lemma single_pair: "prefixed_pairs pre [(n, v)] = prefixed_pairs pre [(n, w)] \<longleftrightarrow> cache_trim v = cache_trim w"
  by (simp add: prefixed_pairs_def normalized_pairs_def AppendPrefixed_def)

lemma same_generation_iff:
  "NormalizeCacheArguments (MakeGenerationArguments a) = NormalizeCacheArguments (MakeGenerationArguments b) \<longleftrightarrow>
     cache_trim (source_identifier a) = cache_trim (source_identifier b) \<and>
     cache_trim (pluginVersion a) = cache_trim (pluginVersion b) \<and>
     cache_trim (parserVersion a) = cache_trim (parserVersion b) \<and>
     cache_trim (openUsdVersion a) = cache_trim (openUsdVersion b) \<and>
     prefixed_pairs ''attributes'' (desc_attributes a) = prefixed_pairs ''attributes'' (desc_attributes b) \<and>
     prefixed_pairs ''tile-lod'' (tileAndLod a) = prefixed_pairs ''tile-lod'' (tileAndLod b) \<and>
     prefixed_pairs ''downsampling'' (downsampling a) = prefixed_pairs ''downsampling'' (downsampling b)" (is "?same \<longleftrightarrow> ?parts")
proof
  assume ?same
  then have eq: "mset (normalized_pairs (MakeGenerationArguments a)) = mset (normalized_pairs (MakeGenerationArguments b))"
    by (simp only: normalized_arguments_exact)
  note group = arg_cong [OF eq, where f = "filter_mset (\<lambda>p. argument_group p = g)" for g, unfolded generation_pairs filter_union_mset]
  have "prefixed_pairs ''source'' [(''identifier'', source_identifier a)] = prefixed_pairs ''source'' [(''identifier'', source_identifier b)]"
    using group [of "''source''"] by (simp add: prefixed_group fixed_prefixes)
  moreover have "prefixed_pairs ''plugin'' [(''version'', pluginVersion a)] = prefixed_pairs ''plugin'' [(''version'', pluginVersion b)]"
    using group [of "''plugin''"] by (simp add: prefixed_group fixed_prefixes)
  moreover have "prefixed_pairs ''parser'' [(''version'', parserVersion a)] = prefixed_pairs ''parser'' [(''version'', parserVersion b)]"
    using group [of "''parser''"] by (simp add: prefixed_group fixed_prefixes)
  moreover have "prefixed_pairs ''openusd'' [(''version'', openUsdVersion a)] = prefixed_pairs ''openusd'' [(''version'', openUsdVersion b)]"
    using group [of "''openusd''"] by (simp add: prefixed_group fixed_prefixes)
  moreover have "prefixed_pairs ''attributes'' (desc_attributes a) = prefixed_pairs ''attributes'' (desc_attributes b)"
    using group [of "''attributes''"] by (simp add: prefixed_group fixed_prefixes)
  moreover have "prefixed_pairs ''tile-lod'' (tileAndLod a) = prefixed_pairs ''tile-lod'' (tileAndLod b)"
    using group [of "''tile-lod''"] by (simp add: prefixed_group fixed_prefixes)
  moreover have "prefixed_pairs ''downsampling'' (downsampling a) = prefixed_pairs ''downsampling'' (downsampling b)"
    using group [of "''downsampling''"] by (simp add: prefixed_group fixed_prefixes)
  ultimately show ?parts by (simp only: single_pair)
next
  assume parts: ?parts
  have single: "prefixed_pairs ''source'' [(''identifier'', source_identifier a)] = prefixed_pairs ''source'' [(''identifier'', source_identifier b)]"
    "prefixed_pairs ''plugin'' [(''version'', pluginVersion a)] = prefixed_pairs ''plugin'' [(''version'', pluginVersion b)]"
    "prefixed_pairs ''parser'' [(''version'', parserVersion a)] = prefixed_pairs ''parser'' [(''version'', parserVersion b)]"
    "prefixed_pairs ''openusd'' [(''version'', openUsdVersion a)] = prefixed_pairs ''openusd'' [(''version'', openUsdVersion b)]"
    unfolding single_pair using parts by blast+
  have groups: "prefixed_pairs ''attributes'' (desc_attributes a) = prefixed_pairs ''attributes'' (desc_attributes b)"
    "prefixed_pairs ''tile-lod'' (tileAndLod a) = prefixed_pairs ''tile-lod'' (tileAndLod b)"
    "prefixed_pairs ''downsampling'' (downsampling a) = prefixed_pairs ''downsampling'' (downsampling b)"
    using parts by blast+
  have "mset (normalized_pairs (MakeGenerationArguments a)) = mset (normalized_pairs (MakeGenerationArguments b))"
    unfolding generation_pairs single groups ..
  then show ?same by (simp only: normalized_arguments_exact)
qed

section \<open>Nodes after a removal\<close>

lemma node_at_keep: "node_at (keep_nodes P fs) p = (if P p then node_at fs p else None)"
proof -
  have "map_of (filter (\<lambda>n. P (fst n)) ns) p = (if P p then map_of ns p else None)" for ns :: "(path \<times> node) list"
    by (induction ns) auto
  then show ?thesis by (simp add: node_at_def keep_nodes_def)
qed

lemma keep_nodes_simps [simp]:
  "status_fails (keep_nodes P fs) = status_fails fs" "list_fails (keep_nodes P fs) = list_fails fs"
  by (simp_all add: keep_nodes_def)

lemma node_at_remove_one:
  "q \<noteq> p \<Longrightarrow> node_at (remove_one p fs) q = node_at fs q" "status_fails (remove_one p fs) = status_fails fs"
  "node_at fs p = None \<Longrightarrow> node_at (remove_one p fs) q = node_at fs q"
  by (auto simp: remove_one_def node_at_keep)

definition below :: "file_system \<Rightarrow> path \<Rightarrow> bool" where
  \<comment> \<open>whether something exists below the path\<close>
  "below fs p \<longleftrightarrow> (\<exists>q. strict_prefix p q \<and> node_at fs q \<noteq> None)"

lemma below_nodes: "list_ex (\<lambda>n. strict_prefix p (fst n)) (nodes fs) \<longleftrightarrow> below fs p"
  by (force simp: below_def node_at_def list_ex_iff map_of_eq_None_iff)

lemma Invalidate_result:
  assumes "TryBuildLayout cacheRoot d = Some l" "Invalidate cacheRoot d fs = (True, fs')"
  shows "fs' = remove_one (butlast (entryDirectory l)) (keep_nodes (\<lambda>q. \<not> prefix (entryDirectory l) q) fs)"
  using assms by (auto simp: Invalidate_def remove_all_def split: if_splits)

lemma InspectMarker_cong:
  "node_at fs' p = node_at fs p \<Longrightarrow> status_fails fs' p = status_fails fs p \<Longrightarrow> InspectMarker fs' p = InspectMarker fs p"
  by (simp add: InspectMarker_def)

lemma inspect_status_cong:
  assumes "InspectMarker fs' (rootLayer l) = InspectMarker fs (rootLayer l)"
    "InspectMarker fs' (manifest l) = InspectMarker fs (manifest l)"
  shows "inspect_status fs' l = inspect_status fs l"
  using assms by (simp add: inspect_status_def)

lemma committed_status:
  assumes "TryBuildLayout cacheRoot d = Some l"
  shows "inspect_status fs l = Hit \<longleftrightarrow> committed_entry fs (entryDirectory l)"
  using layout_paths [OF assms]
  by (auto simp: inspect_status_def committed_entry_def Let_def InspectMarker_def split: option.splits)

lemma entry_prefix:
  assumes "prefix (r @ [g, i]) q" "q = r @ [g', i', n]"
  shows "g = g' \<and> i = i'"
  using assms by (auto simp: prefix_def)

section \<open>Properties\<close>

text \<open>
  Claim C38: which descriptors share a generation directory.  The canonical text hashed into the name
  of the generation directory is the same for two descriptors exactly when their source identifiers
  and their three versions agree after trimming and their attribute, tiling and downsampling
  arguments agree up to order, blanks and the case of names; nothing that is derived from the content
  of the source enters it, so all revisions of a source fall into one directory.
\<close>
theorem shared_generation_iff:
  "(NormalizeCacheArguments (MakeGenerationArguments a) = NormalizeCacheArguments (MakeGenerationArguments b) \<longleftrightarrow>
     cache_trim (source_identifier a) = cache_trim (source_identifier b) \<and>
     cache_trim (pluginVersion a) = cache_trim (pluginVersion b) \<and>
     cache_trim (parserVersion a) = cache_trim (parserVersion b) \<and>
     cache_trim (openUsdVersion a) = cache_trim (openUsdVersion b) \<and>
     mset (normalized_pairs (AppendPrefixed ''attributes'' (desc_attributes a))) =
       mset (normalized_pairs (AppendPrefixed ''attributes'' (desc_attributes b))) \<and>
     mset (normalized_pairs (AppendPrefixed ''tile-lod'' (tileAndLod a))) =
       mset (normalized_pairs (AppendPrefixed ''tile-lod'' (tileAndLod b))) \<and>
     mset (normalized_pairs (AppendPrefixed ''downsampling'' (downsampling a))) =
       mset (normalized_pairs (AppendPrefixed ''downsampling'' (downsampling b)))) \<and>
   MakeGenerationArguments (d\<lparr>desc_source := (desc_source d)\<lparr>sizeBytes := n, modifiedTime := t, validationToken := v,
      contentIdentity := c\<rparr>, coordinateTransform := x, sourceDerived := y\<rparr>) = MakeGenerationArguments d"
  using same_generation_iff [of a b]
  by (simp add: prefixed_pairs_def MakeGenerationArguments_def source_identifier_def)

text \<open>
  Claim C39: invalidation removes one entry and nothing else.  After a successful invalidation nothing
  exists in the entry's directory, its lookup is Missing (when its markers can be examined); every
  path outside the entry is as before, but for the generation directory, which goes exactly when it
  can be removed and holds nothing more; and the lookup of every other entry is unchanged.
\<close>
theorem invalidation_is_local:
  assumes "TryBuildLayout cacheRoot d = Some l" "Invalidate cacheRoot d fs = (True, fs')"
  shows "(\<forall>q. prefix (entryDirectory l) q \<longrightarrow> node_at fs' q = None) \<and>
    (\<not> status_fails fs (rootLayer l) \<and> \<not> status_fails fs (manifest l) \<longrightarrow> inspect_status fs' l = Missing) \<and>
    (\<forall>q. \<not> prefix (entryDirectory l) q \<and> q \<noteq> butlast (entryDirectory l) \<longrightarrow> node_at fs' q = node_at fs q) \<and>
    (node_at fs' (butlast (entryDirectory l)) =
       (if \<not> remove_fails fs (butlast (entryDirectory l)) \<and> \<not> below fs' (butlast (entryDirectory l)) then None
        else node_at fs (butlast (entryDirectory l)))) \<and>
    (\<forall>d2 l2. TryBuildLayout cacheRoot d2 = Some l2 \<and> entryDirectory l2 \<noteq> entryDirectory l \<longrightarrow>
       inspect_status fs' l2 = inspect_status fs l2)"
proof -
  note L = layout_paths [OF assms(1)]
  let ?e = "entryDirectory l" and ?g = "butlast (entryDirectory l)"
  let ?k = "keep_nodes (\<lambda>q. \<not> prefix ?e q) fs"
  have fs': "fs' = remove_one ?g ?k" using Invalidate_result [OF assms] .
  have g: "?g = cacheRoot @ [generation_key d]" "\<not> prefix ?e ?g" using L by (auto simp: prefix_def)
  have away: "node_at fs' q = (if prefix ?e q then None else node_at fs q)" if "q \<noteq> ?g" for q
    using that by (simp add: fs' node_at_remove_one node_at_keep)
  have gone: "node_at fs' q = None" if "prefix ?e q" for q using away [of q] that g(2) by auto
  have st: "status_fails fs' = status_fails fs" by (simp add: fs' node_at_remove_one)
  have "inspect_status fs' l = Missing" if "\<not> status_fails fs (rootLayer l)" "\<not> status_fails fs (manifest l)"
    using that gone L(2-4) by (simp add: inspect_status_def InspectMarker_def st)
  moreover have "inspect_status fs' l2 = inspect_status fs l2"
    if "TryBuildLayout cacheRoot d2 = Some l2" "entryDirectory l2 \<noteq> ?e" for d2 l2
  proof -
    note L2 = layout_paths [OF that(1)]
    have "node_at fs' (entryDirectory l2 @ [n]) = node_at fs (entryDirectory l2 @ [n])" for n
    proof -
      have "\<not> prefix ?e (entryDirectory l2 @ [n])"
        using that(2) entry_prefix [of cacheRoot "generation_key d" "identity_key d"] L(1) L2(1) by fastforce
      moreover have "entryDirectory l2 @ [n] \<noteq> ?g" unfolding L2(1) g(1) by simp
      ultimately show ?thesis using away by simp
    qed
    then show ?thesis by (intro inspect_status_cong InspectMarker_cong) (simp_all add: L2(2,3) st)
  qed
  moreover have "node_at fs' ?g = (if \<not> remove_fails fs ?g \<and> \<not> below fs' ?g then None else node_at fs ?g)"
  proof -
    have "below fs' ?g \<longleftrightarrow> below ?k ?g"
      unfolding below_def fs' using node_at_remove_one(1) by (metis prefix_order.less_irrefl)
    moreover have "remove_fails ?k = remove_fails fs" by (simp add: keep_nodes_def)
    ultimately show ?thesis
      using g(2) by (simp add: fs' remove_one_def below_nodes node_at_keep)
  qed
  ultimately show ?thesis using away gone by (intro conjI) (simp_all, blast)
qed

lemma listed_names:
  assumes "list_directory fs dir = Some names" "list_fails fs dir = None"
  shows "name \<in> set names \<longleftrightarrow> node_at fs (dir @ [name]) \<noteq> None"
proof -
  have "name \<in> set names \<longleftrightarrow> (\<exists>p \<in> fst ` set (nodes fs). p \<noteq> [] \<and> butlast p = dir \<and> last p = name)"
    using assms by (force simp: list_directory_def Let_def split: if_splits)
  also have "\<dots> \<longleftrightarrow> dir @ [name] \<in> fst ` set (nodes fs)"
    by (metis append_butlast_last_id butlast_snoc last_snoc snoc_eq_iff_butlast)
  finally show ?thesis by (simp add: node_at_def map_of_eq_None_iff)
qed

text \<open>
  Claim C40: a revised source is recognised.  Where the generation directory can be listed to its end, an entry is
  reported as superseding another exactly when the directory holds a committed entry under a different
  key name; in particular, when two descriptors agree on what was asked for but differ in the key of
  their source's revision, and the entry of one is a cache hit, the lookup of the other reports that a
  generated entry exists for a different revision.
\<close>
theorem revision_recognised:
  assumes "TryBuildLayout cacheRoot b = Some l" "node_at fs (butlast (entryDirectory l)) = Some Directory"
    "list_fails fs (butlast (entryDirectory l)) = None"
  shows "(HasSupersededIdentityEntry fs l \<longleftrightarrow>
      (\<exists>name. node_at fs (butlast (entryDirectory l) @ [name]) \<noteq> None \<and> name \<noteq> last (entryDirectory l) \<and>
         IsLayoutKeyName name \<and> committed_entry fs (butlast (entryDirectory l) @ [name]))) \<and>
    (\<forall>a l'. TryBuildLayout cacheRoot a = Some l' \<and>
       NormalizeCacheArguments (MakeGenerationArguments a) = NormalizeCacheArguments (MakeGenerationArguments b) \<and>
       identity_key a \<noteq> identity_key b \<and> node_at fs (entryDirectory l') \<noteq> None \<and> inspect_status fs l' = Hit \<longrightarrow>
       HasSupersededIdentityEntry fs l)"
proof -
  note L = layout_paths [OF assms(1)]
  obtain names where names: "list_directory fs (butlast (entryDirectory l)) = Some names"
    using assms(2,3) by (simp add: list_directory_def Let_def)
  have eq: "HasSupersededIdentityEntry fs l \<longleftrightarrow>
      (\<exists>name. node_at fs (butlast (entryDirectory l) @ [name]) \<noteq> None \<and> name \<noteq> last (entryDirectory l) \<and>
         IsLayoutKeyName name \<and> committed_entry fs (butlast (entryDirectory l) @ [name]))"
    unfolding HasSupersededIdentityEntry_def names Let_def listed_names [OF names assms(3), symmetric]
    using L(4,5) by (auto simp: list_ex_iff)
  have "HasSupersededIdentityEntry fs l"
    if a: "TryBuildLayout cacheRoot a = Some l'"
      "NormalizeCacheArguments (MakeGenerationArguments a) = NormalizeCacheArguments (MakeGenerationArguments b)"
      "identity_key a \<noteq> identity_key b" "node_at fs (entryDirectory l') \<noteq> None" "inspect_status fs l' = Hit" for a l'
  proof -
    note A = layout_paths [OF a(1)]
    have "generation_key a = generation_key b" using a(2) by (simp add: generation_key_def StableCacheKey_def)
    then have e: "entryDirectory l' = butlast (entryDirectory l) @ [identity_key a]" using A(1) L(5) by simp
    have "committed_entry fs (entryDirectory l')" using a(5) committed_status [OF a(1)] by simp
    then show ?thesis
      unfolding eq using a(3,4) L(6) key_name [of "MakeIdentityArguments a"]
      by (intro exI [of _ "identity_key a"]) (simp add: e identity_key_def)
  qed
  then show ?thesis using eq by blast
qed

section \<open>Examples\<close>

definition sample_descriptor :: "string \<Rightarrow> Descriptor" where
  "sample_descriptor token =
     \<lparr>desc_source = no_identity\<lparr>source_id := ''a'', validationToken := token\<rparr>, pluginVersion = ''1'', parserVersion = ''1'',
      openUsdVersion = ''1'', coordinateTransform = [], desc_attributes = [], tileAndLod = [], downsampling = [],
      sourceDerived = []\<rparr>"

lemma odd_factor: "(x :: u64) * 1099511628211 = y * 1099511628211 \<longleftrightarrow> x = y"
proof
  assume "x * 1099511628211 = y * 1099511628211"
  then have "x * 1099511628211 * 14886173955864302971 = y * 1099511628211 * 14886173955864302971" by simp
  then have "x * (1099511628211 * 14886173955864302971) = y * (1099511628211 * 14886173955864302971)"
    by (simp only: mult.assoc)
  moreover have inv: "(1099511628211 * 14886173955864302971 :: u64) = 1" by simp
  ultimately show "x = y" by (simp only: inv mult_1_right)
qed simp

lemma xor_cancel: "(x :: u64) XOR z = y XOR z \<longleftrightarrow> x = y" "z XOR x = z XOR y \<longleftrightarrow> x = y"
proof -
  have undo: "(w XOR z) XOR z = w" for w :: u64 by (simp add: xor.assoc)
  show "x XOR z = y XOR z \<longleftrightarrow> x = y"
  proof
    assume "x XOR z = y XOR z"
    then have "(x XOR z) XOR z = (y XOR z) XOR z" by (rule arg_cong)
    then show "x = y" unfolding undo .
  qed simp
  then show "z XOR x = z XOR y \<longleftrightarrow> x = y" by (simp only: xor.commute)
qed

lemma fnv1a_inj: "fnv1a h s = fnv1a h' s \<longleftrightarrow> h = h'"
proof (induction s arbitrary: h h')
  case (Cons c s)
  then show ?case by (simp add: fnv1a_def odd_factor xor_cancel)
qed (simp add: fnv1a_def)

lemma fnv1a_one_char:
  assumes "fnv1a h (xs @ c # ys) = fnv1a h (xs @ d # ys)"
  shows "(word_of_nat (of_char c) :: u64) = word_of_nat (of_char d)"
proof -
  have "fnv1a h (xs @ x # ys) = fnv1a ((fnv1a h xs XOR word_of_nat (of_char x)) * 1099511628211) ys" for x
    by (simp add: fnv1a_def)
  then show ?thesis using assms by (simp add: fnv1a_inj odd_factor xor_cancel)
qed

lemma sample_identity_texts:
  "NormalizeCacheArguments (MakeIdentityArguments (sample_descriptor ''u'')) =
     ''15:source.modified1:0;11:source.size1:0;17:source.validation1:'' @ CHR ''u'' # '';''"
  "NormalizeCacheArguments (MakeIdentityArguments (sample_descriptor ''v'')) =
     ''15:source.modified1:0;11:source.size1:0;17:source.validation1:'' @ CHR ''v'' # '';''"
  by code_simp+

lemma sample_keys_differ: "identity_key (sample_descriptor ''u'') \<noteq> identity_key (sample_descriptor ''v'')"
proof
  assume "identity_key (sample_descriptor ''u'') = identity_key (sample_descriptor ''v'')"
  from fnv1a_one_char [OF this [unfolded identity_key_def StableCacheKey_eq_hash sample_identity_texts]]
  show False by simp
qed

definition sample_root :: path where
  "sample_root = [''cache'']"

definition sample_cache :: file_system where
  \<comment> \<open>the committed entry of the revision \<open>u\<close>\<close>
  "sample_cache =
     (let g = sample_root @ [generation_key (sample_descriptor ''u'')]; e = g @ [identity_key (sample_descriptor ''u'')] in
      \<lparr>nodes = [(g, Directory), (e, Directory), (e @ [kRootLayerName], Regular), (e @ [kManifestName], Regular)],
       status_fails = (\<lambda>_. False), list_fails = (\<lambda>_. None), remove_fails = (\<lambda>_. False), remove_leaves = (\<lambda>_ _. False)\<rparr>)"

lemma sample_valid: "Descriptor_IsValid (sample_descriptor ''u'')" "Descriptor_IsValid (sample_descriptor ''v'')"
  by (simp_all add: Descriptor_IsValid_def sample_descriptor_def SourceIdentity_IsValid_def no_identity_def
      HasArgumentsWithEmptyNames_def)

lemma sample_layout:
  assumes "Descriptor_IsValid d"
  obtains l where "TryBuildLayout sample_root d = Some l"
  using assms by (auto simp: TryBuildLayout_def sample_root_def Let_def key_nonempty)

lemma sample_generation: "MakeGenerationArguments (sample_descriptor t) = MakeGenerationArguments (sample_descriptor s)"
  by (simp add: MakeGenerationArguments_def source_identifier_def sample_descriptor_def no_identity_def)

lemma sample_hit:
  assumes "TryBuildLayout sample_root (sample_descriptor ''u'') = Some l"
  shows "inspect_status sample_cache l = Hit" "node_at sample_cache (entryDirectory l) \<noteq> None"
    "node_at sample_cache (butlast (entryDirectory l)) = Some Directory"
  using layout_paths [OF assms]
  by (simp_all add: inspect_status_def Let_def InspectMarker_def sample_cache_def node_at_def kRootLayerName_def
      kManifestName_def)

theorem invalidation_is_local_witness:
  "\<exists>l fs'. TryBuildLayout sample_root (sample_descriptor ''u'') = Some l \<and> inspect_status sample_cache l = Hit \<and>
    Invalidate sample_root (sample_descriptor ''u'') sample_cache = (True, fs') \<and> inspect_status fs' l = Missing"
proof -
  obtain l where l: "TryBuildLayout sample_root (sample_descriptor ''u'') = Some l" using sample_layout [OF sample_valid(1)] .
  obtain fs' where i: "Invalidate sample_root (sample_descriptor ''u'') sample_cache = (True, fs')"
    using l by (simp add: Invalidate_def remove_all_def sample_cache_def Let_def)
  have "\<not> status_fails sample_cache p" for p by (simp add: sample_cache_def Let_def)
  then show ?thesis using invalidation_is_local [OF l i] l i sample_hit(1) [OF l] by blast
qed

theorem revision_recognised_witness:
  "\<exists>l. TryBuildLayout sample_root (sample_descriptor ''v'') = Some l \<and> HasSupersededIdentityEntry sample_cache l"
proof -
  obtain l where l: "TryBuildLayout sample_root (sample_descriptor ''v'') = Some l" using sample_layout [OF sample_valid(2)] .
  obtain l' where l': "TryBuildLayout sample_root (sample_descriptor ''u'') = Some l'" using sample_layout [OF sample_valid(1)] .
  have g: "generation_key (sample_descriptor ''u'') = generation_key (sample_descriptor ''v'')"
    by (simp only: generation_key_def sample_generation [of "''u''" "''v''"])
  have same: "butlast (entryDirectory l) = butlast (entryDirectory l')"
    using layout_paths(5) [OF l] layout_paths(5) [OF l'] g by simp
  have "list_fails sample_cache (butlast (entryDirectory l)) = None" by (simp add: sample_cache_def Let_def)
  from revision_recognised [OF l _ this] show ?thesis
    using l l' sample_hit [OF l'] sample_keys_differ sample_generation [of "''u''" "''v''"] same by metis
qed

end
