(* ===== verification/Spec2Isabelle.thy ===== *)
theory Spec2Isabelle
  imports Format_Args Pose_Bounds Budget_Stream Tile_Manifest Las_Stream Spool Geo_Cache
begin

text \<open>
  A verification library for the core of the point-cloud plugins of OpenUSD kept in this
  repository.  The program turns point-cloud files (LAS and LAZ, COPC, PLY) into USD layers.  Its
  libraries form a stack, each in its directory under \<^verbatim>\<open>src/libs\<close>:

  \<^item> \<^verbatim>\<open>usd-geo-core\<close>: diagnostics, vectors and bounding boxes, tile identifiers, georeferencing,
    stable cache keys, random access to files;
  \<^item> \<^verbatim>\<open>usd-pointcloud-core\<close>: columns of point data, chunks, scans, collections, levels of detail,
    sampling, the arguments of a file format and attribute selection;
  \<^item> \<^verbatim>\<open>usd-pointcloud-tiling\<close>: fixed grids, the adaptive point-budget planner in memory and over a
    stream, routers from positions to tiles, tile plans, tile manifests, the spool files that hold the
    points of a tile;
  \<^item> \<^verbatim>\<open>usd-las\<close>: the LAS format: header, variable-length records, coordinate systems, point records,
    the reader in chunks, the point stream, the columns of a point cloud;
  \<^item> \<^verbatim>\<open>usd-geo-cache\<close>: the layout, lookup and invalidation of generated output.

  A read goes through them in this order: the arguments of the asset path become a
  \<^verbatim>\<open>PointReadRequest\<close>; a reader inspects the header and its records over a random access source and
  decodes the point records chunk by chunk, filtered by the request; the chunks become columns; the
  columns become an asset with its georeference, or go through a planner and a router into tiles,
  whose plan and manifest are validated and keyed for the cache; while tiles are built their points
  are spooled to files, and finished output is kept in entries of the cache.

  The theories, the code they model, and what their lemmas show:

  \<^item> \<open>Prelude\<close>, \<open>Containers\<close>, \<open>Binary_Float\<close>, \<open>Float_Midpoint\<close>, \<open>Number_Text\<close>, \<open>Byte_Codec\<close>: what the
    code uses of the C++ standard library and of the machine.  Machine words, \<^verbatim>\<open>std::to_string\<close>,
    \<^verbatim>\<open>std::map\<close>, \<^verbatim>\<open>std::sort\<close> and \<^verbatim>\<open>std::lower_bound\<close> with their contracts as the locales
    \<open>ordered_map\<close>, \<open>comparator\<close> and \<open>total_comparator\<close>; IEEE binary floating point with correct
    rounding, \<^verbatim>\<open>strtod\<close> and \<^verbatim>\<open>isspace\<close>; little-endian integers and IEEE bit patterns in byte buffers.
  \<^item> \<open>Geo_Core\<close> and \<open>Byte_Source\<close>: \<^verbatim>\<open>usd-geo-core\<close>.  Bounds are least boxes; the transformation to
    local coordinates and back is exact on integers of moderate size; transformed boxes contain the
    transformed points, rounding included; the normal form of cache arguments identifies exactly the
    equal ones.  A random access source is a record of operations over a state; its contract is the
    locale \<open>readable_source\<close>, interpreted on the local file source.
  \<^item> \<open>Point_Cloud\<close>, \<open>Pose_Bounds\<close>, \<open>Lod\<close>, \<open>Sampling\<close>, \<open>Format_Args\<close>: \<^verbatim>\<open>usd-pointcloud-core\<close>.  Validity of columns,
    chunks, scans, collections and hierarchies, and its preservation by the operations; the
    pose of an accepted scan is a rotation up to a stated error, and the check of the corners of its box
    covers all its points; names of Extra Bytes become distinct identifiers; a sample keeps the columns of
    its points together; the parser of argument strings, its printer, the
    normalisation of arguments with its error reports.
  \<^item> \<open>Tile_Grid\<close>, \<open>Budget_Plan\<close>, \<open>Budget_Router\<close>, \<open>Budget_Stream\<close>, \<open>Tile_Plan\<close>, \<open>Tile_Manifest\<close>:
    \<^verbatim>\<open>Tiling.cpp\<close>.  The planner's tiles are the leaves of one quadtree and partition the points; the
    planner over a stream, which only keeps counts per Morton code, computes the plan of the planner in
    memory; the router finds the leaf that counted a point; the validator of tile plans ends and
    accepts exactly single trees; manifests accept no path that leaves their directory; texts and keys
    do not depend on the order of their parts.  Routers share the locale \<open>tile_router\<close>; the cell of the fixed grid contains its points up to the rounding of one division.
  \<^item> \<open>Spool\<close>: \<^verbatim>\<open>Spool.cpp\<close>.  The contract of a reading function and the bytes of its values is the
    locale \<open>codec\<close>, interpreted on the reading functions; the reader completes exactly on the files
    of points, and what a writer was given is read back.
  \<^item> \<open>Geo_Cache\<close>: \<^verbatim>\<open>Cache.cpp\<close> over a model of the file system.  Which descriptors share a generation
    directory, what an invalidation removes, when a revised source is recognised.
  \<^item> \<open>Las_Format\<close>, \<open>Las_Metadata\<close>, \<open>Las_Point\<close>, \<open>Las_Reader\<close>, \<open>Las_Cloud\<close>, \<open>Las_Stream\<close>: \<^verbatim>\<open>usd-las\<close>.
    What an accepted header guarantees; records laid out by the format are read back; the EPSG code of
    a WKT text is the one of its own authority; decoded points; the reader delivers exactly the
    matching records of the range; metadata read in ranges are those of the whole file, but for
    extended records announced at offset 0; appended chunks are columns; a drained stream delivers
    the range.

  How the model corresponds to the code.  A C++ structure is a record with the fields of the
  structure (prefixed where a name is taken), an enumeration a datatype, a function a function with
  the name of the source.  A function that returns a success flag and fills a result and an error
  is a function into a sum, the error on the left, or into a tuple where both are observable after
  a failure.  Unsigned 64-bit counters are natural numbers, reduced modulo \<open>u64_max + 1\<close> wherever the
  code's operations may wrap; codes and bytes are words.  A \<^verbatim>\<open>double\<close> is a value of \<open>fl\<close>.  Methods of
  an object with state take the state and return it: \<open>LasPointStream\<close>, \<open>LocalRandomAccessSource\<close>.
  A \<^verbatim>\<open>std::function\<close> is a function over a state of its own: the consumers and the cancellation test of
  the reader.  What the operating system answers (whether a file opens, its size, whether a
  read succeeds) is a parameter in the state of the file.

  Loops and bounds.  Loops over data are structural recursion; the others carry a measure: the depth
  left for the planner and the routers, the points left for the reader.  The search of the tile plan
  validator, the draining of a stream and the reading of a spool run on fuel; the theorems show that
  one unit per node and one more, one unit per point of the range and one more, and one unit per
  spooled point and one more are enough, so all return.

  Not modelled: \<^verbatim>\<open>usd-laz\<close> and \<^verbatim>\<open>usd-copc\<close>, whose decoding is that of the third-party laz-perf;
  \<^verbatim>\<open>usd-ply\<close>, whose header is parsed by the third-party tinyply; the
  USD side (\<^verbatim>\<open>usd-pointcloud-authoring\<close>, \<^verbatim>\<open>src/plugins\<close>), which calls the OpenUSD libraries to build
  layers; the command-line tool under \<^verbatim>\<open>src/tools\<close>; tests, benchmarks, build files and scripts.
  Allocation failures, the reserved capacity of containers and moved-from objects have no
  counterpart in the model.
\<close>

end
